(* ===== verification/Prelude.thy ===== *)
theory Prelude
  imports Main "HOL-Library.Word"
begin

text \<open>
  Shared vocabulary of the development: the C types the sources use, the casts
  the sources write, error codes that several components share, and the generic
  lemmas on lists, words and casts the component theories rely on.

  Conventions used in every theory.
  \<^item> A C enum is an \<open>int\<close>, as in the source: the handlers themselves reject values
    outside the enumeration (an HTTP body with a missing member reaches them as
    \<open>-1\<close>), so such values have to exist in the model.
  \<^item> \<open>const char *\<close> is \<open>string option\<close>: \<open>None\<close> is \<open>NULL\<close>; a string holds no NUL.
  \<^item> A function pointer or a \<open>void *\<close> is its address, a \<open>nat\<close>; \<open>None\<close> is \<open>NULL\<close>.
  \<^item> \<open>int64_t\<close> times are \<open>int\<close> (milliseconds of a monotonic clock never reach
    \<open>2^63\<close>); counters whose wrap-around is visible are words.
\<close>

section \<open>C types\<close>

type_synonym c_enum = int
type_synonym c_str = "string option"
type_synonym fn_ptr = nat
type_synonym data_ptr = int
type_synonym byte = "8 word"
type_synonym u32 = "32 word"
type_synonym u64 = "64 word"

text \<open>The cast \<open>(unsigned)v\<close> of an \<open>int\<close>.\<close>

definition as_unsigned :: "int \<Rightarrow> nat" where
  "as_unsigned v = nat (v mod 4294967296)"

text \<open>
  Rewrite rules that open one component's operations on concrete or case-split
  arguments are collected here; \<open>cast_simps\<close> holds the facts on the casts.
\<close>

named_theorems cast_simps \<open>facts on C casts\<close>
named_theorems op_defs \<open>definitions of the operations of a component\<close>
named_theorems inv_intros \<open>preservation facts of the well-formedness invariants\<close>

section \<open>Casts\<close>

lemma as_unsigned_in_range [cast_simps]:
  "0 \<le> v \<Longrightarrow> v < 4294967296 \<Longrightarrow> as_unsigned v = nat v"
  by (simp add: as_unsigned_def)

lemma as_unsigned_small_iff:
  assumes "- 2147483648 \<le> v" and "v < 2147483648" and "n \<le> 2147483648"
  shows "as_unsigned v < n \<longleftrightarrow> 0 \<le> v \<and> v < int n"
proof (cases "0 \<le> v")
  case True
  with assms show ?thesis by (simp add: as_unsigned_def nat_less_iff)
next
  case False
  with assms(1) have "v mod 4294967296 = v + 4294967296"
    by (subst mod_add_self2 [symmetric]) (simp del: mod_add_self2)
  with False assms show ?thesis by (simp add: as_unsigned_def nat_less_iff)
qed

section \<open>Lists\<close>

lemma list_update_nth_other [simp]: "i \<noteq> j \<Longrightarrow> xs[i := v] ! j = xs ! j"
  by simp

lemma nth_list_update_if:
  "xs[i := v] ! j = (if i = j \<and> j < length xs then v else xs ! j)"
  by (metis list_update_beyond not_le nth_list_update_eq nth_list_update_neq)

lemma list_all_update:
  "list_all P xs \<Longrightarrow> (i < length xs \<Longrightarrow> P v) \<Longrightarrow> list_all P (xs[i := v])"
  by (auto simp: list_all_length nth_list_update_if)

lemma find_Some_in_set: "List.find P xs = Some x \<Longrightarrow> x \<in> set xs \<and> P x"
  by (induction xs) (auto split: if_splits)

lemma find_None_iff_all: "List.find P xs = None \<longleftrightarrow> (\<forall>x \<in> set xs. \<not> P x)"
  by (induction xs) auto

lemma map_update_same:
  "(i < length xs \<Longrightarrow> f v = f (xs ! i)) \<Longrightarrow> map f (xs[i := v]) = map f xs"
  by (metis list_update_beyond list_update_id map_update not_le nth_map)

lemma length_filter_snoc:
  "length (filter P (xs @ [x])) = length (filter P xs) + (if P x then 1 else 0)"
  by simp

section \<open>Words\<close>

lemma unat_Suc_word:
  fixes w :: "'a::len word"
  assumes "Suc (unat w) < 2 ^ LENGTH('a)"
  shows "unat (w + 1) = Suc (unat w)"
  using assms by (simp add: unat_word_ariths)

end
