(* ===== verification/Linked_Queue.thy ===== *)
theory Linked_Queue
  imports Prelude
begin

text \<open>
  The intrusive singly linked queue of \<open>core/controller.c\<close>. The action queue
  (\<open>enqueue_locked\<close> and the pop of \<open>strim_controller_run\<close>) and the worker pool's
  job queue (\<open>workerpool_submit\<close> and the pop of \<open>worker_main\<close>) are the same code on
  a head pointer, a tail pointer and \<open>next\<close> links. The locale \<open>fifo\<close> states what
  the rest of the controller relies on; the pointer queue is interpreted as one, so
  the component theories may keep the two queues as plain lists.
\<close>

section \<open>The queue interface\<close>

locale fifo =
  fixes enq :: "'a \<Rightarrow> 'q \<Rightarrow> 'q"
    and deq :: "'q \<Rightarrow> ('a \<times> 'q) option"
    and rep :: "'q \<Rightarrow> 'a list \<Rightarrow> bool"
    and fresh :: "'a \<Rightarrow> 'q \<Rightarrow> 'a list \<Rightarrow> bool"
  assumes rep_enq: "rep q xs \<Longrightarrow> fresh x q xs \<Longrightarrow> rep (enq x q) (xs @ [x])"
    and deq_empty: "rep q [] \<Longrightarrow> deq q = None"
    and deq_rep: "rep q (x # xs) \<Longrightarrow> \<exists>q'. deq q = Some (x, q') \<and> rep q' xs"

text \<open>
  A schedule is a list of queue operations: \<open>Some x\<close> enqueues \<open>x\<close>, \<open>None\<close> is one
  pop of the consumer (which waits, that is does nothing, on an empty queue).
\<close>

fun run_schedule ::
  "('a \<Rightarrow> 'q \<Rightarrow> 'q) \<Rightarrow> ('q \<Rightarrow> ('a \<times> 'q) option) \<Rightarrow> 'a option list \<Rightarrow> 'q \<Rightarrow> 'a list \<times> 'q"
where
  "run_schedule enq deq [] q = ([], q)"
| "run_schedule enq deq (Some x # ops) q = run_schedule enq deq ops (enq x q)"
| "run_schedule enq deq (None # ops) q =
     (case deq q of
        None \<Rightarrow> run_schedule enq deq ops q
      | Some (x, q') \<Rightarrow>
          (case run_schedule enq deq ops q' of (out, q'') \<Rightarrow> (x # out, q'')))"

text \<open>The elements a schedule enqueues are fresh when they are enqueued.\<close>

fun fresh_schedule ::
  "('a \<Rightarrow> 'q \<Rightarrow> 'q) \<Rightarrow> ('q \<Rightarrow> ('a \<times> 'q) option) \<Rightarrow> ('a \<Rightarrow> 'q \<Rightarrow> 'a list \<Rightarrow> bool) \<Rightarrow>
   'a option list \<Rightarrow> 'q \<Rightarrow> 'a list \<Rightarrow> bool"
where
  "fresh_schedule enq deq fresh [] q xs = True"
| "fresh_schedule enq deq fresh (Some x # ops) q xs =
     (fresh x q xs \<and> fresh_schedule enq deq fresh ops (enq x q) (xs @ [x]))"
| "fresh_schedule enq deq fresh (None # ops) q xs =
     (case deq q of
        None \<Rightarrow> fresh_schedule enq deq fresh ops q xs
      | Some (x, q') \<Rightarrow> fresh_schedule enq deq fresh ops q' (tl xs))"

definition enqueued :: "'a option list \<Rightarrow> 'a list" where
  "enqueued ops = List.map_filter id ops"

lemma enqueued_simps [simp]:
  "enqueued [] = []" "enqueued (Some x # ops) = x # enqueued ops"
  "enqueued (None # ops) = enqueued ops"
  by (simp_all add: enqueued_def List.map_filter_simps)

context fifo
begin

lemma schedule_fifo:
  assumes "rep q xs" and "fresh_schedule enq deq fresh ops q xs"
    and "run_schedule enq deq ops q = (out, q')"
  shows "\<exists>ys. rep q' ys \<and> out @ ys = xs @ enqueued ops"
  using assms
proof (induction ops arbitrary: q xs out)
  case Nil
  then show ?case by simp
next
  case (Cons op ops)
  show ?case
  proof (cases op)
    case (Some x)
    with Cons.prems have "rep (enq x q) (xs @ [x])" by (auto intro: rep_enq)
    with Cons.prems Some Cons.IH [of "enq x q" "xs @ [x]" out] show ?thesis by simp
  next
    case None
    show ?thesis
    proof (cases xs)
      case Nil
      with Cons.prems(1) have "deq q = None" by (simp add: deq_empty)
      with Cons.prems None Cons.IH [of q xs out] show ?thesis by simp
    next
      case (Cons x xs')
      with Cons.prems(1) obtain q1 where q1: "deq q = Some (x, q1)" "rep q1 xs'"
        using deq_rep by blast
      with Cons.prems(2,3) None Cons obtain out1 where "out = x # out1"
        "run_schedule enq deq ops q1 = (out1, q')" "fresh_schedule enq deq fresh ops q1 xs'"
        by (auto split: prod.splits)
      with Cons.IH [of q1 xs' out1] q1 Cons None show ?thesis by auto
    qed
  qed
qed

text \<open>The output is that of the plain list queue on the represented contents.\<close>

lemma schedule_matches_list:
  assumes "rep q xs" and "fresh_schedule enq deq fresh ops q xs"
    and "run_schedule enq deq ops q = (out, q')"
  shows "\<exists>ys. rep q' ys \<and>
    run_schedule (\<lambda>x l. l @ [x]) (\<lambda>l. case l of [] \<Rightarrow> None | x # l' \<Rightarrow> Some (x, l')) ops xs
      = (out, ys)"
  using assms
proof (induction ops arbitrary: q xs out)
  case Nil
  then show ?case by simp
next
  case (Cons op ops)
  show ?case
  proof (cases op)
    case (Some x)
    with Cons.prems have "rep (enq x q) (xs @ [x])" by (auto intro: rep_enq)
    with Cons.prems Some Cons.IH [of "enq x q" "xs @ [x]" out] show ?thesis by simp
  next
    case None
    show ?thesis
    proof (cases xs)
      case Nil
      with Cons.prems(1) have "deq q = None" by (simp add: deq_empty)
      with Cons.prems None Nil Cons.IH [of q xs out] show ?thesis by simp
    next
      case (Cons x xs')
      with Cons.prems(1) obtain q1 where q1: "deq q = Some (x, q1)" "rep q1 xs'"
        using deq_rep by blast
      with Cons.prems(2,3) None Cons obtain out1 where "out = x # out1"
        "run_schedule enq deq ops q1 = (out1, q')" "fresh_schedule enq deq fresh ops q1 xs'"
        by (auto split: prod.splits)
      with Cons.IH [of q1 xs' out1] q1 Cons None show ?thesis by auto
    qed
  qed
qed

end

section \<open>The pointer queue\<close>

text \<open>
  A node is an action or job in memory: its payload and its \<open>next\<close> field. The
  memory maps addresses to nodes; a queue is its two end pointers in that memory.
\<close>

record 'a lnode =
  ln_val :: 'a
  ln_next :: "nat option"

type_synonym 'a memory = "nat \<rightharpoonup> 'a lnode"

record 'a ptr_queue =
  pq_mem :: "'a memory"
  pq_head :: "nat option"
  pq_tail :: "nat option"

definition set_next :: "nat \<Rightarrow> nat option \<Rightarrow> 'a memory \<Rightarrow> 'a memory" where
  "set_next a p m = m(a := map_option (\<lambda>n. n\<lparr>ln_next := p\<rparr>) (m a))"

text \<open>
  \<open>enqueue_locked\<close>: the new node's \<open>next\<close> is cleared; an empty queue gets it as head
  and tail, otherwise it is linked behind the tail.
\<close>

definition enqueue_locked :: "nat \<Rightarrow> 'a ptr_queue \<Rightarrow> 'a ptr_queue" where
  "enqueue_locked act q =
     (let q1 = q\<lparr>pq_mem := set_next act None (pq_mem q)\<rparr>
      in case pq_tail q1 of
           None \<Rightarrow> q1\<lparr>pq_head := Some act, pq_tail := Some act\<rparr>
         | Some t \<Rightarrow> q1\<lparr>pq_mem := set_next t (Some act) (pq_mem q1), pq_tail := Some act\<rparr>)"

text \<open>
  The pop of \<open>strim_controller_run\<close> (and of \<open>worker_main\<close>): take the head, advance it,
  and clear the tail when the queue ran empty. The load through a dangling head is a
  fault, the outer \<open>None\<close>.
\<close>

definition pop_action :: "'a ptr_queue \<Rightarrow> (nat \<times> 'a ptr_queue) option option" where
  "pop_action q =
     (case pq_head q of
        None \<Rightarrow> Some None
      | Some act \<Rightarrow>
          (case pq_mem q act of
             None \<Rightarrow> None
           | Some node \<Rightarrow>
               (let q1 = q\<lparr>pq_head := ln_next node\<rparr>
                in Some (Some (act, if pq_head q1 = None then q1\<lparr>pq_tail := None\<rparr> else q1)))))"

definition ptr_deq :: "'a ptr_queue \<Rightarrow> (nat \<times> 'a ptr_queue) option" where
  "ptr_deq q = (case pop_action q of None \<Rightarrow> None | Some r \<Rightarrow> r)"

text \<open>The addresses linked from \<open>p\<close>, as a list segment ending in \<open>NULL\<close>.\<close>

fun chain :: "'a memory \<Rightarrow> nat option \<Rightarrow> nat list \<Rightarrow> bool" where
  "chain m p [] \<longleftrightarrow> p = None"
| "chain m p (a # as) \<longleftrightarrow>
     p = Some a \<and> (case m a of None \<Rightarrow> False | Some n \<Rightarrow> chain m (ln_next n) as)"

definition pq_represents :: "'a ptr_queue \<Rightarrow> nat list \<Rightarrow> bool" where
  "pq_represents q as \<longleftrightarrow>
     chain (pq_mem q) (pq_head q) as \<and> distinct as \<and>
     pq_tail q = (if as = [] then None else Some (last as))"

lemma chain_set_next_other: "a \<notin> set as \<Longrightarrow> chain (set_next a v m) p as = chain m p as"
proof (induction as arbitrary: p)
  case (Cons b as)
  then show ?case by (auto simp: set_next_def split: option.splits)
qed simp

lemma chain_snoc:
  assumes "chain m p (as @ [t])" and "distinct (as @ [t])" and "b \<notin> set (as @ [t])"
    and "m b = Some nb" and "ln_next nb = None"
  shows "chain (set_next t (Some b) m) p (as @ [t, b])"
  using assms
proof (induction as arbitrary: p)
  case Nil
  then show ?case by (auto simp: set_next_def split: option.splits)
next
  case (Cons a as)
  then show ?case by (auto simp: set_next_def split: option.splits if_splits)
qed

lemma enqueue_locked_represents:
  assumes rep: "pq_represents q as" and new: "act \<notin> set as" and mem: "pq_mem q act \<noteq> None"
  shows "pq_represents (enqueue_locked act q) (as @ [act])"
proof (cases "as = []")
  case True
  with rep mem show ?thesis
    by (auto simp: pq_represents_def enqueue_locked_def set_next_def)
next
  case False
  let ?m = "set_next act None (pq_mem q)"
  from mem obtain nd where nd: "pq_mem q act = Some nd" by blast
  from False have split: "as = butlast as @ [last as]" by simp
  have "chain ?m (pq_head q) (butlast as @ [last as])"
    using rep new split by (simp add: pq_represents_def chain_set_next_other)
  then have "chain (set_next (last as) (Some act) ?m) (pq_head q) (butlast as @ [last as, act])"
    by (rule chain_snoc) (use rep new split nd in
      \<open>auto simp: pq_represents_def set_next_def\<close>)
  moreover have "butlast as @ [last as, act] = (butlast as @ [last as]) @ [act]"
    by simp
  moreover have "butlast as @ [last as] = as"
    using False by (rule append_butlast_last_id)
  ultimately show ?thesis
    using False rep new by (simp add: pq_represents_def enqueue_locked_def Let_def)
qed

lemma enqueue_locked_values:
  "map_option ln_val (pq_mem (enqueue_locked act q) a) = map_option ln_val (pq_mem q a)"
  by (auto simp: enqueue_locked_def set_next_def Let_def option.map_comp comp_def
      split: option.splits)

lemma pop_action_represents:
  assumes "pq_represents q (act # as)"
  shows "\<exists>q'. pop_action q = Some (Some (act, q')) \<and> pq_represents q' as \<and> pq_mem q' = pq_mem q"
proof -
  from assms obtain nd where nd: "pq_head q = Some act" "pq_mem q act = Some nd"
    "chain (pq_mem q) (ln_next nd) as"
    by (auto simp: pq_represents_def split: option.splits)
  then show ?thesis
    using assms
    by (cases as) (auto simp: pop_action_def pq_represents_def split: option.splits)
qed

lemma pop_action_empty: "pq_represents q [] \<Longrightarrow> pop_action q = Some None"
  by (simp add: pop_action_def pq_represents_def)

text \<open>
  As a \<open>fifo\<close>: a queue represents the addresses linked in it; a node may be enqueued
  when it is allocated and not linked already.
\<close>

definition pq_fresh :: "nat \<Rightarrow> 'a ptr_queue \<Rightarrow> nat list \<Rightarrow> bool" where
  "pq_fresh a q as \<longleftrightarrow> pq_mem q a \<noteq> None \<and> a \<notin> set as"

interpretation ptr_queue: fifo enqueue_locked ptr_deq pq_represents pq_fresh
proof unfold_locales
  fix q :: "'b ptr_queue" and x xs
  show "pq_represents q xs \<Longrightarrow> pq_fresh x q xs \<Longrightarrow>
      pq_represents (enqueue_locked x q) (xs @ [x])"
    by (simp add: pq_fresh_def enqueue_locked_represents)
  show "pq_represents q [] \<Longrightarrow> ptr_deq q = None"
    by (simp add: ptr_deq_def pop_action_empty)
  show "pq_represents q (x # xs) \<Longrightarrow> \<exists>q'. ptr_deq q = Some (x, q') \<and> pq_represents q' xs"
    using pop_action_represents [of q x xs] by (auto simp: ptr_deq_def)
qed

section \<open>The linked queue is a FIFO\<close>

text \<open>
  C13: The intrusive linked queue behaves as a list under any schedule of enqueues of allocated
  unlinked nodes and of pops: what the pops return, and what is left in the queue, are exactly
  what appending to and taking from a list would give, so nodes come out once each and in
  the order they went in; and no pop follows a dangling head pointer.
\<close>

theorem linked_queue_is_fifo:
  assumes "pq_represents q xs" and "fresh_schedule enqueue_locked ptr_deq pq_fresh ops q xs"
    and "run_schedule enqueue_locked ptr_deq ops q = (out, q')"
  shows "\<exists>ys. pq_represents q' ys \<and> out @ ys = xs @ enqueued ops \<and>
    run_schedule (\<lambda>x l. l @ [x]) (\<lambda>l. case l of [] \<Rightarrow> None | x # l' \<Rightarrow> Some (x, l')) ops xs = (out, ys) \<and>
    pop_action q' \<noteq> None"
proof -
  obtain ys where ys: "pq_represents q' ys"
    "run_schedule (\<lambda>x l. l @ [x]) (\<lambda>l. case l of [] \<Rightarrow> None | x # l' \<Rightarrow> Some (x, l')) ops xs = (out, ys)"
    using ptr_queue.schedule_matches_list [OF assms] by blast
  obtain zs where zs: "pq_represents q' zs" "out @ zs = xs @ enqueued ops"
    using ptr_queue.schedule_fifo [OF assms] by blast
  have chain_unique: "chain m p as \<Longrightarrow> chain m p bs \<Longrightarrow> as = bs" for m :: "'a memory" and p as bs
  proof (induction as arbitrary: p bs)
    case Nil
    then show ?case by (cases bs) auto
  next
    case (Cons a as)
    from Cons.prems(1) obtain n where n: "p = Some a" "m a = Some n" "chain m (ln_next n) as"
      by (auto split: option.splits)
    with Cons.prems(2) obtain bs' where "bs = a # bs'" "chain m (ln_next n) bs'"
      by (cases bs) auto
    with Cons.IH n(3) show ?case by blast
  qed
  have "ys = zs" using ys(1) zs(1) chain_unique by (auto simp: pq_represents_def)
  moreover have "pop_action q' \<noteq> None"
    using ys(1) pop_action_empty [of q'] pop_action_represents [of q'] by (cases ys) auto
  ultimately show ?thesis using ys zs by blast
qed

text \<open>Two allocated nodes and an empty queue.\<close>

definition demo_queue :: "nat ptr_queue" where
  "demo_queue = \<lparr>pq_mem = [1 \<mapsto> \<lparr>ln_val = 10, ln_next = None\<rparr>, 2 \<mapsto> \<lparr>ln_val = 20, ln_next = None\<rparr>],
     pq_head = None, pq_tail = None\<rparr>"

theorem linked_queue_is_fifo_witness:
  "fst (run_schedule enqueue_locked ptr_deq [Some 1, Some 2, None, None, None] demo_queue) = [1, 2]"
proof -
  let ?ops = "[Some 1, Some 2, None, None, None]"
  have rep: "pq_represents demo_queue []" by (simp add: pq_represents_def demo_queue_def)
  have fresh: "fresh_schedule enqueue_locked ptr_deq pq_fresh ?ops demo_queue []"
    by (simp add: demo_queue_def pq_fresh_def enqueue_locked_def set_next_def ptr_deq_def
        pop_action_def Let_def)
  obtain out q' where run: "run_schedule enqueue_locked ptr_deq ?ops demo_queue = (out, q')"
    by (cases "run_schedule enqueue_locked ptr_deq ?ops demo_queue")
  obtain ys where "run_schedule (\<lambda>x l. l @ [x])
      (\<lambda>l. case l of [] \<Rightarrow> None | x # l' \<Rightarrow> Some (x, l')) ?ops [] = (out, ys)"
    using linked_queue_is_fifo [OF rep fresh run] by blast
  then show ?thesis unfolding run by simp
qed

end
