(* ===== verification/Duration.thy ===== *)
theory Duration
  imports Complex_Main Prelude
begin

text \<open>
  Go-style durations in \<open>main.c\<close>: \<open>parse_go_duration\<close>, \<open>bind_duration_ms\<close> and the
  formatter \<open>go_duration_ms\<close> with its two digit writers.

  The parser accumulates in C \<open>double\<close>. A double operation is the exact operation
  on rationals followed by rounding, so the parser takes the rounding function
  \<open>rnd\<close> as an argument; what the theorems use of it is that integers of magnitude
  at most \<open>2^53\<close> are representable (\<open>rounding\<close>). The formatter works on
  \<open>uint64_t\<close> and writes into a 48-byte buffer from its end; the model is the text
  written so far, to which each write prepends, and its length counts the buffer.
\<close>

section \<open>Characters\<close>

definition is_digit :: "char \<Rightarrow> bool" where
  "is_digit c \<longleftrightarrow> CHR ''0'' = c \<or> CHR ''1'' = c \<or> CHR ''2'' = c \<or> CHR ''3'' = c \<or>
     CHR ''4'' = c \<or> CHR ''5'' = c \<or> CHR ''6'' = c \<or> CHR ''7'' = c \<or> CHR ''8'' = c \<or>
     CHR ''9'' = c"

definition digit_val :: "char \<Rightarrow> nat" where
  "digit_val c = of_char c - 48"

definition digit_char :: "nat \<Rightarrow> char" where
  "digit_char d = char_of (48 + d)"

section \<open>Parsing\<close>

type_synonym dbl = rat

text \<open>
  What is assumed of the rounding of a \<open>double\<close>: it is monotone and small integers
  are exact.
\<close>

definition rounding :: "(dbl \<Rightarrow> dbl) \<Rightarrow> bool" where
  "rounding rnd \<longleftrightarrow>
     mono rnd \<and> (\<forall>n::int. \<bar>n\<bar> \<le> 2 ^ 53 \<longrightarrow> rnd (of_int n) = of_int n)"

text \<open>The two digit loops; each returns the value, the digit count and the rest.\<close>

fun int_digits :: "(dbl \<Rightarrow> dbl) \<Rightarrow> string \<Rightarrow> dbl \<Rightarrow> nat \<Rightarrow> dbl \<times> nat \<times> string" where
  "int_digits rnd [] value digits = (value, digits, [])"
| "int_digits rnd (c # p) value digits =
     (if is_digit c
      then int_digits rnd p (rnd (rnd (value * 10) + of_nat (digit_val c))) (Suc digits)
      else (value, digits, c # p))"

fun frac_digits :: "(dbl \<Rightarrow> dbl) \<Rightarrow> string \<Rightarrow> dbl \<Rightarrow> dbl \<Rightarrow> nat \<Rightarrow> dbl \<times> nat \<times> string" where
  "frac_digits rnd [] value fr digits = (value, digits, [])"
| "frac_digits rnd (c # p) value fr digits =
     (if is_digit c
      then frac_digits rnd p (rnd (value + rnd (of_nat (digit_val c) * fr)))
             (rnd (fr * rnd (1 / 10))) (Suc digits)
      else (value, digits, c # p))"

definition scan_number :: "(dbl \<Rightarrow> dbl) \<Rightarrow> string \<Rightarrow> dbl \<times> nat \<times> string" where
  "scan_number rnd p =
     (case int_digits rnd p 0 0 of
        (value, digits, rest) \<Rightarrow>
          (case rest of
             c # rest' \<Rightarrow>
               if c = CHR ''.'' then frac_digits rnd rest' value (rnd (1 / 10)) digits
               else (value, digits, rest)
           | [] \<Rightarrow> (value, digits, rest)))"

text \<open>The unit at \<open>p\<close>, tested in the source's order: nanoseconds per unit and the rest.\<close>

fun scan_unit :: "string \<Rightarrow> (int \<times> string) option" where
  "scan_unit p =
     (if take 2 p = ''ns'' then Some (1, drop 2 p)
      else if take 2 p = ''us'' then Some (1000, drop 2 p)
      else if take 3 p = [char_of (194::nat), char_of (181::nat), CHR ''s'']
        then Some (1000, drop 3 p)
      else if take 2 p = ''ms'' then Some (1000000, drop 2 p)
      else if take 1 p = ''s'' then Some (1000000000, drop 1 p)
      else if take 1 p = ''m'' then Some (60000000000, drop 1 p)
      else if take 1 p = ''h'' then Some (3600000000000, drop 1 p)
      else None)"

declare scan_unit.simps [simp del]

lemma int_digits_length: "int_digits rnd p v d = (v', d', p') \<Longrightarrow> length p' \<le> length p"
proof (induction p arbitrary: v d)
  case (Cons c p)
  then show ?case by (fastforce split: if_splits)
qed simp

lemma frac_digits_length: "frac_digits rnd p v f d = (v', d', p') \<Longrightarrow> length p' \<le> length p"
proof (induction p arbitrary: v f d)
  case (Cons c p)
  then show ?case by (fastforce split: if_splits)
qed simp

lemma scan_number_length: "scan_number rnd p = (v, d, p') \<Longrightarrow> length p' \<le> length p"
  by (auto simp: scan_number_def dest!: int_digits_length frac_digits_length
      split: prod.splits list.splits if_splits)

lemma scan_unit_length: "scan_unit p = Some (u, p') \<Longrightarrow> length p' < length p"
  by (cases p) (auto simp: scan_unit.simps split: if_splits)

text \<open>The main loop: number, unit, until the end of the string.\<close>

function scan_parts :: "(dbl \<Rightarrow> dbl) \<Rightarrow> string \<Rightarrow> dbl \<Rightarrow> dbl option" where
  "scan_parts rnd p total_ns =
     (case scan_number rnd p of
        (value, digits, p1) \<Rightarrow>
          if digits = 0 then None
          else case scan_unit p1 of
                 None \<Rightarrow> None
               | Some (unit, p2) \<Rightarrow>
                   (let total' = rnd (total_ns + rnd (value * of_int unit))
                    in if p2 = [] then Some total' else scan_parts rnd p2 total'))"
  by pat_completeness auto
termination
  by (relation "measure (\<lambda>(rnd, p, t). length p)")
    (auto dest!: scan_number_length [OF sym] scan_unit_length)

declare scan_parts.simps [simp del]

abbreviation (input) INT64_MAX :: int where "INT64_MAX \<equiv> 9223372036854775807"
abbreviation (input) INT64_MIN :: int where "INT64_MIN \<equiv> - 9223372036854775808"

text \<open>
  The value of an \<open>int64_t\<close> result: two's complement, which is also what the cast of an
  out-of-range \<open>2^63\<close> and signed overflow give on the machines this runs on (C leaves both
  undefined). \<open>c_quot\<close> is \<open>/\<close>, which rounds towards zero.
\<close>

definition i64 :: "int \<Rightarrow> int" where
  "i64 x = (x + 2 ^ 63) mod 2 ^ 64 - 2 ^ 63"

definition c_quot :: "int \<Rightarrow> int \<Rightarrow> int" where
  "c_quot a b = sgn a * (\<bar>a\<bar> div b)"

definition trunc_dbl :: "dbl \<Rightarrow> int" where
  "trunc_dbl x = (if x \<ge> 0 then \<lfloor>x\<rfloor> else - \<lfloor>- x\<rfloor>)"

definition parse_go_duration :: "(dbl \<Rightarrow> dbl) \<Rightarrow> c_str \<Rightarrow> int option" where
  "parse_go_duration rnd s =
     (case s of
        None \<Rightarrow> None
      | Some str \<Rightarrow>
          (let neg = (take 1 str = ''-'');
               p = (if take 1 str = ''+'' \<or> take 1 str = ''-'' then drop 1 str else str)
           in if p = [] then None
              else case scan_parts rnd p 0 of
                     None \<Rightarrow> None
                   | Some total_ns \<Rightarrow>
                       (let t = (if neg then - total_ns else total_ns)
                        in if t > rnd (of_int INT64_MAX) \<or> t < rnd (of_int INT64_MIN) then None
                           else Some (i64 (trunc_dbl t)))))"

definition ns_to_ms :: "int \<Rightarrow> int" where
  "ns_to_ms ns =
     (if ns < 0 then i64 (- c_quot (i64 (i64 (- ns) + 500000)) 1000000)
      else c_quot (i64 (ns + 500000)) 1000000)"

definition bind_duration_ms :: "(dbl \<Rightarrow> dbl) \<Rightarrow> string \<Rightarrow> int option" where
  "bind_duration_ms rnd raw = map_option ns_to_ms (parse_go_duration rnd (Some raw))"

section \<open>Formatting\<close>

text \<open>
  \<open>go_duration_frac\<close>: \<open>prec\<close> decimals of \<open>v\<close>, trailing zeros dropped, prepended to
  the text; returns the text and the remaining integer part.
\<close>

fun frac_loop :: "nat \<Rightarrow> nat \<Rightarrow> bool \<Rightarrow> string \<Rightarrow> string \<times> nat \<times> bool" where
  "frac_loop 0 v print txt = (txt, v, print)"
| "frac_loop (Suc n) v print txt =
     (let digit = v mod 10;
          print' = (print \<or> digit \<noteq> 0)
      in frac_loop n (v div 10) print' (if print' then digit_char digit # txt else txt))"

definition go_duration_frac :: "string \<Rightarrow> nat \<Rightarrow> nat \<Rightarrow> string \<times> nat" where
  "go_duration_frac txt v prec =
     (case frac_loop prec v False txt of
        (txt', v', print) \<Rightarrow> (if print then CHR ''.'' # txt' else txt', v'))"

fun int_loop :: "nat \<Rightarrow> string \<Rightarrow> string" where
  "int_loop v txt = (if v = 0 then txt else int_loop (v div 10) (digit_char (v mod 10) # txt))"

declare int_loop.simps [simp del]

definition go_duration_int :: "string \<Rightarrow> nat \<Rightarrow> string" where
  "go_duration_int txt v = (if v = 0 then digit_char 0 # txt else int_loop v txt)"

text \<open>The unsigned magnitude in nanoseconds; the product wraps at 64 bits.\<close>

definition duration_magnitude_ns :: "int \<Rightarrow> nat" where
  "duration_magnitude_ns ms = (nat \<bar>ms\<bar> * 1000000) mod 2 ^ 64"

definition duration_text :: "int \<Rightarrow> string" where
  "duration_text ms =
     (let u = duration_magnitude_ns ms;
          body =
            (if u < 1000000000 then
               (let p = (if u < 1000 then (0, ''ns'')
                         else if u < 1000000
                         then (3, [char_of (194::nat), char_of (181::nat), CHR ''s''])
                         else (6, ''ms''))
                in case go_duration_frac (snd p) u (fst p) of (t, u') \<Rightarrow> go_duration_int t u')
             else
               (case go_duration_frac ''s'' u 9 of
                  (t, u1) \<Rightarrow>
                    (let t2 = go_duration_int t (u1 mod 60); u2 = u1 div 60
                     in if u2 > 0 then
                          (let t3 = go_duration_int (CHR ''m'' # t2) (u2 mod 60); u3 = u2 div 60
                           in if u3 > 0 then go_duration_int (CHR ''h'' # t3) u3 else t3)
                        else t2)))
      in if ms < 0 then CHR ''-'' # body else body)"

text \<open>The text copied to the caller's buffer of \<open>cap\<close> bytes (NUL included).\<close>

definition go_duration_ms :: "int \<Rightarrow> nat \<Rightarrow> string" where
  "go_duration_ms ms cap =
     (if cap = 0 then []
      else if ms = 0 then take (cap - 1) ''0s''
      else if length (duration_text ms) < cap then duration_text ms
      else take (cap - 1) ''0s'')"

section \<open>Decimal numbers\<close>

definition decimal :: "nat \<Rightarrow> string" where
  "decimal v = go_duration_int [] v"

lemma int_loop_append: "int_loop v acc = int_loop v [] @ acc"
proof (induction v arbitrary: acc rule: less_induct)
  case (less v)
  show ?case
  proof (cases "v = 0")
    case True
    then show ?thesis by (simp add: int_loop.simps)
  next
    case False
    then have "v div 10 < v" by simp
    then have "int_loop (v div 10) s = int_loop (v div 10) [] @ s" for s by (rule less)
    from this [of "digit_char (v mod 10) # acc"] this [of "[digit_char (v mod 10)]"] False
    show ?thesis by (simp add: int_loop.simps [of v])
  qed
qed

lemma int_loop_snoc: "v \<noteq> 0 \<Longrightarrow> int_loop v [] = int_loop (v div 10) [] @ [digit_char (v mod 10)]"
  using int_loop_append [of "v div 10" "[digit_char (v mod 10)]"]
  by (simp add: int_loop.simps [of v])

lemma go_duration_int_append: "go_duration_int acc v = decimal v @ acc"
  using int_loop_append [of v acc] by (simp add: go_duration_int_def decimal_def)

lemma less_ten_cases: "(d::nat) < 10 \<Longrightarrow> d \<in> {0, 1, 2, 3, 4, 5, 6, 7, 8, 9}"
  by auto

lemma digit_char_digit: "d < 10 \<Longrightarrow> is_digit (digit_char d) \<and> digit_val (digit_char d) = d"
  by (drule less_ten_cases) (auto simp: is_digit_def digit_char_def digit_val_def char_of_def bit_0)

lemma decimal_digits: "\<forall>c \<in> set (decimal v). is_digit c"
proof -
  have "\<forall>c \<in> set (int_loop v []). is_digit c" for v
  proof (induction v rule: less_induct)
    case (less v)
    show ?case
    proof (cases "v = 0")
      case True
      then show ?thesis by (simp add: int_loop.simps)
    next
      case False
      with less [of "v div 10"] digit_char_digit [of "v mod 10"] show ?thesis
        by (simp add: int_loop_snoc)
    qed
  qed
  moreover have "is_digit (digit_char 0)" using digit_char_digit [of 0] by simp
  ultimately show ?thesis by (simp add: decimal_def go_duration_int_def)
qed

lemma decimal_nonempty: "decimal v \<noteq> []"
  by (cases "v = 0") (auto simp: decimal_def go_duration_int_def int_loop_snoc)

section \<open>Reading back a decimal number\<close>

lemma rounding_nat: "rounding rnd \<Longrightarrow> n \<le> 2 ^ 53 \<Longrightarrow> rnd (of_nat n) = of_nat n"
proof -
  assume "rounding rnd" and n: "n \<le> 2 ^ 53"
  moreover have "\<bar>int n\<bar> \<le> 2 ^ 53"
    using n by (simp add: of_nat_le_iff [of n "2 ^ 53", where 'a = int, symmetric])
  ultimately have "rnd (of_int (int n)) = of_int (int n)" unfolding rounding_def by blast
  then show ?thesis by simp
qed

lemma int_digits_int_loop:
  assumes "rounding rnd" and "v \<le> 2 ^ 53"
  shows "int_digits rnd (int_loop v [] @ rest) 0 0 =
    int_digits rnd rest (of_nat v) (length (int_loop v []))"
  using assms(2)
proof (induction v arbitrary: rest rule: less_induct)
  case (less v)
  show ?case
  proof (cases "v = 0")
    case True
    then show ?thesis by (simp add: int_loop.simps)
  next
    case False
    let ?q = "v div 10" and ?d = "v mod 10"
    have "?q * 10 \<le> 2 ^ 53" using less.prems by linarith
    then have "rnd (of_nat ?q * 10) = of_nat (?q * 10)"
      using rounding_nat [OF assms(1), of "?q * 10"] by simp
    moreover have "rnd (of_nat (?q * 10) + of_nat ?d) = of_nat v"
      using rounding_nat [OF assms(1), of v] less.prems
      by (simp only: of_nat_add [symmetric]) simp
    moreover have "int_digits rnd (int_loop ?q [] @ digit_char ?d # rest) 0 0 =
        int_digits rnd (digit_char ?d # rest) (of_nat ?q) (length (int_loop ?q []))"
      using False less.prems by (intro less.IH) auto
    ultimately show ?thesis
      using False digit_char_digit [of ?d] by (simp add: int_loop_snoc)
  qed
qed

lemma int_digits_decimal:
  assumes "rounding rnd" and "v \<le> 2 ^ 53"
  shows "int_digits rnd (decimal v @ rest) 0 0 =
    int_digits rnd rest (of_nat v) (length (decimal v))"
proof (cases "v = 0")
  case True
  have "rnd 0 = 0" using rounding_nat [OF assms(1), of 0] by simp
  with True digit_char_digit [of 0] show ?thesis
    by (simp add: decimal_def go_duration_int_def)
next
  case False
  with int_digits_int_loop [OF assms] show ?thesis
    by (simp add: decimal_def go_duration_int_def)
qed

lemma scan_number_decimal:
  assumes "rounding rnd" and "v \<le> 2 ^ 53" and "\<not> is_digit c" and "c \<noteq> CHR ''.''"
  shows "scan_number rnd (decimal v @ c # rest) = (of_nat v, length (decimal v), c # rest)"
  using assms by (simp add: scan_number_def int_digits_decimal)

text \<open>One \<open>number unit\<close> part of a duration.\<close>

lemma scan_parts_decimal:
  assumes "rounding rnd" and "v \<le> 2 ^ 53" and "\<not> is_digit c" and "c \<noteq> CHR ''.''"
    and "scan_unit (c # rest) = Some (int u, p2)" and "t + v * u \<le> 2 ^ 53"
  shows "scan_parts rnd (decimal v @ c # rest) (of_nat t) =
    (if p2 = [] then Some (of_nat (t + v * u)) else scan_parts rnd p2 (of_nat (t + v * u)))"
proof -
  have "rnd (of_nat v * of_nat u) = of_nat (v * u)"
    using rounding_nat [OF assms(1), of "v * u"] assms(6) by simp
  moreover have "rnd (of_nat t + of_nat (v * u)) = of_nat (t + v * u)"
    using rounding_nat [OF assms(1), of "t + v * u"] assms(6) by (simp del: of_nat_mult)
  ultimately show ?thesis
    using assms(5) scan_number_decimal [OF assms(1-4), of rest] decimal_nonempty [of v]
    by (simp add: scan_parts.simps [of rnd "decimal v @ c # rest"] Let_def del: of_nat_mult)
qed

section \<open>Whole seconds\<close>

lemma frac_loop_zeros: "frac_loop n (k * 10 ^ n) False txt = (txt, k, False)"
  by (induction n arbitrary: k) (simp_all add: Let_def mult.left_commute [of k 10] mult.assoc)

definition hms :: "nat \<Rightarrow> string" where
  "hms k =
     (if k \<ge> 3600 then decimal (k div 3600) @ ''h'' else []) @
     (if k \<ge> 60 then decimal (k div 60 mod 60) @ ''m'' else []) @
     decimal (k mod 60) @ ''s''"

lemma duration_text_seconds:
  assumes "0 < k" and "k * 1000000000 < 2 ^ 64"
  shows "duration_text (1000 * int k) = hms k"
proof -
  have u: "duration_magnitude_ns (1000 * int k) = k * 1000000000"
    using assms by (simp add: duration_magnitude_ns_def nat_mult_distrib mult.commute abs_mult)
  have frac9: "go_duration_frac acc (k * 1000000000) 9 = (acc, k)" for acc
    using frac_loop_zeros [of 9 k acc] by (simp add: go_duration_frac_def)
  have big: "\<not> k * 1000000000 < 1000000000" using assms(1) by simp
  have "k div 60 > 0 \<longleftrightarrow> k \<ge> 60" "k div 60 div 60 > 0 \<longleftrightarrow> k \<ge> 3600"
    "k div 60 div 60 = k div 3600"
    by (auto simp: div_greater_zero_iff div_mult2_eq [symmetric])
  then show ?thesis
    using big by (simp add: duration_text_def u frac9 go_duration_int_append hms_def Let_def)
qed

lemma scan_units:
  "scan_unit (CHR ''s'' # []) = Some (int 1000000000, [])"
  "is_digit c \<Longrightarrow> scan_unit (CHR ''m'' # c # p) = Some (int 60000000000, c # p)"
  "is_digit c \<Longrightarrow> scan_unit (CHR ''h'' # c # p) = Some (int 3600000000000, c # p)"
  by (auto simp: scan_unit.simps is_digit_def char_of_def)

lemma not_digit_units:
  "\<not> is_digit (CHR ''s'')" "\<not> is_digit (CHR ''m'')" "\<not> is_digit (CHR ''h'')"
  by (simp_all add: is_digit_def)

lemma decimal_Cons: obtains c p where "decimal v = c # p" "is_digit c"
  using decimal_nonempty [of v] decimal_digits [of v] by (cases "decimal v") auto

lemma scan_seconds:
  assumes "rounding rnd" and "t + s * 1000000000 \<le> 2 ^ 53"
  shows "scan_parts rnd (decimal s @ ''s'') (of_nat t) = Some (of_nat (t + s * 1000000000))"
  using scan_parts_decimal [OF assms(1), of s "CHR ''s''" "[]" 1000000000 "[]" t] assms(2)
    scan_units(1) not_digit_units(1) by simp

lemma scan_minutes:
  assumes "rounding rnd" and "t + m * 60000000000 + s * 1000000000 \<le> 2 ^ 53"
  shows "scan_parts rnd (decimal m @ ''m'' @ decimal s @ ''s'') (of_nat t) =
    Some (of_nat (t + m * 60000000000 + s * 1000000000))"
proof -
  obtain c p where cp: "decimal s = c # p" "is_digit c" by (rule decimal_Cons)
  have "scan_parts rnd (decimal m @ CHR ''m'' # decimal s @ ''s'') (of_nat t) =
      scan_parts rnd (decimal s @ ''s'') (of_nat (t + m * 60000000000))"
    using scan_parts_decimal [OF assms(1), of m "CHR ''m''" "decimal s @ ''s''" 60000000000
        "decimal s @ ''s''" t] assms(2) scan_units(2) [OF cp(2)] cp not_digit_units by simp
  with scan_seconds [OF assms] show ?thesis by simp
qed

lemma scan_hms:
  assumes "rounding rnd" and "k * 1000000000 \<le> 2 ^ 53"
  shows "scan_parts rnd (hms k) 0 = Some (of_nat (k * 1000000000))"
proof -
  have k: "k = 3600 * (k div 3600) + 60 * (k div 60 mod 60) + k mod 60"
  proof -
    have "k = 60 * (k div 60) + k mod 60" by simp
    moreover have "k div 60 = 60 * (k div 60 div 60) + k div 60 mod 60" by simp
    moreover have "k div 60 div 60 = k div 3600" by (simp add: div_mult2_eq [symmetric])
    ultimately show ?thesis by linarith
  qed
  show ?thesis
  proof (cases "k \<ge> 3600")
    case True
    let ?h = "k div 3600" and ?ms = "decimal (k div 60 mod 60) @ ''m'' @ decimal (k mod 60) @ ''s''"
    obtain c p where cp: "decimal (k div 60 mod 60) = c # p" "is_digit c" by (rule decimal_Cons)
    have le: "?h * 3600000000000 + (k div 60 mod 60) * 60000000000 + (k mod 60) * 1000000000
        = k * 1000000000" using k by linarith
    have "scan_parts rnd (decimal ?h @ CHR ''h'' # ?ms) (of_nat 0) =
        scan_parts rnd ?ms (of_nat (?h * 3600000000000))"
      using scan_parts_decimal [OF assms(1), of ?h "CHR ''h''" ?ms 3600000000000 ?ms 0]
        assms(2) le scan_units(3) [OF cp(2)] cp not_digit_units by simp
    moreover have "scan_parts rnd ?ms (of_nat (?h * 3600000000000)) =
        Some (of_nat (k * 1000000000))"
      using scan_minutes [OF assms(1), of "?h * 3600000000000" "k div 60 mod 60" "k mod 60"]
        assms(2) le by simp
    ultimately show ?thesis using True by (simp add: hms_def)
  next
    case False
    show ?thesis
    proof (cases "k \<ge> 60")
      case True
      have "k div 60 mod 60 * 60000000000 + k mod 60 * 1000000000 = k * 1000000000"
        using k div_less [of k 3600] False by linarith
      with False True scan_minutes [OF assms(1), of 0 "k div 60 mod 60" "k mod 60"] assms(2)
      show ?thesis by (simp add: hms_def)
    next
      case False
      then show ?thesis
        using scan_seconds [OF assms(1), of 0 k] assms(2) by (simp add: hms_def)
    qed
  qed
qed

lemma hms_head: "hms k \<noteq> [] \<and> is_digit (hd (hms k))"
proof -
  have "is_digit (hd (decimal v))" for v
    using decimal_nonempty [of v] decimal_digits [of v] by simp
  then show ?thesis by (simp add: hms_def decimal_nonempty hd_append)
qed

lemma i64_id: "- (2 ^ 63) \<le> x \<Longrightarrow> x < 2 ^ 63 \<Longrightarrow> i64 x = x"
  by (simp add: i64_def)

lemma ns_to_ms_whole: "n \<le> 2 ^ 53 \<Longrightarrow> ns_to_ms (int n) = (int n + 500000) div 1000000"
  by (simp add: ns_to_ms_def i64_id c_quot_def)

text \<open>The rounding addition overflows for a duration near the \<open>int64_t\<close> limit: 292 years become a negative time.\<close>

lemma rounding_overflows: "ns_to_ms INT64_MAX < 0"
  by (simp add: ns_to_ms_def i64_def c_quot_def)

lemma rounding_limits:
  assumes "rounding rnd" and "n \<le> 2 ^ 53"
  shows "\<not> of_nat n > rnd (of_int INT64_MAX)" and "\<not> of_nat n < rnd (of_int INT64_MIN)"
proof -
  have mono: "mono rnd" and exact: "\<And>m::int. \<bar>m\<bar> \<le> 2 ^ 53 \<Longrightarrow> rnd (of_int m) = of_int m"
    using assms(1) unfolding rounding_def by blast+
  have "rnd (of_int (2 ^ 53)) \<le> rnd (of_int INT64_MAX)" by (rule monoD [OF mono]) simp
  moreover have "rnd (of_int (2 ^ 53)) = of_int (2 ^ 53)" by (rule exact) simp
  moreover have "(of_nat n :: dbl) \<le> of_nat (2 ^ 53)" using assms(2) by (simp only: of_nat_le_iff)
  ultimately show "\<not> of_nat n > rnd (of_int INT64_MAX)" by simp
  have "rnd (of_int INT64_MIN) \<le> rnd (of_int 0)" by (rule monoD [OF mono]) simp
  moreover have "rnd (of_int 0) = of_int 0" by (rule exact) simp
  ultimately show "\<not> of_nat n < rnd (of_int INT64_MIN)" by (simp add: order.trans)
qed

text \<open>
  C17: a positive whole number of seconds up to \<open>2^53\<close> nanoseconds (104 days) that the
  controller prints in Go's notation (\<open>1h2m3s\<close>) is read back by its own duration parser as the
  same number of milliseconds, for every double rounding that is exact on integers up to \<open>2^53\<close>.
\<close>

theorem duration_seconds_roundtrip:
  assumes "rounding rnd" and "0 < k" and "k * 1000000000 \<le> 2 ^ 53"
  shows "bind_duration_ms rnd (duration_text (1000 * int k)) = Some (1000 * int k)"
proof -
  have printed: "duration_text (1000 * int k) = hms k"
    using assms by (intro duration_text_seconds) auto
  have "take 1 (hms k) \<noteq> ''+''" "take 1 (hms k) \<noteq> ''-''"
    using hms_head [of k] by (cases "hms k"; auto simp: is_digit_def)+
  moreover have "i64 (int (k * 1000000000)) = int (k * 1000000000)"
    using assms(3) by (intro i64_id) simp_all
  ultimately have "parse_go_duration rnd (Some (hms k)) = Some (int (k * 1000000000))"
    using hms_head [of k] scan_hms [OF assms(1,3)] rounding_limits [OF assms(1,3)]
    by (simp add: parse_go_duration_def trunc_dbl_def Let_def del: of_nat_mult)
  then show ?thesis
    using ns_to_ms_whole [OF assms(3)] by (simp add: bind_duration_ms_def printed)
qed

theorem duration_seconds_roundtrip_witness:
  "rounding (\<lambda>x. x) \<and> bind_duration_ms (\<lambda>x. x) (duration_text (1000 * int 90)) = Some 90000"
proof -
  have "rounding (\<lambda>x. x)" by (simp add: rounding_def mono_def)
  then show ?thesis using duration_seconds_roundtrip [of "\<lambda>x. x" 90] by simp
qed

end
