(* ===== verification/Wire.thy ===== *)
theory Wire
  imports Prelude
begin

text \<open>
  The wire enumerations of \<open>controller.h\<close> and the string tables of
  \<open>core/controller.c\<close>. The locale \<open>enum_table\<close> states what a table has to satisfy
  to be a codec; it is interpreted on each of the six tables of the source.
\<close>

section \<open>Enumerations\<close>

abbreviation (input) STRIM_PATH_UNKNOWN :: c_enum where "STRIM_PATH_UNKNOWN \<equiv> 0"
abbreviation (input) STRIM_PATH_READY :: c_enum where "STRIM_PATH_READY \<equiv> 1"
abbreviation (input) STRIM_PATH_NOT_READY :: c_enum where "STRIM_PATH_NOT_READY \<equiv> 2"
abbreviation (input) STRIM_PATH_STATUS_COUNT :: nat where "STRIM_PATH_STATUS_COUNT \<equiv> 3"

abbreviation (input) STRIM_STAGE_STOPPED :: c_enum where "STRIM_STAGE_STOPPED \<equiv> 0"
abbreviation (input) STRIM_STAGE_RUNNING :: c_enum where "STRIM_STAGE_RUNNING \<equiv> 1"
abbreviation (input) STRIM_STAGE_NO_TARGET :: c_enum where "STRIM_STAGE_NO_TARGET \<equiv> 2"
abbreviation (input) STRIM_STAGE_STATE_COUNT :: nat where "STRIM_STAGE_STATE_COUNT \<equiv> 3"

abbreviation (input) STRIM_PATH_INGRESS0 :: c_enum where "STRIM_PATH_INGRESS0 \<equiv> 0"
abbreviation (input) STRIM_PATH_NORMALIZED :: c_enum where "STRIM_PATH_NORMALIZED \<equiv> 1"
abbreviation (input) STRIM_PATH_NAME_COUNT :: nat where "STRIM_PATH_NAME_COUNT \<equiv> 2"

abbreviation (input) STRIM_STAGE_MEDIA_MTX :: c_enum where "STRIM_STAGE_MEDIA_MTX \<equiv> 0"
abbreviation (input) STRIM_STAGE_NORMALIZE :: c_enum where "STRIM_STAGE_NORMALIZE \<equiv> 1"
abbreviation (input) STRIM_STAGE_SCALE_AND_EGRESS :: c_enum where
  "STRIM_STAGE_SCALE_AND_EGRESS \<equiv> 2"
abbreviation (input) STRIM_STAGE_SINGLE_STAGE_EGRESS :: c_enum where
  "STRIM_STAGE_SINGLE_STAGE_EGRESS \<equiv> 3"
abbreviation (input) STRIM_STAGE_NAME_COUNT :: nat where "STRIM_STAGE_NAME_COUNT \<equiv> 4"

abbreviation (input) STRIM_COMPONENT_EGRESS :: c_enum where "STRIM_COMPONENT_EGRESS \<equiv> 0"
abbreviation (input) STRIM_COMPONENT_COUNT :: nat where "STRIM_COMPONENT_COUNT \<equiv> 1"

abbreviation (input) STRIM_ACTION_START :: c_enum where "STRIM_ACTION_START \<equiv> 0"
abbreviation (input) STRIM_ACTION_STOP :: c_enum where "STRIM_ACTION_STOP \<equiv> 1"
abbreviation (input) STRIM_ACTION_COUNT :: nat where "STRIM_ACTION_COUNT \<equiv> 2"

section \<open>String tables\<close>

definition k_path_status_strs :: "string list" where
  "k_path_status_strs = [''unknown'', ''ready'', ''not-ready'']"

definition k_stage_state_strs :: "string list" where
  "k_stage_state_strs = [''stopped'', ''running'', '''']"

definition k_path_name_strs :: "string list" where
  "k_path_name_strs = [''ingress0'', ''normalized'']"

definition k_stage_name_strs :: "string list" where
  "k_stage_name_strs =
     [''mediamtx'', ''normalize'', ''scale_and_egress'', ''single_stage_egress'']"

definition k_control_component_strs :: "string list" where
  "k_control_component_strs = [''egress'']"

definition k_control_action_strs :: "string list" where
  "k_control_action_strs = [''start'', ''stop'']"

section \<open>Lookups\<close>

text \<open>The loop of \<open>enum_from_string\<close>: the first index whose entry equals \<open>s\<close>, else \<open>-1\<close>.\<close>

fun enum_scan :: "string \<Rightarrow> nat \<Rightarrow> string list \<Rightarrow> int" where
  "enum_scan s i [] = -1"
| "enum_scan s i (t # ts) = (if s = t then int i else enum_scan s (Suc i) ts)"

definition enum_from_string :: "c_str \<Rightarrow> string list \<Rightarrow> int" where
  "enum_from_string s strs = (case s of None \<Rightarrow> -1 | Some str \<Rightarrow> enum_scan str 0 strs)"

definition enum_to_string :: "int \<Rightarrow> string list \<Rightarrow> c_str" where
  "enum_to_string v strs =
     (if as_unsigned v \<ge> length strs then None else Some (strs ! as_unsigned v))"

text \<open>
  The shared body of the six \<open>strim_*_from_string\<close> functions. \<open>out\<close> is the
  out-parameter: \<open>None\<close> is \<open>NULL\<close>, \<open>Some old\<close> a caller variable holding \<open>old\<close>.
  The result is the return code and the variable afterwards.
\<close>

definition from_string_into :: "string list \<Rightarrow> c_str \<Rightarrow> int option \<Rightarrow> int \<times> int option" where
  "from_string_into strs s out =
     (let v = enum_from_string s strs
      in if v < 0 \<or> out = None then (-1, out) else (0, Some v))"

definition strim_path_status_from_string :: "c_str \<Rightarrow> int option \<Rightarrow> int \<times> int option" where
  "strim_path_status_from_string = from_string_into k_path_status_strs"

definition strim_path_status_to_string :: "c_enum \<Rightarrow> c_str" where
  "strim_path_status_to_string v = enum_to_string v k_path_status_strs"

definition strim_stage_state_from_string :: "c_str \<Rightarrow> int option \<Rightarrow> int \<times> int option" where
  "strim_stage_state_from_string = from_string_into k_stage_state_strs"

definition strim_stage_state_to_string :: "c_enum \<Rightarrow> c_str" where
  "strim_stage_state_to_string v = enum_to_string v k_stage_state_strs"

definition strim_path_name_from_string :: "c_str \<Rightarrow> int option \<Rightarrow> int \<times> int option" where
  "strim_path_name_from_string = from_string_into k_path_name_strs"

definition strim_path_name_to_string :: "c_enum \<Rightarrow> c_str" where
  "strim_path_name_to_string v = enum_to_string v k_path_name_strs"

definition strim_stage_name_from_string :: "c_str \<Rightarrow> int option \<Rightarrow> int \<times> int option" where
  "strim_stage_name_from_string = from_string_into k_stage_name_strs"

definition strim_stage_name_to_string :: "c_enum \<Rightarrow> c_str" where
  "strim_stage_name_to_string v = enum_to_string v k_stage_name_strs"

definition strim_control_component_from_string :: "c_str \<Rightarrow> int option \<Rightarrow> int \<times> int option" where
  "strim_control_component_from_string = from_string_into k_control_component_strs"

definition strim_control_component_to_string :: "c_enum \<Rightarrow> c_str" where
  "strim_control_component_to_string v = enum_to_string v k_control_component_strs"

definition strim_control_action_from_string :: "c_str \<Rightarrow> int option \<Rightarrow> int \<times> int option" where
  "strim_control_action_from_string = from_string_into k_control_action_strs"

definition strim_control_action_to_string :: "c_enum \<Rightarrow> c_str" where
  "strim_control_action_to_string v = enum_to_string v k_control_action_strs"

lemmas wire_tables =
  k_path_status_strs_def k_stage_state_strs_def k_path_name_strs_def
  k_stage_name_strs_def k_control_component_strs_def k_control_action_strs_def

lemmas wire_defs [op_defs] =
  strim_path_status_from_string_def strim_path_status_to_string_def
  strim_stage_state_from_string_def strim_stage_state_to_string_def
  strim_path_name_from_string_def strim_path_name_to_string_def
  strim_stage_name_from_string_def strim_stage_name_to_string_def
  strim_control_component_from_string_def strim_control_component_to_string_def
  strim_control_action_from_string_def strim_control_action_to_string_def

section \<open>The scan\<close>

lemma enum_scan_cases:
  "enum_scan s i ts = -1 \<and> s \<notin> set ts \<or>
   (\<exists>j < length ts. ts ! j = s \<and> s \<notin> set (take j ts) \<and> enum_scan s i ts = int (i + j))"
proof (induction ts arbitrary: i)
  case Nil
  show ?case by simp
next
  case (Cons t ts)
  show ?case
  proof (cases "s = t")
    case True
    then show ?thesis by (intro disjI2 exI [of _ 0]) simp
  next
    case False
    from Cons.IH [of "Suc i"] show ?thesis
    proof
      assume "enum_scan s (Suc i) ts = -1 \<and> s \<notin> set ts"
      with False show ?thesis by simp
    next
      assume "\<exists>j < length ts. ts ! j = s \<and> s \<notin> set (take j ts) \<and>
        enum_scan s (Suc i) ts = int (Suc i + j)"
      then obtain j where "j < length ts" "ts ! j = s" "s \<notin> set (take j ts)"
        "enum_scan s (Suc i) ts = int (Suc i + j)" by blast
      with False show ?thesis by (intro disjI2 exI [of _ "Suc j"]) simp
    qed
  qed
qed

lemma enum_from_string_unknown: "s \<notin> set strs \<Longrightarrow> enum_from_string (Some s) strs = -1"
  using enum_scan_cases [of s 0 strs] by (auto simp: enum_from_string_def)

lemma enum_from_string_bounds:
  "enum_from_string s strs \<noteq> -1 \<Longrightarrow>
     0 \<le> enum_from_string s strs \<and> enum_from_string s strs < int (length strs)"
  using enum_scan_cases [of "the s" 0 strs]
  by (auto simp: enum_from_string_def split: option.splits)

section \<open>The codec interface\<close>

locale enum_table =
  fixes strs :: "string list"
  assumes strs_distinct: "distinct strs"
    and strs_short: "length strs \<le> 2147483648"
begin

lemma to_string_in_range:
  "0 \<le> v \<Longrightarrow> v < int (length strs) \<Longrightarrow> enum_to_string v strs = Some (strs ! nat v)"
  using strs_short by (simp add: enum_to_string_def as_unsigned_in_range)

lemma from_string_entry: "i < length strs \<Longrightarrow> enum_from_string (Some (strs ! i)) strs = int i"
  using enum_scan_cases [of "strs ! i" 0 strs] strs_distinct
  by (auto simp: enum_from_string_def nth_eq_iff_index_eq)

lemma from_to:
  assumes "0 \<le> v" and "v < int (length strs)"
  shows "from_string_into strs (enum_to_string v strs) (Some old) = (0, Some v)"
  using assms from_string_entry [of "nat v"] to_string_in_range [OF assms]
  by (simp add: from_string_into_def)

lemma to_from:
  assumes "from_string_into strs (Some s) (Some old) = (0, Some v)"
  shows "0 \<le> v \<and> v < int (length strs) \<and> enum_to_string v strs = Some s"
proof -
  from assms have "enum_from_string (Some s) strs = v" and "0 \<le> v"
    by (auto simp: from_string_into_def Let_def split: if_splits)
  then obtain j where "j < length strs" and "strs ! j = s" and "v = int j"
    using enum_scan_cases [of s 0 strs] by (auto simp: enum_from_string_def)
  with to_string_in_range [of v] show ?thesis by simp
qed

lemma unknown_rejected:
  "s \<notin> set strs \<Longrightarrow> from_string_into strs (Some s) out = (-1, out)"
  by (simp add: from_string_into_def enum_from_string_unknown)

lemma accepted_iff:
  "fst (from_string_into strs s out) = 0 \<longleftrightarrow> out \<noteq> None \<and> (\<exists>str \<in> set strs. s = Some str)"
proof (cases s)
  case None
  then show ?thesis by (simp add: from_string_into_def enum_from_string_def)
next
  case (Some str)
  then show ?thesis
    using enum_scan_cases [of str 0 strs]
    by (auto simp: from_string_into_def enum_from_string_def Let_def)
qed

text \<open>The two directions and the failure behaviour, for any functions that are the table's lookups.\<close>

lemma codec_laws:
  assumes "to_str = (\<lambda>v. enum_to_string v strs)" and "from_str = from_string_into strs"
    and "n = length strs"
  shows "(0 \<le> v \<and> v < int n \<longrightarrow> from_str (to_str v) (Some old) = (0, Some v)) \<and>
    (from_str (Some s) (Some old) = (0, Some v) \<longrightarrow> 0 \<le> v \<and> v < int n \<and> to_str v = Some s) \<and>
    (fst (from_str word out) \<noteq> 0 \<longrightarrow> snd (from_str word out) = out)"
proof -
  have "fst (from_string_into strs word out) \<noteq> 0 \<longrightarrow> snd (from_string_into strs word out) = out"
    by (auto simp: from_string_into_def Let_def)
  then show ?thesis unfolding assms using from_to to_from by blast
qed

end

interpretation path_status_codec: enum_table k_path_status_strs
  by unfold_locales (simp_all add: wire_tables)

interpretation stage_state_codec: enum_table k_stage_state_strs
  by unfold_locales (simp_all add: wire_tables)

interpretation path_name_codec: enum_table k_path_name_strs
  by unfold_locales (simp_all add: wire_tables)

interpretation stage_name_codec: enum_table k_stage_name_strs
  by unfold_locales (simp_all add: wire_tables)

interpretation control_component_codec: enum_table k_control_component_strs
  by unfold_locales (simp_all add: wire_tables)

interpretation control_action_codec: enum_table k_control_action_strs
  by unfold_locales (simp_all add: wire_tables)

lemma wire_table_lengths [simp]:
  "length k_path_status_strs = 3" "length k_stage_state_strs = 3"
  "length k_path_name_strs = 2" "length k_stage_name_strs = 4"
  "length k_control_component_strs = 1" "length k_control_action_strs = 2"
  by (simp_all add: wire_tables)

section \<open>The wire vocabulary\<close>

text \<open>
  C14: On every one of the six wire vocabularies, encoding a declared enum value and decoding the word
  gives the value back, and a word is decoded only into the value whose encoding it is; so
  words and values correspond one to one and nothing else is accepted.
\<close>

theorem wire_codecs_inverse:
  assumes "codec \<in> {(strim_path_status_to_string, strim_path_status_from_string, STRIM_PATH_STATUS_COUNT),
      (strim_stage_state_to_string, strim_stage_state_from_string, STRIM_STAGE_STATE_COUNT),
      (strim_path_name_to_string, strim_path_name_from_string, STRIM_PATH_NAME_COUNT),
      (strim_stage_name_to_string, strim_stage_name_from_string, STRIM_STAGE_NAME_COUNT),
      (strim_control_component_to_string, strim_control_component_from_string, STRIM_COMPONENT_COUNT),
      (strim_control_action_to_string, strim_control_action_from_string, STRIM_ACTION_COUNT)}"
    and "codec = (to_str, from_str, n)"
  shows "(0 \<le> v \<and> v < int n \<longrightarrow> from_str (to_str v) (Some old) = (0, Some v)) \<and>
    (from_str (Some s) (Some old) = (0, Some v) \<longrightarrow> 0 \<le> v \<and> v < int n \<and> to_str v = Some s) \<and>
    (fst (from_str word out) \<noteq> 0 \<longrightarrow> snd (from_str word out) = out)"
proof -
  have fns: "strim_path_status_to_string = (\<lambda>v. enum_to_string v k_path_status_strs)"
    "strim_stage_state_to_string = (\<lambda>v. enum_to_string v k_stage_state_strs)"
    "strim_path_name_to_string = (\<lambda>v. enum_to_string v k_path_name_strs)"
    "strim_stage_name_to_string = (\<lambda>v. enum_to_string v k_stage_name_strs)"
    "strim_control_component_to_string = (\<lambda>v. enum_to_string v k_control_component_strs)"
    "strim_control_action_to_string = (\<lambda>v. enum_to_string v k_control_action_strs)"
    by (simp_all add: fun_eq_iff wire_defs)
  from assms consider
      "to_str = strim_path_status_to_string" "from_str = strim_path_status_from_string" "n = 3"
    | "to_str = strim_stage_state_to_string" "from_str = strim_stage_state_from_string" "n = 3"
    | "to_str = strim_path_name_to_string" "from_str = strim_path_name_from_string" "n = 2"
    | "to_str = strim_stage_name_to_string" "from_str = strim_stage_name_from_string" "n = 4"
    | "to_str = strim_control_component_to_string" "from_str = strim_control_component_from_string" "n = 1"
    | "to_str = strim_control_action_to_string" "from_str = strim_control_action_from_string" "n = 2"
    by (elim insertE emptyE) (simp_all only: prod.inject)
  then show ?thesis
  proof cases
    case 1
    then show ?thesis by (intro path_status_codec.codec_laws) (simp_all add: fns wire_defs)
  next
    case 2
    then show ?thesis by (intro stage_state_codec.codec_laws) (simp_all add: fns wire_defs)
  next
    case 3
    then show ?thesis by (intro path_name_codec.codec_laws) (simp_all add: fns wire_defs)
  next
    case 4
    then show ?thesis by (intro stage_name_codec.codec_laws) (simp_all add: fns wire_defs)
  next
    case 5
    then show ?thesis by (intro control_component_codec.codec_laws) (simp_all add: fns wire_defs)
  next
    case 6
    then show ?thesis by (intro control_action_codec.codec_laws) (simp_all add: fns wire_defs)
  qed
qed

theorem wire_codecs_inverse_witness:
  "strim_path_status_from_string (strim_path_status_to_string STRIM_PATH_READY) (Some 7) =
     (0, Some STRIM_PATH_READY)"
  using wire_codecs_inverse [of _ strim_path_status_to_string strim_path_status_from_string
      STRIM_PATH_STATUS_COUNT STRIM_PATH_READY 7, OF _ refl] by simp

end
