(* ===== verification/App_Config.thy ===== *)
theory App_Config
  imports Duration Wire
begin

text \<open>
  Configuration in \<open>main.c\<close>: the config structs, the value binders, the env spec
  table, \<open>load_config\<close>, \<open>check_env\<close>, \<open>go_quote\<close> and \<open>print_env_example\<close>. The process
  environment is an argument (\<open>getenv\<close>). A \<open>char[N]\<close> field is the string it holds;
  binding returns the config it leaves behind and the error, if any.
\<close>

section \<open>Types\<close>

abbreviation (input) STRIM_CFG_ID_MAX :: nat where "STRIM_CFG_ID_MAX \<equiv> 128"
abbreviation (input) STRIM_CFG_SNAP_MAX :: nat where "STRIM_CFG_SNAP_MAX \<equiv> 256"
abbreviation (input) STRIM_CFG_IMAGE_MAX :: nat where "STRIM_CFG_IMAGE_MAX \<equiv> 512"
abbreviation (input) STRIM_CFG_PATH_MAX :: nat where "STRIM_CFG_PATH_MAX \<equiv> 1024"

record strim_container_config =
  container_id :: string
  snapshot_id :: string
  image_name :: string
  logfile :: string

record strim_config =
  containerd_socket :: string
  containerd_namespace :: string
  controller_http_port :: string
  host_root :: string
  reconcile_interval_ms :: int
  cfg_inflight_ms :: int
  shutdown_timeout_ms :: int
  stage_stop_timeout_ms :: int
  websocket_write_timeout_ms :: int
  cfg_actions_buffer :: byte
  enable_single_stage_pipeline :: bool
  mediamtx :: strim_container_config
  normalize :: strim_container_config
  scale_and_egress :: strim_container_config
  single_stage_egress :: strim_container_config

datatype bind_err =
    Empty_value
  | Value_too_long nat nat
  | Invalid_duration string
  | Invalid_uint8 string
  | Invalid_bool string

type_synonym env_bind = "strim_config \<Rightarrow> string \<Rightarrow> strim_config \<times> bind_err option"

record strim_env_var =
  ev_name :: string
  ev_group :: string
  ev_required :: bool
  ev_example :: string
  ev_comment :: c_str
  ev_bind :: "env_bind option"

definition env_var ::
  "string \<Rightarrow> string \<Rightarrow> bool \<Rightarrow> string \<Rightarrow> c_str \<Rightarrow> env_bind option \<Rightarrow> strim_env_var" where
  "env_var name grp required example comment bind =
     \<lparr>ev_name = name, ev_group = grp, ev_required = required, ev_example = example,
      ev_comment = comment, ev_bind = bind\<rparr>"

section \<open>Value binders\<close>

definition bind_str :: "nat \<Rightarrow> c_str \<Rightarrow> bind_err + string" where
  "bind_str cap raw =
     (case raw of
        None \<Rightarrow> Inl Empty_value
      | Some s \<Rightarrow>
          if cap = 0 then Inl Empty_value
          else if length s \<ge> cap then Inl (Value_too_long (length s) (cap - 1))
          else Inr s)"

definition bind_duration :: "(dbl \<Rightarrow> dbl) \<Rightarrow> string \<Rightarrow> bind_err + int" where
  "bind_duration rnd raw =
     (case bind_duration_ms rnd raw of None \<Rightarrow> Inl (Invalid_duration raw) | Some v \<Rightarrow> Inr v)"

text \<open>
  \<open>strtoul(raw, &end, 10)\<close> for a 64-bit \<open>unsigned long\<close>: leading white space, an
  optional sign, decimal digits. The result is the value, whether \<open>ERANGE\<close> was set,
  whether any digit was read, and the text at \<open>end\<close> when one was.
\<close>

definition c_isspace :: "char \<Rightarrow> bool" where
  "c_isspace c \<longleftrightarrow> c = CHR '' '' \<or> (9 \<le> (of_char c :: nat) \<and> (of_char c :: nat) \<le> 13)"

fun ul_digits :: "string \<Rightarrow> nat \<Rightarrow> nat \<times> string" where
  "ul_digits [] v = (v, [])"
| "ul_digits (c # s) v = (if is_digit c then ul_digits s (v * 10 + digit_val c) else (v, c # s))"

definition strtoul10 :: "string \<Rightarrow> nat \<times> bool \<times> bool \<times> string" where
  "strtoul10 raw =
     (let s = dropWhile c_isspace raw;
          neg = (take 1 s = ''-'');
          s1 = (if take 1 s = ''-'' \<or> take 1 s = ''+'' then drop 1 s else s)
      in case ul_digits s1 0 of
           (n, rest) \<Rightarrow>
             (if n \<ge> 2 ^ 64 then 2 ^ 64 - 1 else if neg then (2 ^ 64 - n) mod 2 ^ 64 else n,
              n \<ge> 2 ^ 64, rest \<noteq> s1, rest))"

definition bind_uint8 :: "c_str \<Rightarrow> bind_err + byte" where
  "bind_uint8 raw =
     (case raw of
        None \<Rightarrow> Inl Empty_value
      | Some s \<Rightarrow>
          if s = [] then Inl Empty_value
          else case strtoul10 s of
                 (v, erange, any, rest) \<Rightarrow>
                   if erange \<or> \<not> any \<or> rest \<noteq> [] \<or> v > 255 then Inl (Invalid_uint8 s)
                   else Inr (of_nat v))"

definition bind_bool :: "c_str \<Rightarrow> bind_err + bool" where
  "bind_bool raw =
     (case raw of
        None \<Rightarrow> Inl Empty_value
      | Some s \<Rightarrow>
          if s = ''1'' \<or> s = ''t'' \<or> s = ''T'' \<or> s = ''true'' \<or> s = ''TRUE'' \<or> s = ''True''
            then Inr True
          else if s = ''0'' \<or> s = ''f'' \<or> s = ''F'' \<or> s = ''false'' \<or> s = ''FALSE'' \<or>
            s = ''False'' then Inr False
          else Inl (Invalid_bool s))"

text \<open>Write a bound value into the config, or leave it and report.\<close>

definition store ::
  "bind_err + 'a \<Rightarrow> ('a \<Rightarrow> strim_config) \<Rightarrow> strim_config \<Rightarrow> strim_config \<times> bind_err option" where
  "store r upd c = (case r of Inl e \<Rightarrow> (c, Some e) | Inr v \<Rightarrow> (upd v, None))"

section \<open>The env spec\<close>

definition env_containerd_socket :: env_bind where
  "env_containerd_socket c raw = store (bind_str 256 (Some raw)) (\<lambda>s. c\<lparr>containerd_socket := s\<rparr>) c"

definition env_containerd_namespace :: env_bind where
  "env_containerd_namespace c raw = store (bind_str 128 (Some raw)) (\<lambda>s. c\<lparr>containerd_namespace := s\<rparr>) c"

definition env_http_port :: env_bind where
  "env_http_port c raw = store (bind_str 32 (Some raw)) (\<lambda>s. c\<lparr>controller_http_port := s\<rparr>) c"

definition env_host_root :: env_bind where
  "env_host_root c raw = store (bind_str 1024 (Some raw)) (\<lambda>s. c\<lparr>host_root := s\<rparr>) c"

definition env_reconcile_interval :: "(dbl \<Rightarrow> dbl) \<Rightarrow> env_bind" where
  "env_reconcile_interval rnd c raw = store (bind_duration rnd raw) (\<lambda>v. c\<lparr>reconcile_interval_ms := v\<rparr>) c"

definition env_inflight_timeout :: "(dbl \<Rightarrow> dbl) \<Rightarrow> env_bind" where
  "env_inflight_timeout rnd c raw = store (bind_duration rnd raw) (\<lambda>v. c\<lparr>cfg_inflight_ms := v\<rparr>) c"

definition env_shutdown_timeout :: "(dbl \<Rightarrow> dbl) \<Rightarrow> env_bind" where
  "env_shutdown_timeout rnd c raw = store (bind_duration rnd raw) (\<lambda>v. c\<lparr>shutdown_timeout_ms := v\<rparr>) c"

definition env_stage_stop_timeout :: "(dbl \<Rightarrow> dbl) \<Rightarrow> env_bind" where
  "env_stage_stop_timeout rnd c raw = store (bind_duration rnd raw) (\<lambda>v. c\<lparr>stage_stop_timeout_ms := v\<rparr>) c"

definition env_ws_write_timeout :: "(dbl \<Rightarrow> dbl) \<Rightarrow> env_bind" where
  "env_ws_write_timeout rnd c raw = store (bind_duration rnd raw) (\<lambda>v. c\<lparr>websocket_write_timeout_ms := v\<rparr>) c"

definition env_actions_buffer :: env_bind where
  "env_actions_buffer c raw = store (bind_uint8 (Some raw)) (\<lambda>v. c\<lparr>cfg_actions_buffer := v\<rparr>) c"

definition env_single_stage :: env_bind where
  "env_single_stage c raw =
     store (bind_bool (Some raw)) (\<lambda>v. c\<lparr>enable_single_stage_pipeline := v\<rparr>) c"

definition env_mediamtx_id :: env_bind where
  "env_mediamtx_id c raw =
     store (bind_str STRIM_CFG_ID_MAX (Some raw)) (\<lambda>s. c\<lparr>mediamtx := (mediamtx c)\<lparr>container_id := s\<rparr>\<rparr>) c"

definition env_mediamtx_snapshot :: env_bind where
  "env_mediamtx_snapshot c raw =
     store (bind_str STRIM_CFG_SNAP_MAX (Some raw)) (\<lambda>s. c\<lparr>mediamtx := (mediamtx c)\<lparr>snapshot_id := s\<rparr>\<rparr>) c"

definition env_mediamtx_image :: env_bind where
  "env_mediamtx_image c raw =
     store (bind_str STRIM_CFG_IMAGE_MAX (Some raw)) (\<lambda>s. c\<lparr>mediamtx := (mediamtx c)\<lparr>image_name := s\<rparr>\<rparr>) c"

definition env_mediamtx_log :: env_bind where
  "env_mediamtx_log c raw =
     store (bind_str STRIM_CFG_PATH_MAX (Some raw)) (\<lambda>s. c\<lparr>mediamtx := (mediamtx c)\<lparr>logfile := s\<rparr>\<rparr>) c"

definition env_normalize_id :: env_bind where
  "env_normalize_id c raw =
     store (bind_str STRIM_CFG_ID_MAX (Some raw)) (\<lambda>s. c\<lparr>normalize := (normalize c)\<lparr>container_id := s\<rparr>\<rparr>) c"

definition env_normalize_snapshot :: env_bind where
  "env_normalize_snapshot c raw =
     store (bind_str STRIM_CFG_SNAP_MAX (Some raw)) (\<lambda>s. c\<lparr>normalize := (normalize c)\<lparr>snapshot_id := s\<rparr>\<rparr>) c"

definition env_normalize_log :: env_bind where
  "env_normalize_log c raw =
     store (bind_str STRIM_CFG_PATH_MAX (Some raw)) (\<lambda>s. c\<lparr>normalize := (normalize c)\<lparr>logfile := s\<rparr>\<rparr>) c"

definition env_egress_id :: env_bind where
  "env_egress_id c raw =
     store (bind_str STRIM_CFG_ID_MAX (Some raw)) (\<lambda>s. c\<lparr>scale_and_egress := (scale_and_egress c)\<lparr>container_id := s\<rparr>\<rparr>) c"

definition env_single_egress_id :: env_bind where
  "env_single_egress_id c raw =
     store (bind_str STRIM_CFG_ID_MAX (Some raw)) (\<lambda>s. c\<lparr>single_stage_egress := (single_stage_egress c)\<lparr>container_id := s\<rparr>\<rparr>) c"

definition env_egress_snapshot :: env_bind where
  "env_egress_snapshot c raw =
     (case store (bind_str STRIM_CFG_SNAP_MAX (Some raw)) (\<lambda>s. c\<lparr>scale_and_egress := (scale_and_egress c)\<lparr>snapshot_id := s\<rparr>\<rparr>) c of
        (c1, Some err) \<Rightarrow> (c1, Some err)
      | (c1, None) \<Rightarrow>
          store (bind_str STRIM_CFG_SNAP_MAX (Some raw)) (\<lambda>s. c1\<lparr>single_stage_egress := (single_stage_egress c1)\<lparr>snapshot_id := s\<rparr>\<rparr>) c1)"

definition env_egress_log :: env_bind where
  "env_egress_log c raw =
     (case store (bind_str STRIM_CFG_PATH_MAX (Some raw)) (\<lambda>s. c\<lparr>scale_and_egress := (scale_and_egress c)\<lparr>logfile := s\<rparr>\<rparr>) c of
        (c1, Some err) \<Rightarrow> (c1, Some err)
      | (c1, None) \<Rightarrow>
          store (bind_str STRIM_CFG_PATH_MAX (Some raw)) (\<lambda>s. c1\<lparr>single_stage_egress := (single_stage_egress c1)\<lparr>logfile := s\<rparr>\<rparr>) c1)"

definition env_ffmpeg_image :: env_bind where
  "env_ffmpeg_image c raw =
     (case store (bind_str STRIM_CFG_IMAGE_MAX (Some raw)) (\<lambda>s. c\<lparr>normalize := (normalize c)\<lparr>image_name := s\<rparr>\<rparr>) c of
        (c1, Some err) \<Rightarrow> (c1, Some err)
      | (c1, None) \<Rightarrow>
          (case store (bind_str STRIM_CFG_IMAGE_MAX (Some raw)) (\<lambda>s. c1\<lparr>scale_and_egress := (scale_and_egress c1)\<lparr>image_name := s\<rparr>\<rparr>) c1 of
             (c2, Some err) \<Rightarrow> (c2, Some err)
           | (c2, None) \<Rightarrow>
               store (bind_str STRIM_CFG_IMAGE_MAX (Some raw)) (\<lambda>s. c2\<lparr>single_stage_egress := (single_stage_egress c2)\<lparr>image_name := s\<rparr>\<rparr>) c2))"

lemmas env_binders =
  env_containerd_socket_def
  env_containerd_namespace_def
  env_http_port_def
  env_host_root_def
  env_reconcile_interval_def
  env_inflight_timeout_def
  env_shutdown_timeout_def
  env_stage_stop_timeout_def
  env_ws_write_timeout_def
  env_actions_buffer_def
  env_single_stage_def
  env_mediamtx_id_def
  env_mediamtx_snapshot_def
  env_mediamtx_image_def
  env_mediamtx_log_def
  env_normalize_id_def
  env_normalize_snapshot_def
  env_normalize_log_def
  env_egress_id_def
  env_single_egress_id_def
  env_egress_snapshot_def
  env_egress_log_def
  env_ffmpeg_image_def

text \<open>The env spec, in the source's order.\<close>

definition g_env_spec :: "(dbl \<Rightarrow> dbl) \<Rightarrow> strim_env_var list" where
  "g_env_spec rnd =
     [env_var ''CONTAINERD_SOCKET'' ''Controller'' True ''/containerd.sock''
        (Some ''containerd gRPC socket the controller drives'') (Some env_containerd_socket),
      env_var ''CONTAINERD_NAMESPACE'' ''Controller'' True ''strimserver''
        (None) (Some env_containerd_namespace),
      env_var ''CONTROLLER_HTTP_PORT'' ''Controller'' True ''4000''
        (Some ''must match the Stream Deck plugin's base URL port'') (Some env_http_port),
      env_var ''STRIMSERVER_HOST_ROOT'' ''Controller'' True ''/mnt/nvme''
        (Some ''host dir where deploy.sh stages config/bin/video-files'') (Some env_host_root),
      env_var ''CONTROLLER_RECONCILE_INTERVAL'' ''Controller'' True ''5s''
        (Some ''how often the reconcile ticker fires (Go duration)'') (Some (env_reconcile_interval rnd)),
      env_var ''CONTROLLER_INFLIGHT_TIMEOUT'' ''Controller'' True ''30s''
        (Some ''per-op timeout; after this an in-flight stage op is re-issued'') (Some (env_inflight_timeout rnd)),
      env_var ''CONTROLLER_SHUTDOWN_TIMEOUT'' ''Controller'' True ''30s''
        (Some ''graceful HTTP shutdown budget'') (Some (env_shutdown_timeout rnd)),
      env_var ''STAGE_STOP_TIMEOUT'' ''Controller'' True ''10s''
        (Some ''grace period after SIGTERM before a task is force-killed'') (Some (env_stage_stop_timeout rnd)),
      env_var ''WEBSOCKET_WRITE_TIMEOUT'' ''Controller'' True ''5s''
        (Some ''per-message write deadline on /subscribe'') (Some (env_ws_write_timeout rnd)),
      env_var ''CONTROLLER_ACTIONS_BUFFER_SIZE'' ''Controller'' True ''16''
        (Some ''buffered capacity of the actions channel (0-255)'') (Some env_actions_buffer),
      env_var ''ENABLE_SINGLE_STAGE_PIPELINE'' ''Controller'' False ''false''
        (Some ''feature toggle to enable single_stage_egress'') (Some env_single_stage),
      env_var ''MEDIAMTX_CONTAINER_ID'' ''Stage containers'' True ''mediamtx''
        (None) (Some env_mediamtx_id),
      env_var ''MEDIAMTX_SNAPSHOT_ID'' ''Stage containers'' True ''mediamtx-snapshot''
        (None) (Some env_mediamtx_snapshot),
      env_var ''MEDIAMTX_IMAGE_NAME'' ''Stage containers'' True ''docker.io/library/mediamtx:latest''
        (None) (Some env_mediamtx_image),
      env_var ''MEDIAMTX_LOG_FILE'' ''Stage containers'' True ''/mnt/nvme/logs/mediamtx.log''
        (None) (Some env_mediamtx_log),
      env_var ''NORMALIZE_CONTAINER_ID'' ''Stage containers'' True ''normalize''
        (None) (Some env_normalize_id),
      env_var ''NORMALIZE_SNAPSHOT_ID'' ''Stage containers'' True ''normalize-snapshot''
        (None) (Some env_normalize_snapshot),
      env_var ''NORMALIZE_LOG_FILE'' ''Stage containers'' True ''/mnt/nvme/logs/normalize.log''
        (None) (Some env_normalize_log),
      env_var ''EGRESS_CONTAINER_ID'' ''Stage containers'' True ''scale-and-egress''
        (None) (Some env_egress_id),
      env_var ''SINGLE_STAGE_EGRESS_CONTAINER_ID'' ''Stage containers'' False ''single-stage-egress''
        (None) (Some env_single_egress_id),
      env_var ''EGRESS_SNAPSHOT_ID'' ''Stage containers'' True ''egress-snapshot''
        (None) (Some env_egress_snapshot),
      env_var ''EGRESS_LOG_FILE'' ''Stage containers'' True ''/mnt/nvme/logs/egress.log''
        (None) (Some env_egress_log),
      env_var ''FFMPEG_IMAGE_NAME'' ''Stage containers'' True ''docker.io/library/ffmpeg:latest''
        (Some ''shared by the normalize and scale_and_egress stages'') (Some env_ffmpeg_image),
      env_var ''FFMPEG_NICE'' ''Media / ffmpeg'' True ''-5''
        (Some ''nice(1) level for the ffmpeg stages'') (None),
      env_var ''FFMPEG_LOG_LEVEL'' ''Media / ffmpeg'' True ''info''
        (None) (None),
      env_var ''MEDIAMTX_NICE'' ''Media / ffmpeg'' True ''-10''
        (None) (None),
      env_var ''MEDIAMTX_CONFIG_TEMPLATE'' ''Media / ffmpeg'' True ''/mediamtx.yaml.template''
        (Some ''in-container path of the bind-mounted template (envsubst input)'') (None),
      env_var ''STRIMSERVER_SRT_PORT'' ''Media / ffmpeg'' True ''9000''
        (Some ''SRT ingest port; must match the local encoder'') (None),
      env_var ''STRIMSERVER_RTSP_PORT'' ''Media / ffmpeg'' True ''8554''
        (Some ''internal RTSP port the stages read from'') (None),
      env_var ''NORMALIZED_MPEGTS_SOCKET'' ''Media / ffmpeg'' True ''/tmp/strimserver-normalized.sock''
        (Some ''unix socket: mediamtx listens, normalize ffmpeg connects'') (None),
      env_var ''MEDIAMTX_READ_TIMEOUT_DURATION'' ''Media / ffmpeg'' True ''12s''
        (Some ''>= SRT latency + jitter + read gap'') (None),
      env_var ''NORMALIZED_VIDEO_BITRATE'' ''Media / ffmpeg'' True ''9000k''
        (None) (None),
      env_var ''NORMALIZED_VIDEO_MAXRATE'' ''Media / ffmpeg'' True ''9000k''
        (None) (None),
      env_var ''NORMALIZED_VIDEO_MINRATE'' ''Media / ffmpeg'' True ''9000k''
        (None) (None),
      env_var ''NORMALIZED_VIDEO_BUFSIZE'' ''Media / ffmpeg'' True ''9000k''
        (None) (None),
      env_var ''NORMALIZED_AUDIO_BITRATE'' ''Media / ffmpeg'' True ''320k''
        (None) (None),
      env_var ''SCALED_VIDEO_HEIGHT_PIXELS'' ''Media / ffmpeg'' True ''936''
        (Some ''egress output height; width is derived (-2)'') (None),
      env_var ''EGRESS_VIDEO_BITRATE'' ''Media / ffmpeg'' True ''2500k''
        (None) (None),
      env_var ''EGRESS_VIDEO_MAXRATE'' ''Media / ffmpeg'' True ''2500k''
        (None) (None),
      env_var ''EGRESS_VIDEO_MINRATE'' ''Media / ffmpeg'' True ''2500k''
        (None) (None),
      env_var ''EGRESS_VIDEO_BUFSIZE'' ''Media / ffmpeg'' True ''2500k''
        (None) (None),
      env_var ''EGRESS_AUDIO_BITRATE'' ''Media / ffmpeg'' True ''160k''
        (None) (None),
      env_var ''TWITCH_INGEST_SERVER'' ''Twitch / egress'' True ''ingest.global-contribute.live-video.net''
        (None) (None),
      env_var ''TWITCH_STREAM_KEY'' ''Twitch / egress'' True ''''
        (Some ''secret; leave EMPTY in bundled builds - injected at deploy time by deploy.sh'') (None),
      env_var ''BANDWIDTH_TEST'' ''Twitch / egress'' True ''false''
        (Some ''true appends ?bandwidthtest=true to the RTMP URL'') (None),
      env_var ''ENABLE_DDNS'' ''Dynamic DNS (Namecheap)'' False ''false''
        (Some ''Feature toggle: when false, deploy.sh skips DDNS entirely (box reachable by IP only).'') (None),
      env_var ''DDNS_HOST'' ''Dynamic DNS (Namecheap)'' False ''strim''
        (Some ''Namecheap Dynamic DNS host label (matches the DDNS host created in Namecheap).'') (None),
      env_var ''DDNS_DOMAIN'' ''Dynamic DNS (Namecheap)'' False ''''
        (Some (''Namecheap Dynamic DNS domain (OPERATOR MUST FILL IN; leave empty for published builds).'' @ CHR 0x0A # ''# Example: DDNS_DOMAIN=\"example.com\"  ->  box is referenceable as strim.example.com'')) (None),
      env_var ''SRT_PUBLISH_PASSPHRASE'' ''Secrets'' False ''''
        (Some ''optional; falls back to /run/secrets/srt-passphrase if unset'') (None)]"

section \<open>check_env and load_config\<close>

type_synonym process_env = "string \<Rightarrow> string option"

text \<open>\<open>raw == NULL || raw[0] == 0\<close>.\<close>

definition env_absent :: "process_env \<Rightarrow> string \<Rightarrow> bool" where
  "env_absent getenv name \<longleftrightarrow> getenv name = None \<or> getenv name = Some []"

text \<open>The names \<open>check_env\<close> reports, in order; its result is 0 when there is none.\<close>

definition check_env_missing :: "process_env \<Rightarrow> strim_env_var list \<Rightarrow> string list" where
  "check_env_missing getenv spec =
     map ev_name (filter (\<lambda>v. ev_required v \<and> env_absent getenv (ev_name v)) spec)"

definition check_env :: "(dbl \<Rightarrow> dbl) \<Rightarrow> process_env \<Rightarrow> int \<times> string list" where
  "check_env rnd getenv =
     (let missing = check_env_missing getenv (g_env_spec rnd)
      in (if missing = [] then 0 else -1, missing))"

datatype config_err = Missing_required string | Could_not_parse string string bind_err

definition zero_container_config :: strim_container_config where
  "zero_container_config = \<lparr>container_id = [], snapshot_id = [], image_name = [], logfile = []\<rparr>"

definition zero_config :: strim_config where
  "zero_config =
     \<lparr>containerd_socket = [], containerd_namespace = [], controller_http_port = [],
      host_root = [], reconcile_interval_ms = 0, cfg_inflight_ms = 0, shutdown_timeout_ms = 0,
      stage_stop_timeout_ms = 0, websocket_write_timeout_ms = 0, cfg_actions_buffer = 0,
      enable_single_stage_pipeline = False, mediamtx = zero_container_config,
      normalize = zero_container_config, scale_and_egress = zero_container_config,
      single_stage_egress = zero_container_config\<rparr>"

text \<open>One iteration of the \<open>load_config\<close> loop.\<close>

definition load_var ::
  "process_env \<Rightarrow> strim_env_var \<Rightarrow> strim_config \<Rightarrow> strim_config \<times> config_err list" where
  "load_var getenv v cfg =
     (if env_absent getenv (ev_name v)
      then (cfg, if ev_required v then [Missing_required (ev_name v)] else [])
      else case ev_bind v of
             None \<Rightarrow> (cfg, [])
           | Some bind \<Rightarrow>
               (case bind cfg (the (getenv (ev_name v))) of
                  (cfg', None) \<Rightarrow> (cfg', [])
                | (cfg', Some err) \<Rightarrow>
                    (cfg', [Could_not_parse (ev_name v) (the (getenv (ev_name v))) err])))"

fun load_loop ::
  "process_env \<Rightarrow> strim_env_var list \<Rightarrow> strim_config \<Rightarrow> strim_config \<times> config_err list" where
  "load_loop getenv [] cfg = (cfg, [])"
| "load_loop getenv (v # vs) cfg =
     (case load_var getenv v cfg of
        (cfg1, e1) \<Rightarrow> (case load_loop getenv vs cfg1 of (cfg2, e2) \<Rightarrow> (cfg2, e1 @ e2)))"

definition load_config ::
  "(dbl \<Rightarrow> dbl) \<Rightarrow> process_env \<Rightarrow> int \<times> strim_config \<times> config_err list" where
  "load_config rnd getenv =
     (case load_loop getenv (g_env_spec rnd) zero_config of
        (cfg, errs) \<Rightarrow> (if errs = [] then 0 else -1, cfg, errs))"

section \<open>Quoting and the env example\<close>

definition hex_digit :: "nat \<Rightarrow> char" where
  "hex_digit n = ''0123456789abcdef'' ! (n mod 16)"

definition quote_char :: "char \<Rightarrow> string" where
  "quote_char c =
     (if c = CHR 0x22 then [CHR 0x5C, CHR 0x22]
      else if c = CHR 0x5C then [CHR 0x5C, CHR 0x5C]
      else if c = CHR 0x0A then [CHR 0x5C, CHR ''n'']
      else if c = CHR 0x0D then [CHR 0x5C, CHR ''r'']
      else if c = CHR 0x09 then [CHR 0x5C, CHR ''t'']
      else if (of_char c :: nat) < 32 \<or> (of_char c :: nat) \<ge> 127
        then [CHR 0x5C, CHR ''x'', hex_digit (of_char c div 16), hex_digit (of_char c)]
      else [c])"

text \<open>The copy loop of \<open>go_quote\<close>: it stops early when fewer than nine bytes are left.\<close>

fun quote_loop :: "nat \<Rightarrow> string \<Rightarrow> string \<Rightarrow> string" where
  "quote_loop cap out [] = out"
| "quote_loop cap out (c # p) =
     (if length out + 8 < cap then quote_loop cap (out @ quote_char c) p else out)"

text \<open>The bytes written to \<open>out\<close> before the terminating NUL.\<close>

definition go_quote :: "string \<Rightarrow> nat \<Rightarrow> string" where
  "go_quote s cap = (if cap = 0 then [] else quote_loop cap [CHR 0x22] s @ [CHR 0x22])"

fun env_example_lines :: "c_str \<Rightarrow> strim_env_var list \<Rightarrow> string" where
  "env_example_lines last_group [] = []"
| "env_example_lines last_group (v # vs) =
     (if last_group \<noteq> Some (ev_group v)
      then CHR 0x0A # ''# --- '' @ ev_group v @ '' ---'' @ [CHR 0x0A] else []) @
     (case ev_comment v of
        None \<Rightarrow> []
      | Some com \<Rightarrow> if com \<noteq> [] then ''# '' @ com @ [CHR 0x0A] else []) @
     ev_name v @ ''='' @ go_quote (ev_example v) 256 @ [CHR 0x0A] @
     env_example_lines (Some (ev_group v)) vs"

definition print_env_example :: "(dbl \<Rightarrow> dbl) \<Rightarrow> string" where
  "print_env_example rnd = env_example_lines None (g_env_spec rnd)"

section \<open>Loading\<close>

lemma env_var_sel [simp]:
  "ev_name (env_var n g r e c b) = n" "ev_group (env_var n g r e c b) = g"
  "ev_required (env_var n g r e c b) = r" "ev_example (env_var n g r e c b) = e"
  "ev_comment (env_var n g r e c b) = c" "ev_bind (env_var n g r e c b) = b"
  by (simp_all add: env_var_def)

lemma bind_str_iff [simp]:
  "bind_str cap (Some raw) = Inr s \<longleftrightarrow> length raw < cap \<and> s = raw"
  by (auto simp: bind_str_def)

lemma store_eq [simp]:
  "store r upd c = (c', None) \<longleftrightarrow> (\<exists>v. r = Inr v \<and> c' = upd v)"
  "store r upd c = (c', Some e) \<longleftrightarrow> r = Inl e \<and> c' = c"
  by (auto simp: store_def split: sum.splits)

lemma bind_duration_iff [simp]:
  "bind_duration rnd raw = Inr v \<longleftrightarrow> bind_duration_ms rnd raw = Some v"
  by (auto simp: bind_duration_def split: option.splits)

text \<open>Whether a value binds does not depend on the config it is bound into.\<close>

definition context_free :: "env_bind \<Rightarrow> bool" where
  "context_free b \<longleftrightarrow> (\<forall>c c' raw. snd (b c raw) = snd (b c' raw))"

lemma store_snd: "snd (store r upd c) = (case r of Inl e \<Rightarrow> Some e | Inr v \<Rightarrow> None)"
  by (simp add: store_def split: sum.splits)

lemma store_chain_context_free:
  "snd (case store r upd c of (c1, Some err) \<Rightarrow> (c1, Some err) | (c1, None) \<Rightarrow> k c1) =
     (case r of Inl e \<Rightarrow> Some e | Inr v \<Rightarrow> snd (k (upd v)))"
  by (simp add: store_def split: sum.splits)

lemma binders_context_free:
  "context_free env_containerd_socket" "context_free env_containerd_namespace"
  "context_free env_http_port" "context_free env_host_root" "context_free env_mediamtx_id"
  "context_free env_mediamtx_snapshot" "context_free env_mediamtx_image"
  "context_free env_mediamtx_log" "context_free env_normalize_id"
  "context_free env_normalize_snapshot" "context_free env_normalize_log"
  "context_free env_egress_id" "context_free env_single_egress_id"
  "context_free env_actions_buffer" "context_free env_single_stage"
  "context_free (env_reconcile_interval rnd)" "context_free (env_inflight_timeout rnd)"
  "context_free (env_shutdown_timeout rnd)" "context_free (env_stage_stop_timeout rnd)"
  "context_free (env_ws_write_timeout rnd)" "context_free env_egress_snapshot"
  "context_free env_egress_log" "context_free env_ffmpeg_image"
  by (simp_all add: context_free_def env_binders store_snd store_chain_context_free bind_str_def)

lemma env_binders_context_free:
  "\<forall>b \<in> set (List.map_filter ev_bind (g_env_spec rnd)). context_free b"
  by (simp add: g_env_spec_def List.map_filter_def binders_context_free)

lemma spec_bind_context_free:
  "v \<in> set (g_env_spec rnd) \<Longrightarrow> ev_bind v = Some b \<Longrightarrow> context_free b"
  using env_binders_context_free [of rnd] by (force simp: List.map_filter_def)

text \<open>What a variable needs for the load to accept it.\<close>

definition var_accepted :: "process_env \<Rightarrow> strim_env_var \<Rightarrow> bool" where
  "var_accepted getenv v \<longleftrightarrow>
     (if env_absent getenv (ev_name v) then \<not> ev_required v
      else case ev_bind v of
             None \<Rightarrow> True
           | Some b \<Rightarrow> snd (b zero_config (the (getenv (ev_name v)))) = None)"

lemma load_var_accepted:
  assumes "\<And>b. ev_bind v = Some b \<Longrightarrow> context_free b"
  shows "snd (load_var getenv v cfg) = [] \<longleftrightarrow> var_accepted getenv v"
proof (cases "ev_bind v")
  case (Some b)
  then have "snd (b cfg (the (getenv (ev_name v)))) = snd (b zero_config (the (getenv (ev_name v))))"
    using assms by (auto simp: context_free_def)
  then show ?thesis
    using Some by (cases "b cfg (the (getenv (ev_name v)))"; cases "snd (b cfg (the (getenv (ev_name v))))")
      (auto simp: load_var_def var_accepted_def split: option.splits)
qed (simp add: load_var_def var_accepted_def)

lemma load_loop_accepted:
  assumes "\<And>v b. v \<in> set vs \<Longrightarrow> ev_bind v = Some b \<Longrightarrow> context_free b"
  shows "snd (load_loop getenv vs cfg) = [] \<longleftrightarrow> (\<forall>v \<in> set vs. var_accepted getenv v)"
  using assms
proof (induction vs arbitrary: cfg)
  case (Cons v vs)
  have "snd (load_var getenv v cfg) = [] \<longleftrightarrow> var_accepted getenv v"
    by (rule load_var_accepted) (use Cons.prems in auto)
  moreover have "snd (load_loop getenv vs c1) = [] \<longleftrightarrow> (\<forall>v \<in> set vs. var_accepted getenv v)" for c1
    by (rule Cons.IH) (use Cons.prems in auto)
  ultimately show ?case
    by (simp add: case_prod_unfold)
qed simp

lemma load_config_ok_iff:
  "fst (load_config rnd getenv) = 0 \<longleftrightarrow> (\<forall>v \<in> set (g_env_spec rnd). var_accepted getenv v)"
proof -
  have "snd (load_loop getenv (g_env_spec rnd) zero_config) = [] \<longleftrightarrow>
      (\<forall>v \<in> set (g_env_spec rnd). var_accepted getenv v)"
    by (rule load_loop_accepted) (rule spec_bind_context_free)
  then show ?thesis
    by (simp add: load_config_def case_prod_unfold)
qed

lemma check_env_missing_iff:
  "check_env_missing getenv vs = [] \<longleftrightarrow>
     (\<forall>v \<in> set vs. ev_required v \<longrightarrow> \<not> env_absent getenv (ev_name v))"
  by (auto simp: check_env_missing_def filter_empty_conv)

text \<open>
  C15: Loading the configuration succeeds exactly when the pre-flight \<open>check_env\<close>
  reports nothing missing and every variable that is set and has a parser parses;
  the outcome does not depend on the order of the variables or on what was bound
  before.
\<close>

theorem load_config_succeeds_iff:
  "fst (load_config rnd getenv) = 0 \<longleftrightarrow>
     check_env rnd getenv = (0, []) \<and>
     list_all (\<lambda>v. env_absent getenv (ev_name v) \<or> ev_bind v = None \<or>
                snd (the (ev_bind v) zero_config (the (getenv (ev_name v)))) = None)
       (g_env_spec rnd)"
proof -
  have "var_accepted getenv v \<longleftrightarrow>
      (ev_required v \<longrightarrow> \<not> env_absent getenv (ev_name v)) \<and>
      (env_absent getenv (ev_name v) \<or> ev_bind v = None \<or>
       snd (the (ev_bind v) zero_config (the (getenv (ev_name v)))) = None)" for v
    by (cases "ev_bind v") (auto simp: var_accepted_def)
  then show ?thesis
    by (auto simp: load_config_ok_iff check_env_def Let_def check_env_missing_iff list_all_iff)
qed

section \<open>No field overflows its buffer\<close>

definition container_fits :: "strim_container_config \<Rightarrow> bool" where
  "container_fits cc \<longleftrightarrow>
     length (container_id cc) < STRIM_CFG_ID_MAX \<and> length (snapshot_id cc) < STRIM_CFG_SNAP_MAX \<and>
     length (image_name cc) < STRIM_CFG_IMAGE_MAX \<and> length (logfile cc) < STRIM_CFG_PATH_MAX"

definition config_fits :: "strim_config \<Rightarrow> bool" where
  "config_fits c \<longleftrightarrow>
     length (containerd_socket c) < 256 \<and> length (containerd_namespace c) < 128 \<and>
     length (controller_http_port c) < 32 \<and> length (host_root c) < STRIM_CFG_PATH_MAX \<and>
     container_fits (mediamtx c) \<and> container_fits (normalize c) \<and>
     container_fits (scale_and_egress c) \<and> container_fits (single_stage_egress c)"

definition keeps_fit :: "env_bind \<Rightarrow> bool" where
  "keeps_fit b \<longleftrightarrow> (\<forall>c raw. config_fits c \<longrightarrow> config_fits (fst (b c raw)))"

lemma store_str_fst:
  "fst (store (bind_str cap (Some raw)) upd c) = (if length raw < cap then upd raw else c)"
  by (auto simp: store_def bind_str_def)

lemma store_str_chain_fst:
  "fst (case store (bind_str cap (Some raw)) upd c of
          (c1, Some err) \<Rightarrow> (c1, Some err) | (c1, None) \<Rightarrow> k c1) =
     (if length raw < cap then fst (k (upd raw)) else c)"
  by (auto simp: store_def bind_str_def)

lemma config_fits_scalar:
  "config_fits c \<Longrightarrow> config_fits (fst (store r (\<lambda>v. c\<lparr>reconcile_interval_ms := v\<rparr>) c))"
  "config_fits c \<Longrightarrow> config_fits (fst (store r (\<lambda>v. c\<lparr>cfg_inflight_ms := v\<rparr>) c))"
  "config_fits c \<Longrightarrow> config_fits (fst (store r (\<lambda>v. c\<lparr>shutdown_timeout_ms := v\<rparr>) c))"
  "config_fits c \<Longrightarrow> config_fits (fst (store r (\<lambda>v. c\<lparr>stage_stop_timeout_ms := v\<rparr>) c))"
  "config_fits c \<Longrightarrow> config_fits (fst (store r (\<lambda>v. c\<lparr>websocket_write_timeout_ms := v\<rparr>) c))"
  "config_fits c \<Longrightarrow> config_fits (fst (store r' (\<lambda>v. c\<lparr>cfg_actions_buffer := v\<rparr>) c))"
  "config_fits c \<Longrightarrow> config_fits (fst (store r'' (\<lambda>v. c\<lparr>enable_single_stage_pipeline := v\<rparr>) c))"
  by (simp_all add: config_fits_def store_def split: sum.splits)

lemma config_fits_string:
  "config_fits c \<Longrightarrow> length s < 256 \<Longrightarrow> config_fits (c\<lparr>containerd_socket := s\<rparr>)"
  "config_fits c \<Longrightarrow> length s < 128 \<Longrightarrow> config_fits (c\<lparr>containerd_namespace := s\<rparr>)"
  "config_fits c \<Longrightarrow> length s < 32 \<Longrightarrow> config_fits (c\<lparr>controller_http_port := s\<rparr>)"
  "config_fits c \<Longrightarrow> length s < 1024 \<Longrightarrow> config_fits (c\<lparr>host_root := s\<rparr>)"
  "config_fits c \<Longrightarrow> container_fits cc \<Longrightarrow> config_fits (c\<lparr>mediamtx := cc\<rparr>)"
  "config_fits c \<Longrightarrow> container_fits cc \<Longrightarrow> config_fits (c\<lparr>normalize := cc\<rparr>)"
  "config_fits c \<Longrightarrow> container_fits cc \<Longrightarrow> config_fits (c\<lparr>scale_and_egress := cc\<rparr>)"
  "config_fits c \<Longrightarrow> container_fits cc \<Longrightarrow> config_fits (c\<lparr>single_stage_egress := cc\<rparr>)"
  by (simp_all add: config_fits_def)

lemma container_fits_string:
  "container_fits cc \<Longrightarrow> length s < 128 \<Longrightarrow> container_fits (cc\<lparr>container_id := s\<rparr>)"
  "container_fits cc \<Longrightarrow> length s < 256 \<Longrightarrow> container_fits (cc\<lparr>snapshot_id := s\<rparr>)"
  "container_fits cc \<Longrightarrow> length s < 512 \<Longrightarrow> container_fits (cc\<lparr>image_name := s\<rparr>)"
  "container_fits cc \<Longrightarrow> length s < 1024 \<Longrightarrow> container_fits (cc\<lparr>logfile := s\<rparr>)"
  by (simp_all add: container_fits_def)

lemma config_fits_parts:
  assumes "config_fits c"
  shows "container_fits (mediamtx c)" "container_fits (normalize c)"
    "container_fits (scale_and_egress c)" "container_fits (single_stage_egress c)"
  using assms by (simp_all add: config_fits_def)

lemma binders_keep_fit:
  "keeps_fit env_containerd_socket" "keeps_fit env_containerd_namespace" "keeps_fit env_http_port"
  "keeps_fit env_host_root" "keeps_fit env_mediamtx_id" "keeps_fit env_mediamtx_snapshot"
  "keeps_fit env_mediamtx_image" "keeps_fit env_mediamtx_log" "keeps_fit env_normalize_id"
  "keeps_fit env_normalize_snapshot" "keeps_fit env_normalize_log" "keeps_fit env_egress_id"
  "keeps_fit env_single_egress_id" "keeps_fit env_actions_buffer" "keeps_fit env_single_stage"
  "keeps_fit (env_reconcile_interval rnd)" "keeps_fit (env_inflight_timeout rnd)"
  "keeps_fit (env_shutdown_timeout rnd)" "keeps_fit (env_stage_stop_timeout rnd)"
  "keeps_fit (env_ws_write_timeout rnd)" "keeps_fit env_egress_snapshot"
  "keeps_fit env_egress_log" "keeps_fit env_ffmpeg_image"
  by (simp_all add: keeps_fit_def env_binders store_str_fst store_str_chain_fst config_fits_scalar
      config_fits_string container_fits_string config_fits_parts)

lemma env_binders_keep_fit:
  "\<forall>b \<in> set (List.map_filter ev_bind (g_env_spec rnd)). keeps_fit b"
  by (simp add: g_env_spec_def List.map_filter_def binders_keep_fit)

lemma load_var_fits:
  assumes "\<And>b. ev_bind v = Some b \<Longrightarrow> keeps_fit b" and "config_fits cfg"
  shows "config_fits (fst (load_var getenv v cfg))"
proof (cases "ev_bind v")
  case (Some b)
  then have "config_fits (fst (b cfg (the (getenv (ev_name v)))))"
    using assms by (auto simp: keeps_fit_def)
  then show ?thesis
    using Some assms(2) by (auto simp: load_var_def split: prod.splits option.splits)
qed (use assms(2) in \<open>simp add: load_var_def\<close>)

lemma load_loop_fits:
  assumes "\<And>v b. v \<in> set vs \<Longrightarrow> ev_bind v = Some b \<Longrightarrow> keeps_fit b" and "config_fits cfg"
  shows "config_fits (fst (load_loop getenv vs cfg))"
  using assms
proof (induction vs arbitrary: cfg)
  case (Cons v vs)
  have "config_fits (fst (load_var getenv v cfg))"
    by (rule load_var_fits) (use Cons.prems in auto)
  then have "config_fits (fst (load_loop getenv vs (fst (load_var getenv v cfg))))"
    by (rule Cons.IH [rotated]) (use Cons.prems in auto)
  then show ?case
    by (simp add: case_prod_unfold)
qed simp

text \<open>
  Whatever the environment holds, and whether or not the load succeeds, every string
  of the resulting configuration fits its fixed-size field with room for the
  terminating NUL.
\<close>

lemma load_config_never_overflows:
  "config_fits (fst (snd (load_config rnd getenv)))"
proof -
  have "config_fits (fst (load_loop getenv (g_env_spec rnd) zero_config))"
  proof (rule load_loop_fits)
    show "config_fits zero_config"
      by (simp add: config_fits_def container_fits_def zero_config_def zero_container_config_def)
    show "keeps_fit b" if "v \<in> set (g_env_spec rnd)" "ev_bind v = Some b" for v b
      using that env_binders_keep_fit [of rnd] by (force simp: List.map_filter_def)
  qed
  then show ?thesis
    by (simp add: load_config_def case_prod_unfold)
qed

section \<open>The values loaded\<close>

declare load_loop.simps(2) [simp del]

lemma load_loop_Cons_ok:
  "load_loop getenv (v # vs) cfg = (cfg', []) \<longleftrightarrow>
     (\<exists>c1. load_var getenv v cfg = (c1, []) \<and> load_loop getenv vs c1 = (cfg', []))"
  by (cases "load_var getenv v cfg"; cases "load_loop getenv vs (fst (load_var getenv v cfg))")
    (simp add: load_loop.simps(2), blast)

lemma load_required_ok:
  "load_var getenv (env_var n g True e com (Some b)) cfg = (c1, []) \<longleftrightarrow>
     (\<exists>raw. getenv n = Some raw \<and> raw \<noteq> [] \<and> b cfg raw = (c1, None))"
  by (auto simp: load_var_def env_absent_def split: option.splits prod.splits)

lemma load_guard_ok:
  "load_var getenv (env_var n g True e com None) cfg = (c1, []) \<longleftrightarrow>
     (\<exists>raw. getenv n = Some raw \<and> raw \<noteq> []) \<and> c1 = cfg"
  by (auto simp: load_var_def env_absent_def)

lemma load_optional_ok:
  "load_var getenv (env_var n g False e com (Some b)) cfg = (c1, []) \<longleftrightarrow>
     (if env_absent getenv n then c1 = cfg else b cfg (the (getenv n)) = (c1, None))"
  by (cases "b cfg (the (getenv n))"; cases "snd (b cfg (the (getenv n)))")
    (auto simp: load_var_def)

lemma load_single_stage_ok:
  "load_var getenv (env_var n g False e com (Some env_single_stage)) cfg = (c1, []) \<longleftrightarrow>
     (\<exists>v. (if env_absent getenv n then v = enable_single_stage_pipeline cfg
           else bind_bool (getenv n) = Inr v) \<and>
          c1 = cfg\<lparr>enable_single_stage_pipeline := v\<rparr>)"
  unfolding load_optional_ok by (cases "getenv n") (auto simp: env_absent_def env_single_stage_def)

lemma load_single_egress_ok:
  "load_var getenv (env_var n g False e com (Some env_single_egress_id)) cfg = (c1, []) \<longleftrightarrow>
     (\<exists>v. (if env_absent getenv n then v = container_id (single_stage_egress cfg)
           else getenv n = Some v \<and> length v < 128) \<and>
          c1 = cfg\<lparr>single_stage_egress := (single_stage_egress cfg)\<lparr>container_id := v\<rparr>\<rparr>)"
  unfolding load_optional_ok
  by (cases "getenv n") (auto simp: env_absent_def env_single_egress_id_def)

lemma load_unread_ok:
  "load_var getenv (env_var n g False e com None) cfg = (c1, []) \<longleftrightarrow> c1 = cfg"
  by (auto simp: load_var_def)

lemma store_chain_ok:
  "(case store r upd c of (c1, Some err) \<Rightarrow> (c1, Some err) | (c1, None) \<Rightarrow> k c1) = (c', None) \<longleftrightarrow>
     (\<exists>v. r = Inr v \<and> k (upd v) = (c', None))"
  by (auto simp: store_def split: sum.splits)

lemmas load_ok =
  load_loop_Cons_ok load_required_ok load_guard_ok load_single_stage_ok load_single_egress_ok
  load_unread_ok store_chain_ok

text \<open>Each field of the config against the variable it is read from.\<close>

definition loaded_values :: "(dbl \<Rightarrow> dbl) \<Rightarrow> process_env \<Rightarrow> strim_config \<Rightarrow> bool" where
  "loaded_values rnd getenv cfg \<longleftrightarrow>
    list_all (\<lambda>(name, field). getenv name = Some field)
      [(''CONTAINERD_SOCKET'', containerd_socket cfg),
       (''CONTAINERD_NAMESPACE'', containerd_namespace cfg),
       (''CONTROLLER_HTTP_PORT'', controller_http_port cfg),
       (''STRIMSERVER_HOST_ROOT'', host_root cfg),
       (''MEDIAMTX_CONTAINER_ID'', container_id (mediamtx cfg)),
       (''MEDIAMTX_SNAPSHOT_ID'', snapshot_id (mediamtx cfg)),
       (''MEDIAMTX_IMAGE_NAME'', image_name (mediamtx cfg)),
       (''MEDIAMTX_LOG_FILE'', logfile (mediamtx cfg)),
       (''NORMALIZE_CONTAINER_ID'', container_id (normalize cfg)),
       (''NORMALIZE_SNAPSHOT_ID'', snapshot_id (normalize cfg)),
       (''NORMALIZE_LOG_FILE'', logfile (normalize cfg)),
       (''FFMPEG_IMAGE_NAME'', image_name (normalize cfg)),
       (''EGRESS_CONTAINER_ID'', container_id (scale_and_egress cfg)),
       (''EGRESS_SNAPSHOT_ID'', snapshot_id (scale_and_egress cfg)),
       (''EGRESS_LOG_FILE'', logfile (scale_and_egress cfg)),
       (''FFMPEG_IMAGE_NAME'', image_name (scale_and_egress cfg)),
       (''EGRESS_SNAPSHOT_ID'', snapshot_id (single_stage_egress cfg)),
       (''EGRESS_LOG_FILE'', logfile (single_stage_egress cfg)),
       (''FFMPEG_IMAGE_NAME'', image_name (single_stage_egress cfg))] \<and>
    list_all (\<lambda>(name, field). bind_duration_ms rnd (the (getenv name)) = Some field)
      [(''CONTROLLER_RECONCILE_INTERVAL'', reconcile_interval_ms cfg),
       (''CONTROLLER_INFLIGHT_TIMEOUT'', cfg_inflight_ms cfg),
       (''CONTROLLER_SHUTDOWN_TIMEOUT'', shutdown_timeout_ms cfg),
       (''STAGE_STOP_TIMEOUT'', stage_stop_timeout_ms cfg),
       (''WEBSOCKET_WRITE_TIMEOUT'', websocket_write_timeout_ms cfg)] \<and>
    bind_uint8 (getenv ''CONTROLLER_ACTIONS_BUFFER_SIZE'') = Inr (cfg_actions_buffer cfg) \<and>
    (if env_absent getenv ''ENABLE_SINGLE_STAGE_PIPELINE''
     then \<not> enable_single_stage_pipeline cfg
     else bind_bool (getenv ''ENABLE_SINGLE_STAGE_PIPELINE'') =
            Inr (enable_single_stage_pipeline cfg)) \<and>
    (if env_absent getenv ''SINGLE_STAGE_EGRESS_CONTAINER_ID''
     then container_id (single_stage_egress cfg) = []
     else getenv ''SINGLE_STAGE_EGRESS_CONTAINER_ID'' =
            Some (container_id (single_stage_egress cfg)))"

lemma load_loop_values:
  assumes "load_loop getenv (g_env_spec rnd) zero_config = (cfg, [])"
  shows "loaded_values rnd getenv cfg"
  using assms
  apply (simp add: g_env_spec_def load_ok env_binders zero_config_def zero_container_config_def)
  apply (elim exE conjE)
  apply (simp add: loaded_values_def)
  done

text \<open>
  C16: After a successful load, every field of the configuration holds the value of its own
  variable: the string fields verbatim (the shared ffmpeg image and egress settings in
  each of their containers), the durations and the buffer size as parsed, the
  single-stage toggle off unless it was set.
\<close>

theorem load_config_values:
  assumes "load_config rnd getenv = (0, cfg, errs)"
  shows "errs = [] \<and> loaded_values rnd getenv cfg"
  using assms load_loop_values [of getenv rnd cfg]
  by (auto simp: load_config_def split: prod.splits if_splits)

section \<open>The documented example environment\<close>

text \<open>
  The environment that \<open>-print-env-example\<close> describes, with the one required variable
  that has an empty example, the stream key, filled in.
\<close>

definition example_env :: process_env where
  "example_env n =
     (if n = ''TWITCH_STREAM_KEY'' then Some ''live_key''
      else map_option ev_example (find (\<lambda>v. ev_name v = n) (g_env_spec (\<lambda>x. x))))"

lemmas duration_eval =
  bind_duration_ms_def parse_go_duration_def scan_parts.simps scan_number_def scan_unit.simps
  is_digit_def digit_val_def trunc_dbl_def ns_to_ms_def i64_def c_quot_def Let_def

lemma example_durations:
  "bind_duration_ms (\<lambda>x. x) ''5s'' = Some 5000"
  "bind_duration_ms (\<lambda>x. x) ''10s'' = Some 10000"
  "bind_duration_ms (\<lambda>x. x) ''30s'' = Some 30000"
  by (simp_all add: duration_eval)

lemma example_uint8: "bind_uint8 (Some ''16'') = Inr 16"
  by (simp add: bind_uint8_def strtoul10_def c_isspace_def is_digit_def digit_val_def Let_def)

lemma spec_names_distinct: "distinct (map ev_name (g_env_spec rnd))"
  by (simp add: g_env_spec_def)

lemma find_by_name:
  "distinct (map ev_name vs) \<Longrightarrow> v \<in> set vs \<Longrightarrow> find (\<lambda>w. ev_name w = ev_name v) vs = Some v"
  by (induction vs) (auto simp: image_iff)

lemma example_env_row:
  "v \<in> set (g_env_spec (\<lambda>x. x)) \<Longrightarrow> ev_name v \<noteq> ''TWITCH_STREAM_KEY'' \<Longrightarrow>
     example_env (ev_name v) = Some (ev_example v)"
  by (simp add: example_env_def find_by_name [OF spec_names_distinct])

lemma example_rows_accepted:
  "list_all (\<lambda>v. if ev_name v = ''TWITCH_STREAM_KEY'' then ev_bind v = None else
      (if ev_example v = [] then \<not> ev_required v
       else case ev_bind v of None \<Rightarrow> True
            | Some b \<Rightarrow> snd (b zero_config (ev_example v)) = None))
     (g_env_spec (\<lambda>x. x))"
  by (simp add: g_env_spec_def env_binders store_def bind_str_def bind_bool_def bind_duration_def
      example_durations example_uint8)

lemma example_env_loads: "fst (load_config (\<lambda>x. x) example_env) = 0"
  unfolding load_config_ok_iff
proof
  fix v assume v: "v \<in> set (g_env_spec (\<lambda>x. x))"
  have row: "if ev_name v = ''TWITCH_STREAM_KEY'' then ev_bind v = None else
      (if ev_example v = [] then \<not> ev_required v
       else case ev_bind v of None \<Rightarrow> True
            | Some b \<Rightarrow> snd (b zero_config (ev_example v)) = None)"
    using v example_rows_accepted unfolding list_all_iff by blast
  show "var_accepted example_env v"
  proof (cases "ev_name v = ''TWITCH_STREAM_KEY''")
    case True
    then show ?thesis
      using row by (simp add: var_accepted_def env_absent_def example_env_def)
  next
    case False
    then show ?thesis
      using row example_env_row [OF v]
      by (cases "ev_bind v") (simp_all add: var_accepted_def env_absent_def split: if_splits)
  qed
qed

theorem load_config_values_witness:
  "\<exists>cfg. load_config (\<lambda>x. x) example_env = (0, cfg, []) \<and>
     loaded_values (\<lambda>x. x) example_env cfg"
proof -
  obtain rc cfg errs where l: "load_config (\<lambda>x. x) example_env = (rc, cfg, errs)"
    by (cases "load_config (\<lambda>x. x) example_env")
  with example_env_loads have "rc = 0" by simp
  with l load_config_values [of "\<lambda>x. x" example_env cfg errs] show ?thesis by simp
qed


section \<open>Quoting\<close>

lemma quote_char_length: "1 \<le> length (quote_char c) \<and> length (quote_char c) \<le> 4"
  by (simp add: quote_char_def)

lemma quote_loop_length:
  "length acc + 4 < cap \<Longrightarrow> length (quote_loop cap acc s) + 4 < cap"
proof (induction s arbitrary: acc)
  case (Cons c s)
  then show ?case using quote_char_length [of c] by auto
qed simp

lemma quote_loop_full:
  "length acc + 4 * length s + 8 < cap \<Longrightarrow> quote_loop cap acc s = acc @ concat (map quote_char s)"
proof (induction s arbitrary: acc)
  case (Cons c s)
  then show ?case using quote_char_length [of c] by simp
qed simp

text \<open>Reading a quoted string back, as a shell or Go's \<open>Unquote\<close> would.\<close>

definition hex_value :: "char \<Rightarrow> nat" where
  "hex_value c = (if is_digit c then digit_val c else of_char c - 87)"

fun unquote_body :: "string \<Rightarrow> string option" where
  "unquote_body [] = None"
| "unquote_body (c # s) =
     (if c = CHR 0x22 then (if s = [] then Some [] else None)
      else if c = CHR 0x5C then
        (case s of
           [] \<Rightarrow> None
         | d # r \<Rightarrow>
             if d = CHR ''x'' then
               (case r of
                  h # l # r' \<Rightarrow>
                    map_option ((#) (char_of (16 * hex_value h + hex_value l))) (unquote_body r')
                | _ \<Rightarrow> None)
             else map_option ((#) (if d = CHR ''n'' then CHR 0x0A else if d = CHR ''r'' then CHR 0x0D
                                   else if d = CHR ''t'' then CHR 0x09 else d)) (unquote_body r))
      else map_option ((#) c) (unquote_body s))"

definition unquote :: "string \<Rightarrow> string option" where
  "unquote s = (case s of [] \<Rightarrow> None | c # r \<Rightarrow> if c = CHR 0x22 then unquote_body r else None)"

lemma hex_value_digit: "hex_value (hex_digit n) = n mod 16"
proof -
  have "d < 16 \<Longrightarrow> d \<in> {0, 1, 2, 3, 4, 5, 6, 7, 8, 9, 10, 11, 12, 13, 14, 15}" for d :: nat
    unfolding insert_iff empty_iff by presburger
  from this [of "n mod 16"] have "n mod 16 \<in> {0, 1, 2, 3, 4, 5, 6, 7, 8, 9, 10, 11, 12, 13, 14, 15}"
    by simp
  then show ?thesis
    by (auto simp: hex_digit_def hex_value_def is_digit_def digit_val_def)
qed

lemma unquote_quote_char: "unquote_body (quote_char c @ s) = map_option ((#) c) (unquote_body s)"
proof -
  have "of_char c div 16 < (16 :: nat)" using nat_of_char_less_256 [of c] by linarith
  then have "16 * (of_char c div 16 mod 16) + of_char c mod 16 = (of_char c :: nat)" by simp
  then have "(char_of (16 * (of_char c div 16 mod 16) + of_char c mod 16 :: nat) :: char) = c"
    by (metis char_of_char)
  then show ?thesis
    by (auto simp: quote_char_def hex_value_digit)
qed

lemma unquote_concat:
  "unquote_body (concat (map quote_char s) @ [CHR 0x22]) = Some s"
  by (induction s) (auto simp: unquote_quote_char)

text \<open>
  Quoting a value into a buffer of at least three bytes never writes past its end,
  the terminating NUL included, and whenever the buffer has four bytes per character to
  spare the quoted text reads back as the value itself.
\<close>

lemma go_quote_bounded_and_faithful:
  "(3 \<le> cap \<longrightarrow> length (go_quote s cap) < cap) \<and>
   (4 * length s + 9 < cap \<longrightarrow> unquote (go_quote s cap) = Some s)"
proof (intro conjI impI)
  assume "3 \<le> cap"
  show "length (go_quote s cap) < cap"
  proof (cases "9 < cap")
    case True
    then show ?thesis
      using quote_loop_length [of "[CHR 0x22]" cap s] by (simp add: go_quote_def)
  next
    case False
    then have "quote_loop cap [CHR 0x22] s = [CHR 0x22]" by (cases s) simp_all
    then show ?thesis using \<open>3 \<le> cap\<close> by (simp add: go_quote_def)
  qed
next
  assume "4 * length s + 9 < cap"
  then show "unquote (go_quote s cap) = Some s"
    using quote_loop_full [of "[CHR 0x22]" s cap] unquote_concat [of s]
    by (simp add: go_quote_def unquote_def)
qed

lemma go_quote_bounded_and_faithful_witness:
  "length (go_quote ''a'' 3) < 3 \<and> unquote (go_quote (CHR 0x22 # ''a/b'') 256) = Some (CHR 0x22 # ''a/b'')"
  using go_quote_bounded_and_faithful [of 3 "''a''"]
    go_quote_bounded_and_faithful [of 256 "CHR 0x22 # ''a/b''"] by simp

end
