(* ===== verification/Controller.thy ===== *)
theory Controller
  imports Wire
begin

text \<open>
  The controller state machine of \<open>core/controller.c\<close> with the types of
  \<open>controller.h\<close>: construction and its validation, the handlers that run on the
  queue thread, listeners, reconcile, teardown and the action dispatch.

  The arrays of the source are lists (\<open>paths\<close> has two entries, \<open>stages\<close> four);
  counted arrays (\<open>listeners\<close>, the route tables) are lists of the counted length.
  A handler takes the controller and returns the code it returns, the controller
  afterwards, and the calls it makes out of the component, in order. The
  controller handle itself is never \<open>NULL\<close> here; other pointer arguments are options.
  Readings of the clock and the success of \<open>malloc\<close> are arguments.
\<close>

section \<open>Types\<close>

record strim_stage_status =
  desired :: c_enum
  actual :: c_enum

record strim_controller_status =
  st_paths :: "c_enum list"
  st_stages :: "strim_stage_status list"

record strim_path_event =
  pe_path :: c_enum
  pe_status :: c_enum

record strim_stage_event =
  se_stage :: c_enum
  se_state :: c_enum

record strim_control_command =
  cc_component :: c_enum
  cc_action :: c_enum

datatype clock = Default_now_ms | Clock_fn fn_ptr

text \<open>\<open>strim_stage_op_cancel\<close>; \<open>current_generation\<close> points into the stage it names.\<close>

record strim_stage_op_cancel =
  cn_generation :: u64
  cn_deadline_ms :: int
  cn_current_generation :: nat
  cn_now_ms :: "clock option"

record strim_route =
  r_path :: c_enum
  r_path_status :: c_enum
  r_component :: c_enum
  r_action :: c_enum
  r_kind :: int
  r_target_stage :: c_enum
  r_target_state :: c_enum
  r_prerequisite :: "fn_ptr option"
  r_prerequisite_userdata :: data_ptr

abbreviation (input) STRIM_ROUTE_PATH_EVENT :: int where "STRIM_ROUTE_PATH_EVENT \<equiv> 0"
abbreviation (input) STRIM_ROUTE_CONTROL :: int where "STRIM_ROUTE_CONTROL \<equiv> 1"

record strim_stage_config =
  sc_name :: c_enum
  sc_status :: strim_stage_status
  sc_start_op :: "fn_ptr option"
  sc_stop_op :: "fn_ptr option"
  sc_op_ctx :: data_ptr

record strim_controller_config =
  cfg_initial_paths :: "c_enum list"
  cfg_stages :: "strim_stage_config list"
  cfg_path_routes :: "strim_route list option"
  cfg_n_path_routes :: nat
  cfg_control_routes :: "strim_route list option"
  cfg_n_control_routes :: nat
  cfg_now_ms :: "fn_ptr option"
  cfg_inflight_timeout_ms :: int
  cfg_actions_buffer_size :: nat

abbreviation (input) STRIM_CTRL_ERR_BADARG :: int where "STRIM_CTRL_ERR_BADARG \<equiv> -1"
abbreviation (input) STRIM_CTRL_ERR_UNKNOWN :: int where "STRIM_CTRL_ERR_UNKNOWN \<equiv> -2"
abbreviation (input) STRIM_CTRL_ERR_PREREQ :: int where "STRIM_CTRL_ERR_PREREQ \<equiv> -3"
abbreviation (input) STRIM_CTRL_ERR_CLOSED :: int where "STRIM_CTRL_ERR_CLOSED \<equiv> -4"
abbreviation (input) STRIM_CTRL_ERR_NOMEM :: int where "STRIM_CTRL_ERR_NOMEM \<equiv> -5"

abbreviation (input) STRIM_CTRL_MAX_LISTENERS :: nat where "STRIM_CTRL_MAX_LISTENERS \<equiv> 16"
abbreviation (input) STRIM_CTRL_WORKERS :: nat where "STRIM_CTRL_WORKERS \<equiv> 4"

text \<open>The action kinds with the payload fields each of them uses.\<close>

datatype strim_action_kind =
    ACTION_PATH_EVENT strim_path_event
  | ACTION_CONTROL strim_control_command
  | ACTION_STAGE_EVENT strim_stage_event
  | ACTION_STATUS
  | ACTION_ADD_LISTENER "fn_ptr option" data_ptr
  | ACTION_REMOVE_LISTENER "fn_ptr option" data_ptr
  | ACTION_RECONCILE
  | ACTION_CLEAR_INFLIGHT c_enum u64
  | ACTION_TEARDOWN

text \<open>
  An action in the queue. \<open>act_owner\<close> is the submitting thread that waits for the
  reply, \<open>None\<close> for a self-allocated action the queue thread frees.
\<close>

record strim_action =
  act_kind :: strim_action_kind
  act_owner :: "nat option"

definition self_allocated :: "strim_action \<Rightarrow> bool" where
  "self_allocated act \<longleftrightarrow> act_owner act = None"

record strim_op_job =
  oj_stage :: c_enum
  oj_op :: fn_ptr
  oj_op_ctx :: data_ptr
  oj_timeout_ms :: int
  oj_cancel :: strim_stage_op_cancel

record strim_workerpool =
  wp_n_threads :: nat
  wp_jobs :: "strim_op_job list"
  wp_shutting_down :: bool

record strim_stage =
  stg_name :: c_enum
  stg_status :: strim_stage_status
  start_op :: "fn_ptr option"
  stop_op :: "fn_ptr option"
  op_ctx :: data_ptr
  in_flight_since :: int
  op_generation :: u64

record strim_listener_entry =
  le_fn :: fn_ptr
  le_userdata :: data_ptr

record strim_controller =
  paths :: "c_enum list"
  stages :: "strim_stage list"
  path_routes :: "strim_route list"
  control_routes :: "strim_route list"
  listeners :: "strim_listener_entry list"
  now_ms :: clock
  inflight_timeout_ms :: int
  actions_buffer_size :: nat
  queue :: "strim_action list"
  q_closed :: bool
  reconcile_queued :: bool
  shutting_down :: bool
  ops_wg :: nat
  pool :: strim_workerpool

text \<open>
  Calls out of the component: a listener with a status snapshot, a stage op run
  synchronously on the queue thread, a snapshot written through \<open>status_out\<close>.
\<close>

datatype effect =
    Listener_call fn_ptr data_ptr strim_controller_status
  | Op_call fn_ptr data_ptr int "strim_stage_op_cancel option"
  | Status_out strim_controller_status

type_synonym handler_result = "int \<times> strim_controller \<times> effect list"

text \<open>
  A prerequisite callback is called with the controller and the route's userdata;
  the function pointers are interpreted by an argument of the handlers.
\<close>

type_synonym prereq_env = "fn_ptr \<Rightarrow> strim_controller \<Rightarrow> data_ptr \<Rightarrow> int"

section \<open>Small helpers\<close>

definition valid_path_status :: "c_enum \<Rightarrow> bool" where
  "valid_path_status s \<longleftrightarrow> as_unsigned s < STRIM_PATH_STATUS_COUNT"

definition valid_stage_state :: "c_enum \<Rightarrow> bool" where
  "valid_stage_state s \<longleftrightarrow> as_unsigned s \<le> as_unsigned STRIM_STAGE_RUNNING"

definition default_now_ms :: "int \<Rightarrow> int \<Rightarrow> int" where
  "default_now_ms tv_sec tv_nsec = tv_sec * 1000 + tv_nsec div 1000000"

definition stage_op_for :: "strim_stage \<Rightarrow> c_enum \<Rightarrow> fn_ptr option" where
  "stage_op_for stage target =
     (if target = STRIM_STAGE_RUNNING then start_op stage else stop_op stage)"

definition route_keys_equal :: "strim_route \<Rightarrow> strim_route \<Rightarrow> int \<Rightarrow> bool" where
  "route_keys_equal a b kind_expected =
     (if kind_expected = STRIM_ROUTE_PATH_EVENT
      then r_path a = r_path b \<and> r_path_status a = r_path_status b
      else r_component a = r_component b \<and> r_action a = r_action b)"

definition find_path_event_route ::
  "strim_controller \<Rightarrow> c_enum \<Rightarrow> c_enum \<Rightarrow> strim_route option" where
  "find_path_event_route c path status =
     List.find (\<lambda>r. r_path r = path \<and> r_path_status r = status) (path_routes c)"

definition find_control_route ::
  "strim_controller \<Rightarrow> c_enum \<Rightarrow> c_enum \<Rightarrow> strim_route option" where
  "find_control_route c component action =
     List.find (\<lambda>r. r_component r = component \<and> r_action r = action) (control_routes c)"

section \<open>Op cancellation handle\<close>

definition strim_stage_op_superseded ::
  "strim_controller \<Rightarrow> strim_stage_op_cancel option \<Rightarrow> bool" where
  "strim_stage_op_superseded c cancel =
     (case cancel of
        None \<Rightarrow> False
      | Some k \<Rightarrow> op_generation (stages c ! cn_current_generation k) \<noteq> cn_generation k)"

definition strim_stage_op_remaining_ms :: "strim_stage_op_cancel option \<Rightarrow> int \<Rightarrow> int" where
  "strim_stage_op_remaining_ms cancel now =
     (case cancel of
        None \<Rightarrow> -1
      | Some k \<Rightarrow> if cn_now_ms k = None then -1 else cn_deadline_ms k - now)"

section \<open>Wait group and worker pool\<close>

definition wg_add :: "nat \<Rightarrow> nat \<Rightarrow> nat" where
  "wg_add n count = count + n"

definition wg_done :: "nat \<Rightarrow> nat" where
  "wg_done count = (if count > 0 then count - 1 else count)"

text \<open>\<open>created\<close> is the number of \<open>pthread_create\<close> calls that succeed.\<close>

definition workerpool_init :: "nat \<Rightarrow> int \<times> strim_workerpool" where
  "workerpool_init created =
     (let n = min created STRIM_CTRL_WORKERS;
          p = \<lparr>wp_n_threads = n, wp_jobs = [], wp_shutting_down = False\<rparr>
      in if n < STRIM_CTRL_WORKERS then (STRIM_CTRL_ERR_NOMEM, p\<lparr>wp_shutting_down := True\<rparr>)
         else (0, p))"

definition workerpool_submit ::
  "bool \<Rightarrow> strim_op_job \<Rightarrow> strim_workerpool \<Rightarrow> int \<times> strim_workerpool" where
  "workerpool_submit alloc_ok job p =
     (if \<not> alloc_ok then (STRIM_CTRL_ERR_NOMEM, p)
      else if wp_shutting_down p then (STRIM_CTRL_ERR_CLOSED, p)
      else (0, p\<lparr>wp_jobs := wp_jobs p @ [job]\<rparr>))"

section \<open>Construction\<close>

text \<open>The checks on one route; \<open>earlier\<close> holds the routes before it in the table.\<close>

definition check_route ::
  "strim_stage list \<Rightarrow> int \<Rightarrow> strim_route list \<Rightarrow> strim_route \<Rightarrow> int" where
  "check_route stgs kind_expected earlier r =
     (if r_kind r \<noteq> kind_expected then STRIM_CTRL_ERR_BADARG
      else if kind_expected = STRIM_ROUTE_PATH_EVENT \<and>
        as_unsigned (r_path r) \<ge> STRIM_PATH_NAME_COUNT then STRIM_CTRL_ERR_BADARG
      else if kind_expected = STRIM_ROUTE_PATH_EVENT \<and>
        \<not> valid_path_status (r_path_status r) then STRIM_CTRL_ERR_BADARG
      else if kind_expected \<noteq> STRIM_ROUTE_PATH_EVENT \<and>
        as_unsigned (r_component r) \<ge> STRIM_COMPONENT_COUNT then STRIM_CTRL_ERR_BADARG
      else if kind_expected \<noteq> STRIM_ROUTE_PATH_EVENT \<and>
        as_unsigned (r_action r) \<ge> STRIM_ACTION_COUNT then STRIM_CTRL_ERR_BADARG
      else if as_unsigned (r_target_stage r) \<ge> STRIM_STAGE_NAME_COUNT
        then STRIM_CTRL_ERR_BADARG
      else if \<not> valid_stage_state (r_target_state r) then STRIM_CTRL_ERR_BADARG
      else if stage_op_for (stgs ! as_unsigned (r_target_stage r)) (r_target_state r) = None
        then STRIM_CTRL_ERR_BADARG
      else if list_ex (\<lambda>q. route_keys_equal q r kind_expected) earlier
        then STRIM_CTRL_ERR_BADARG
      else 0)"

fun check_routes ::
  "strim_stage list \<Rightarrow> int \<Rightarrow> strim_route list \<Rightarrow> strim_route list \<Rightarrow> int" where
  "check_routes stgs kind_expected earlier [] = 0"
| "check_routes stgs kind_expected earlier (r # rs) =
     (let rc = check_route stgs kind_expected earlier r
      in if rc \<noteq> 0 then rc else check_routes stgs kind_expected (earlier @ [r]) rs)"

definition validate_and_copy_routes ::
  "bool \<Rightarrow> strim_stage list \<Rightarrow> strim_route list option \<Rightarrow> nat \<Rightarrow> int \<Rightarrow> int \<times> strim_route list" where
  "validate_and_copy_routes alloc_ok stgs src n kind_expected =
     (if n > 0 \<and> src = None then (STRIM_CTRL_ERR_BADARG, [])
      else if n > 0 \<and> \<not> alloc_ok then (STRIM_CTRL_ERR_NOMEM, [])
      else let copy = (if n > 0 then take n (the src) else []);
               rc = check_routes stgs kind_expected [] copy
           in if rc \<noteq> 0 then (rc, []) else (0, copy))"

text \<open>The allocations and thread creations of \<open>strim_controller_new\<close>.\<close>

record new_env =
  ne_calloc :: bool
  ne_path_copy :: bool
  ne_control_copy :: bool
  ne_threads :: nat

definition init_stage :: "strim_stage_config \<Rightarrow> strim_stage" where
  "init_stage sc =
     \<lparr>stg_name = sc_name sc, stg_status = sc_status sc, start_op = sc_start_op sc,
      stop_op = sc_stop_op sc, op_ctx = sc_op_ctx sc, in_flight_since = 0, op_generation = 0\<rparr>"

definition check_stage_config :: "nat \<Rightarrow> strim_stage_config \<Rightarrow> bool" where
  "check_stage_config i sc \<longleftrightarrow>
     sc_name sc = int i \<and> valid_stage_state (desired (sc_status sc)) \<and>
     valid_stage_state (actual (sc_status sc))"

definition strim_controller_new ::
  "new_env \<Rightarrow> strim_controller_config option \<Rightarrow> bool \<Rightarrow> int \<times> strim_controller option" where
  "strim_controller_new e cfg_ptr out_ok =
     (case cfg_ptr of
        None \<Rightarrow> (STRIM_CTRL_ERR_BADARG, None)
      | Some cfg \<Rightarrow>
          if \<not> out_ok then (STRIM_CTRL_ERR_BADARG, None)
          else if cfg_inflight_timeout_ms cfg \<le> 0 then (STRIM_CTRL_ERR_BADARG, None)
          else if cfg_actions_buffer_size cfg = 0 then (STRIM_CTRL_ERR_BADARG, None)
          else if \<not> list_all valid_path_status (cfg_initial_paths cfg)
            then (STRIM_CTRL_ERR_BADARG, None)
          else if \<not> ne_calloc e then (STRIM_CTRL_ERR_NOMEM, None)
          else if \<not> list_all (\<lambda>i. check_stage_config i (cfg_stages cfg ! i))
                       [0..<STRIM_STAGE_NAME_COUNT]
            then (STRIM_CTRL_ERR_BADARG, None)
          else let stgs = map init_stage (cfg_stages cfg);
                   pr = validate_and_copy_routes (ne_path_copy e) stgs (cfg_path_routes cfg)
                          (cfg_n_path_routes cfg) STRIM_ROUTE_PATH_EVENT
               in if fst pr \<noteq> 0 then (fst pr, None)
          else let cr = validate_and_copy_routes (ne_control_copy e) stgs
                          (cfg_control_routes cfg) (cfg_n_control_routes cfg)
                          STRIM_ROUTE_CONTROL
               in if fst cr \<noteq> 0 then (fst cr, None)
          else let wp = workerpool_init (ne_threads e)
               in if fst wp \<noteq> 0 then (fst wp, None)
          else (0, Some
            \<lparr>paths = cfg_initial_paths cfg, stages = stgs,
             path_routes = snd pr, control_routes = snd cr, listeners = [],
             now_ms = (case cfg_now_ms cfg of None \<Rightarrow> Default_now_ms | Some f \<Rightarrow> Clock_fn f),
             inflight_timeout_ms = cfg_inflight_timeout_ms cfg,
             actions_buffer_size = cfg_actions_buffer_size cfg,
             queue = [], q_closed = False, reconcile_queued = False,
             shutting_down = False, ops_wg = 0, pool = snd wp\<rparr>))"

section \<open>Status snapshot and listener dispatch\<close>

definition upd_stage :: "nat \<Rightarrow> (strim_stage \<Rightarrow> strim_stage) \<Rightarrow> strim_controller \<Rightarrow> strim_controller" where
  "upd_stage i f c = c\<lparr>stages := (stages c)[i := f (stages c ! i)]\<rparr>"

definition status_snapshot :: "strim_controller \<Rightarrow> strim_controller_status" where
  "status_snapshot c = \<lparr>st_paths = paths c, st_stages = map stg_status (stages c)\<rparr>"

text \<open>\<open>out\<close> tells whether the caller passed a buffer.\<close>

definition strim_controller_handle_status :: "bool \<Rightarrow> strim_controller \<Rightarrow> handler_result" where
  "strim_controller_handle_status out c =
     (if \<not> out then (STRIM_CTRL_ERR_BADARG, c, []) else (0, c, [Status_out (status_snapshot c)]))"

definition notify_listeners :: "strim_controller \<Rightarrow> effect list" where
  "notify_listeners c =
     (if length (listeners c) = 0 then []
      else let snapshot = status_snapshot c
           in map (\<lambda>l. Listener_call (le_fn l) (le_userdata l) snapshot) (listeners c))"

section \<open>Event and command handlers\<close>

definition set_desired :: "c_enum \<Rightarrow> strim_stage \<Rightarrow> strim_stage" where
  "set_desired v s = s\<lparr>stg_status := (stg_status s)\<lparr>desired := v\<rparr>\<rparr>"

definition set_actual :: "c_enum \<Rightarrow> strim_stage \<Rightarrow> strim_stage" where
  "set_actual v s = s\<lparr>stg_status := (stg_status s)\<lparr>actual := v\<rparr>\<rparr>"

definition set_in_flight :: "int \<Rightarrow> strim_stage \<Rightarrow> strim_stage" where
  "set_in_flight v s = s\<lparr>in_flight_since := v\<rparr>"

definition apply_desired_stage_target ::
  "prereq_env \<Rightarrow> strim_route \<Rightarrow> strim_controller \<Rightarrow> handler_result" where
  "apply_desired_stage_target penv target c =
     (let i = as_unsigned (r_target_stage target) in
      if desired (stg_status (stages c ! i)) = r_target_state target then (0, c, [])
      else if (case r_prerequisite target of
                 None \<Rightarrow> False
               | Some f \<Rightarrow> penv f c (r_prerequisite_userdata target) \<noteq> 0)
        then (STRIM_CTRL_ERR_PREREQ, c, [])
      else let c1 = upd_stage i (set_desired (r_target_state target)) c
           in (0, c1, notify_listeners c1))"

definition strim_controller_handle_path_event ::
  "prereq_env \<Rightarrow> strim_path_event option \<Rightarrow> strim_controller \<Rightarrow> handler_result" where
  "strim_controller_handle_path_event penv e_ptr c =
     (case e_ptr of
        None \<Rightarrow> (STRIM_CTRL_ERR_BADARG, c, [])
      | Some e \<Rightarrow>
          if as_unsigned (pe_path e) \<ge> STRIM_PATH_NAME_COUNT
            then (STRIM_CTRL_ERR_UNKNOWN, c, [])
          else if \<not> valid_path_status (pe_status e) then (STRIM_CTRL_ERR_BADARG, c, [])
          else let c1 = c\<lparr>paths := (paths c)[as_unsigned (pe_path e) := pe_status e]\<rparr>
               in case find_path_event_route c1 (pe_path e) (pe_status e) of
                    None \<Rightarrow> (0, c1, [])
                  | Some route \<Rightarrow> apply_desired_stage_target penv route c1)"

definition strim_controller_handle_control ::
  "prereq_env \<Rightarrow> strim_control_command option \<Rightarrow> strim_controller \<Rightarrow> handler_result" where
  "strim_controller_handle_control penv cmd_ptr c =
     (case cmd_ptr of
        None \<Rightarrow> (STRIM_CTRL_ERR_BADARG, c, [])
      | Some cmd \<Rightarrow>
          if as_unsigned (cc_component cmd) \<ge> STRIM_COMPONENT_COUNT
            then (STRIM_CTRL_ERR_UNKNOWN, c, [])
          else if as_unsigned (cc_action cmd) \<ge> STRIM_ACTION_COUNT
            then (STRIM_CTRL_ERR_UNKNOWN, c, [])
          else case find_control_route c (cc_component cmd) (cc_action cmd) of
                 None \<Rightarrow> (STRIM_CTRL_ERR_UNKNOWN, c, [])
               | Some route \<Rightarrow> apply_desired_stage_target penv route c)"

definition strim_controller_handle_stage_event ::
  "strim_stage_event option \<Rightarrow> strim_controller \<Rightarrow> handler_result" where
  "strim_controller_handle_stage_event e_ptr c =
     (case e_ptr of
        None \<Rightarrow> (STRIM_CTRL_ERR_BADARG, c, [])
      | Some e \<Rightarrow>
          if as_unsigned (se_stage e) \<ge> STRIM_STAGE_NAME_COUNT
            then (STRIM_CTRL_ERR_UNKNOWN, c, [])
          else if \<not> valid_stage_state (se_state e) then (STRIM_CTRL_ERR_BADARG, c, [])
          else let i = as_unsigned (se_stage e);
                   changed = (actual (stg_status (stages c ! i)) \<noteq> se_state e);
                   c1 = upd_stage i (set_in_flight 0 \<circ> set_actual (se_state e)) c
               in (0, c1, if changed then notify_listeners c1 else []))"

section \<open>Reconcile\<close>

text \<open>
  What one iteration of the reconcile loop reads from its environment: the clock
  at the \<open>planReconcile\<close> test and again at the fire, and the two allocations.
\<close>

record fire_env =
  fe_now_plan :: int
  fe_now_fire :: int
  fe_job_alloc :: bool
  fe_node_alloc :: bool

definition reconcile_due :: "fire_env \<Rightarrow> strim_controller \<Rightarrow> strim_stage \<Rightarrow> bool" where
  "reconcile_due e c stage \<longleftrightarrow>
     in_flight_since stage = 0 \<or>
     fe_now_plan e - in_flight_since stage \<ge> inflight_timeout_ms c"

definition mark_fired :: "int \<Rightarrow> strim_stage \<Rightarrow> strim_stage" where
  "mark_fired now s = s\<lparr>in_flight_since := now, op_generation := op_generation s + 1\<rparr>"

definition undo_fired :: "strim_stage \<Rightarrow> strim_stage" where
  "undo_fired s = s\<lparr>in_flight_since := 0, op_generation := op_generation s - 1\<rparr>"

definition make_job :: "int \<Rightarrow> nat \<Rightarrow> fn_ptr \<Rightarrow> strim_controller \<Rightarrow> strim_op_job" where
  "make_job now i op c =
     \<lparr>oj_stage = int i, oj_op = op, oj_op_ctx = op_ctx (stages c ! i),
      oj_timeout_ms = inflight_timeout_ms c,
      oj_cancel = \<lparr>cn_generation = op_generation (stages c ! i),
                   cn_deadline_ms = now + inflight_timeout_ms c,
                   cn_current_generation = i, cn_now_ms = Some (now_ms c)\<rparr>\<rparr>"

text \<open>
  The fire section of one stage, the part that runs under \<open>q_lock\<close>, as one step: when the pool
  refuses the job, the bump of the generation and its undo, which an op of the stage could
  see in between, are not separate states.
\<close>

definition fire_stage :: "fire_env \<Rightarrow> nat \<Rightarrow> fn_ptr \<Rightarrow> strim_controller \<Rightarrow> strim_controller" where
  "fire_stage e i op c =
     (if shutting_down c then c
      else if \<not> fe_job_alloc e then c
      else let now = fe_now_fire e;
               c1 = upd_stage i (mark_fired now) c;
               job = make_job now i op c1;
               c2 = c1\<lparr>ops_wg := wg_add 1 (ops_wg c1)\<rparr>;
               sub = workerpool_submit (fe_node_alloc e) job (pool c2)
           in if fst sub \<noteq> 0
              then upd_stage i undo_fired (c2\<lparr>ops_wg := wg_done (ops_wg c2)\<rparr>)
              else c2\<lparr>pool := snd sub\<rparr>)"

definition reconcile_stage :: "fire_env \<Rightarrow> nat \<Rightarrow> strim_controller \<Rightarrow> strim_controller" where
  "reconcile_stage e i c =
     (let stage = stages c ! i in
      if desired (stg_status stage) = actual (stg_status stage)
        then upd_stage i (set_in_flight 0) c
      else if \<not> reconcile_due e c stage then c
      else case stage_op_for stage (desired (stg_status stage)) of
             None \<Rightarrow> c
           | Some op \<Rightarrow> fire_stage e i op c)"

fun reconcile_loop :: "(nat \<Rightarrow> fire_env) \<Rightarrow> nat list \<Rightarrow> strim_controller \<Rightarrow> strim_controller" where
  "reconcile_loop env [] c = c"
| "reconcile_loop env (i # is) c = reconcile_loop env is (reconcile_stage (env i) i c)"

definition strim_controller_handle_reconcile ::
  "(nat \<Rightarrow> fire_env) \<Rightarrow> strim_controller \<Rightarrow> strim_controller" where
  "strim_controller_handle_reconcile env c =
     (if shutting_down c then c else reconcile_loop env [0..<STRIM_STAGE_NAME_COUNT] c)"

section \<open>Listeners\<close>

definition handle_add_listener ::
  "fn_ptr option \<Rightarrow> data_ptr \<Rightarrow> strim_controller \<Rightarrow> handler_result" where
  "handle_add_listener listener userdata c =
     (case listener of
        None \<Rightarrow> (STRIM_CTRL_ERR_BADARG, c, [])
      | Some fn \<Rightarrow>
          if length (listeners c) \<ge> STRIM_CTRL_MAX_LISTENERS
            then (STRIM_CTRL_ERR_NOMEM, c, [])
          else let c1 = c\<lparr>listeners := listeners c @ [\<lparr>le_fn = fn, le_userdata = userdata\<rparr>]\<rparr>
               in (0, c1, [Listener_call fn userdata (status_snapshot c1)]))"

fun remove_entry ::
  "fn_ptr option \<Rightarrow> data_ptr \<Rightarrow> strim_listener_entry list \<Rightarrow> strim_listener_entry list option" where
  "remove_entry fn ud [] = None"
| "remove_entry fn ud (l # ls) =
     (if Some (le_fn l) = fn \<and> le_userdata l = ud then Some ls
      else map_option (\<lambda>ls'. l # ls') (remove_entry fn ud ls))"

definition handle_remove_listener ::
  "fn_ptr option \<Rightarrow> data_ptr \<Rightarrow> strim_controller \<Rightarrow> handler_result" where
  "handle_remove_listener listener userdata c =
     (case remove_entry listener userdata (listeners c) of
        Some ls \<Rightarrow> (0, c\<lparr>listeners := ls\<rparr>, [])
      | None \<Rightarrow> (STRIM_CTRL_ERR_UNKNOWN, c, []))"

section \<open>Teardown\<close>

definition mark_torn_down :: "strim_stage \<Rightarrow> strim_stage" where
  "mark_torn_down s =
     s\<lparr>stg_status := \<lparr>desired = STRIM_STAGE_STOPPED, actual = STRIM_STAGE_STOPPED\<rparr>,
       in_flight_since := 0, op_generation := op_generation s + 1\<rparr>"

text \<open>
  One iteration: the stop op's result is ignored, so only the call is recorded. In the code the
  generation is bumped before the call and the rest is written after it; the call gets no
  cancel handle and does not read the stage, so the two writes are one update here.
\<close>

definition teardown_stage :: "nat \<Rightarrow> strim_controller \<Rightarrow> strim_controller \<times> effect list" where
  "teardown_stage i c =
     (let stage = stages c ! i in
      if actual (stg_status stage) \<noteq> STRIM_STAGE_RUNNING then (c, [])
      else case stop_op stage of
             None \<Rightarrow> (c, [])
           | Some op \<Rightarrow> (upd_stage i mark_torn_down c,
                         [Op_call op (op_ctx stage) (inflight_timeout_ms c) None]))"

fun teardown_loop :: "nat list \<Rightarrow> strim_controller \<Rightarrow> strim_controller \<times> effect list" where
  "teardown_loop [] c = (c, [])"
| "teardown_loop (i # is) c =
     (case teardown_stage i c of
        (c1, e1) \<Rightarrow> (case teardown_loop is c1 of (c2, e2) \<Rightarrow> (c2, e1 @ e2)))"

definition teardown_inner :: "strim_controller \<Rightarrow> strim_controller \<times> effect list" where
  "teardown_inner c =
     (case teardown_loop [0..<STRIM_STAGE_NAME_COUNT] c of
        (c1, e) \<Rightarrow> (c1, e @ notify_listeners c1))"

section \<open>Action dispatch\<close>

definition clear_inflight :: "c_enum \<Rightarrow> u64 \<Rightarrow> strim_controller \<Rightarrow> strim_controller" where
  "clear_inflight stage gen c =
     (if op_generation (stages c ! as_unsigned stage) = gen
      then upd_stage (as_unsigned stage) (set_in_flight 0) c else c)"

fun run_action ::
  "prereq_env \<Rightarrow> (nat \<Rightarrow> fire_env) \<Rightarrow> strim_action_kind \<Rightarrow> strim_controller \<Rightarrow> handler_result" where
  "run_action penv fenv (ACTION_PATH_EVENT e) c =
     strim_controller_handle_path_event penv (Some e) c"
| "run_action penv fenv (ACTION_CONTROL cmd) c =
     strim_controller_handle_control penv (Some cmd) c"
| "run_action penv fenv (ACTION_STAGE_EVENT e) c =
     strim_controller_handle_stage_event (Some e) c"
| "run_action penv fenv ACTION_STATUS c = strim_controller_handle_status True c"
| "run_action penv fenv (ACTION_ADD_LISTENER l ud) c = handle_add_listener l ud c"
| "run_action penv fenv (ACTION_REMOVE_LISTENER l ud) c = handle_remove_listener l ud c"
| "run_action penv fenv ACTION_RECONCILE c =
     (0, strim_controller_handle_reconcile fenv c, [])"
| "run_action penv fenv (ACTION_CLEAR_INFLIGHT stage gen) c = (0, clear_inflight stage gen c, [])"
| "run_action penv fenv ACTION_TEARDOWN c = (case teardown_inner c of (c1, e) \<Rightarrow> (0, c1, e))"

section \<open>Queue side of the submit surface\<close>

text \<open>
  The locked part of \<open>queue_submit\<close>: the action is appended, or the queue is closed
  and the submitter gets the error at once. The wait for the reply is in the system
  model.
\<close>

definition queue_submit ::
  "nat \<Rightarrow> strim_action_kind \<Rightarrow> strim_controller \<Rightarrow> int option \<times> strim_controller" where
  "queue_submit tid k c =
     (if q_closed c then (Some STRIM_CTRL_ERR_CLOSED, c)
      else (None, c\<lparr>queue := queue c @ [\<lparr>act_kind = k, act_owner = Some tid\<rparr>]\<rparr>))"

definition strim_controller_submit_path_event ::
  "nat \<Rightarrow> strim_path_event option \<Rightarrow> strim_controller \<Rightarrow> int option \<times> strim_controller" where
  "strim_controller_submit_path_event tid e c =
     (case e of None \<Rightarrow> (Some STRIM_CTRL_ERR_BADARG, c)
      | Some ev \<Rightarrow> queue_submit tid (ACTION_PATH_EVENT ev) c)"

definition strim_controller_submit_control ::
  "nat \<Rightarrow> strim_control_command option \<Rightarrow> strim_controller \<Rightarrow> int option \<times> strim_controller" where
  "strim_controller_submit_control tid cmd c =
     (case cmd of None \<Rightarrow> (Some STRIM_CTRL_ERR_BADARG, c)
      | Some k \<Rightarrow> queue_submit tid (ACTION_CONTROL k) c)"

definition strim_controller_submit_stage_event ::
  "nat \<Rightarrow> strim_stage_event option \<Rightarrow> strim_controller \<Rightarrow> int option \<times> strim_controller" where
  "strim_controller_submit_stage_event tid e c =
     (case e of None \<Rightarrow> (Some STRIM_CTRL_ERR_BADARG, c)
      | Some ev \<Rightarrow> queue_submit tid (ACTION_STAGE_EVENT ev) c)"

definition strim_controller_submit_status ::
  "nat \<Rightarrow> bool \<Rightarrow> strim_controller \<Rightarrow> int option \<times> strim_controller" where
  "strim_controller_submit_status tid out c =
     (if \<not> out then (Some STRIM_CTRL_ERR_BADARG, c) else queue_submit tid ACTION_STATUS c)"

definition strim_controller_submit_add_listener ::
  "nat \<Rightarrow> fn_ptr option \<Rightarrow> data_ptr \<Rightarrow> strim_controller \<Rightarrow> int option \<times> strim_controller" where
  "strim_controller_submit_add_listener tid l ud c =
     (case l of None \<Rightarrow> (Some STRIM_CTRL_ERR_BADARG, c)
      | Some f \<Rightarrow> queue_submit tid (ACTION_ADD_LISTENER (Some f) ud) c)"

definition strim_controller_submit_remove_listener ::
  "nat \<Rightarrow> fn_ptr option \<Rightarrow> data_ptr \<Rightarrow> strim_controller \<Rightarrow> int option \<times> strim_controller" where
  "strim_controller_submit_remove_listener tid l ud c =
     (case l of None \<Rightarrow> (Some STRIM_CTRL_ERR_BADARG, c)
      | Some f \<Rightarrow> queue_submit tid (ACTION_REMOVE_LISTENER (Some f) ud) c)"

definition strim_controller_teardown ::
  "nat \<Rightarrow> strim_controller \<Rightarrow> int option \<times> strim_controller" where
  "strim_controller_teardown tid c = queue_submit tid ACTION_TEARDOWN c"

definition strim_controller_request_reconcile :: "bool \<Rightarrow> strim_controller \<Rightarrow> strim_controller" where
  "strim_controller_request_reconcile alloc_ok c =
     (if \<not> alloc_ok then c
      else if q_closed c \<or> reconcile_queued c then c
      else c\<lparr>reconcile_queued := True,
             queue := queue c @ [\<lparr>act_kind = ACTION_RECONCILE, act_owner = None\<rparr>]\<rparr>)"

text \<open>The locked pop of \<open>strim_controller_run\<close>.\<close>

definition run_pop :: "strim_controller \<Rightarrow> (strim_action \<times> strim_controller) option" where
  "run_pop c =
     (case queue c of
        [] \<Rightarrow> None
      | act # rest \<Rightarrow>
          Some (act, c\<lparr>queue := rest,
                       reconcile_queued :=
                         (if act_kind act = ACTION_RECONCILE then False
                          else reconcile_queued c)\<rparr>))"

definition strim_controller_begin_shutdown :: "strim_controller \<Rightarrow> strim_controller" where
  "strim_controller_begin_shutdown c = c\<lparr>shutting_down := True\<rparr>"

definition strim_controller_close :: "strim_controller \<Rightarrow> strim_controller" where
  "strim_controller_close c = c\<lparr>shutting_down := True, q_closed := True\<rparr>"

text \<open>
  The end of \<open>run_stage_op\<close> after the op returned \<open>err\<close>: a failed op that is not
  superseded enqueues a generation-stamped clear unless the queue is closed, then
  the wait group is decremented. \<open>superseded\<close> is the handle's answer at that point.
\<close>

definition run_stage_op_end ::
  "strim_op_job \<Rightarrow> int \<Rightarrow> bool \<Rightarrow> strim_controller \<Rightarrow> strim_controller" where
  "run_stage_op_end job err alloc_ok c =
     (let c1 =
        (if err \<noteq> 0 \<and> \<not> strim_stage_op_superseded c (Some (oj_cancel job)) \<and> alloc_ok
            \<and> \<not> q_closed c
         then c\<lparr>queue := queue c @ [\<lparr>act_kind = ACTION_CLEAR_INFLIGHT (oj_stage job)
                                       (cn_generation (oj_cancel job)), act_owner = None\<rparr>]\<rparr>
         else c)
      in c1\<lparr>ops_wg := wg_done (ops_wg c1)\<rparr>)"

lemmas ctl_updates =
  upd_stage_def set_desired_def set_actual_def set_in_flight_def mark_fired_def
  undo_fired_def mark_torn_down_def

lemmas ctl_handlers [op_defs] =
  strim_controller_handle_status_def apply_desired_stage_target_def
  strim_controller_handle_path_event_def strim_controller_handle_control_def
  strim_controller_handle_stage_event_def handle_add_listener_def
  handle_remove_listener_def clear_inflight_def

end
