(* ===== verification/Controller_Inv.thy ===== *)
theory Controller_Inv
  imports Controller
begin

text \<open>
  The well-formedness invariant of the controller: established by
  \<open>strim_controller_new\<close> exactly on valid configurations and kept by every action.
\<close>

section \<open>The invariant\<close>

definition stage_ok :: "nat \<Rightarrow> strim_stage \<Rightarrow> bool" where
  "stage_ok i s \<longleftrightarrow>
     stg_name s = int i \<and> valid_stage_state (desired (stg_status s)) \<and>
     valid_stage_state (actual (stg_status s))"

definition route_ok :: "strim_stage list \<Rightarrow> int \<Rightarrow> strim_route \<Rightarrow> bool" where
  "route_ok stgs kind r \<longleftrightarrow>
     r_kind r = kind \<and>
     (if kind = STRIM_ROUTE_PATH_EVENT
      then as_unsigned (r_path r) < STRIM_PATH_NAME_COUNT \<and> valid_path_status (r_path_status r)
      else as_unsigned (r_component r) < STRIM_COMPONENT_COUNT \<and>
           as_unsigned (r_action r) < STRIM_ACTION_COUNT) \<and>
     as_unsigned (r_target_stage r) < STRIM_STAGE_NAME_COUNT \<and>
     valid_stage_state (r_target_state r) \<and>
     stage_op_for (stgs ! as_unsigned (r_target_stage r)) (r_target_state r) \<noteq> None"

definition routes_ok :: "strim_stage list \<Rightarrow> int \<Rightarrow> strim_route list \<Rightarrow> bool" where
  "routes_ok stgs kind rs \<longleftrightarrow>
     list_all (route_ok stgs kind) rs \<and> sorted_wrt (\<lambda>a b. \<not> route_keys_equal a b kind) rs"

definition ctl_ok :: "strim_controller \<Rightarrow> bool" where
  "ctl_ok c \<longleftrightarrow>
     length (paths c) = STRIM_PATH_NAME_COUNT \<and> list_all valid_path_status (paths c) \<and>
     length (stages c) = STRIM_STAGE_NAME_COUNT \<and>
     (\<forall>i < STRIM_STAGE_NAME_COUNT. stage_ok i (stages c ! i)) \<and>
     routes_ok (stages c) STRIM_ROUTE_PATH_EVENT (path_routes c) \<and>
     routes_ok (stages c) STRIM_ROUTE_CONTROL (control_routes c) \<and>
     length (listeners c) \<le> STRIM_CTRL_MAX_LISTENERS \<and>
     inflight_timeout_ms c > 0 \<and> actions_buffer_size c > 0"

lemma valid_stage_state_iff [cast_simps]:
  "valid_stage_state 0" "valid_stage_state 1" "\<not> valid_stage_state 2" "\<not> valid_stage_state (-1)"
  by (simp_all add: valid_stage_state_def as_unsigned_def)

lemma valid_path_status_iff [cast_simps]:
  "valid_path_status 0" "valid_path_status 1" "valid_path_status 2" "\<not> valid_path_status 3"
  "\<not> valid_path_status (-1)"
  by (simp_all add: valid_path_status_def as_unsigned_def)

section \<open>Route validation\<close>

lemma check_route_iff:
  "check_route stgs kind earlier r = 0 \<longleftrightarrow>
     route_ok stgs kind r \<and> \<not> list_ex (\<lambda>q. route_keys_equal q r kind) earlier"
  by (auto simp: check_route_def route_ok_def not_le split: if_splits)

lemma check_route_range: "check_route stgs kind earlier r \<in> {0, STRIM_CTRL_ERR_BADARG}"
  by (auto simp: check_route_def)

lemma check_routes_iff:
  "check_routes stgs kind earlier rs = 0 \<longleftrightarrow>
     routes_ok stgs kind rs \<and>
     (\<forall>r \<in> set rs. \<not> list_ex (\<lambda>q. route_keys_equal q r kind) earlier)"
  by (induction rs arbitrary: earlier)
    (auto simp: routes_ok_def check_route_iff Let_def)

lemma check_routes_range: "check_routes stgs kind earlier rs \<in> {0, STRIM_CTRL_ERR_BADARG}"
proof (induction rs arbitrary: earlier)
  case (Cons r rs)
  with check_route_range [of stgs kind earlier r] show ?case by (auto simp: Let_def)
qed simp

definition table_valid :: "strim_stage list \<Rightarrow> strim_route list option \<Rightarrow> nat \<Rightarrow> int \<Rightarrow> bool" where
  "table_valid stgs src n kind \<longleftrightarrow>
     n = 0 \<or> (case src of None \<Rightarrow> False | Some rs \<Rightarrow> routes_ok stgs kind (take n rs))"

lemma validate_and_copy_routes_iff:
  "fst (validate_and_copy_routes a stgs src n kind) = 0 \<longleftrightarrow>
     table_valid stgs src n kind \<and> (n > 0 \<longrightarrow> a)"
  by (auto simp: validate_and_copy_routes_def table_valid_def check_routes_iff routes_ok_def
      Let_def split: option.splits if_splits)

lemma validate_and_copy_routes_table:
  "validate_and_copy_routes a stgs src n kind = (0, rs) \<Longrightarrow> routes_ok stgs kind rs"
  by (auto simp: validate_and_copy_routes_def check_routes_iff Let_def split: if_splits)

section \<open>Construction\<close>

definition config_valid :: "strim_controller_config \<Rightarrow> bool" where
  "config_valid cfg \<longleftrightarrow>
     cfg_inflight_timeout_ms cfg > 0 \<and> cfg_actions_buffer_size cfg > 0 \<and>
     list_all valid_path_status (cfg_initial_paths cfg) \<and>
     (\<forall>i < STRIM_STAGE_NAME_COUNT. check_stage_config i (cfg_stages cfg ! i)) \<and>
     table_valid (map init_stage (cfg_stages cfg)) (cfg_path_routes cfg)
       (cfg_n_path_routes cfg) STRIM_ROUTE_PATH_EVENT \<and>
     table_valid (map init_stage (cfg_stages cfg)) (cfg_control_routes cfg)
       (cfg_n_control_routes cfg) STRIM_ROUTE_CONTROL"

text \<open>Every allocation the configuration needs and all worker threads succeed.\<close>

definition new_env_ok :: "new_env \<Rightarrow> strim_controller_config \<Rightarrow> bool" where
  "new_env_ok e cfg \<longleftrightarrow>
     ne_calloc e \<and> (cfg_n_path_routes cfg > 0 \<longrightarrow> ne_path_copy e) \<and>
     (cfg_n_control_routes cfg > 0 \<longrightarrow> ne_control_copy e) \<and>
     ne_threads e \<ge> STRIM_CTRL_WORKERS"

lemma workerpool_init_iff: "fst (workerpool_init n) = 0 \<longleftrightarrow> n \<ge> STRIM_CTRL_WORKERS"
  by (auto simp: workerpool_init_def Let_def)

lemma all_upt_iff: "list_all P [0..<n] \<longleftrightarrow> (\<forall>i < n. P i)"
  by (auto simp: list_all_iff)

lemma new_success_iff:
  "fst (strim_controller_new e (Some cfg) True) = 0 \<longleftrightarrow> config_valid cfg \<and> new_env_ok e cfg"
  by (auto simp: strim_controller_new_def config_valid_def new_env_ok_def Let_def
      validate_and_copy_routes_iff workerpool_init_iff all_upt_iff not_le
      simp del: upt_rec_numeral split: if_splits)

lemma new_result_ok:
  assumes "strim_controller_new e (Some cfg) True = (rc, Some c)"
    and "length (cfg_initial_paths cfg) = STRIM_PATH_NAME_COUNT"
    and "length (cfg_stages cfg) = STRIM_STAGE_NAME_COUNT"
  shows "rc = 0 \<and> ctl_ok c \<and> stages c = map init_stage (cfg_stages cfg) \<and>
    paths c = cfg_initial_paths cfg \<and> queue c = [] \<and> ops_wg c = 0 \<and> wp_jobs (pool c) = [] \<and>
    \<not> shutting_down c \<and> \<not> q_closed c \<and> \<not> reconcile_queued c \<and>
    \<not> wp_shutting_down (pool c) \<and> wp_n_threads (pool c) = STRIM_CTRL_WORKERS"
proof -
  let ?stgs = "map init_stage (cfg_stages cfg)"
  obtain pr where pr: "validate_and_copy_routes (ne_path_copy e) ?stgs (cfg_path_routes cfg)
    (cfg_n_path_routes cfg) STRIM_ROUTE_PATH_EVENT = (fst pr, snd pr)" by fastforce
  obtain cr where cr: "validate_and_copy_routes (ne_control_copy e) ?stgs (cfg_control_routes cfg)
    (cfg_n_control_routes cfg) STRIM_ROUTE_CONTROL = (fst cr, snd cr)" by fastforce
  have tables: "fst pr = 0 \<Longrightarrow> routes_ok ?stgs STRIM_ROUTE_PATH_EVENT (snd pr)"
    "fst cr = 0 \<Longrightarrow> routes_ok ?stgs STRIM_ROUTE_CONTROL (snd cr)"
    using validate_and_copy_routes_table pr cr by metis+
  from assms(1) pr cr show ?thesis
    using tables assms(2,3)
    by (auto simp: strim_controller_new_def Let_def ctl_ok_def stage_ok_def init_stage_def
        check_stage_config_def all_upt_iff workerpool_init_def
        simp del: upt_rec_numeral split: if_splits)
qed

section \<open>Preservation\<close>

text \<open>Updates that keep a stage's ops keep every route valid.\<close>

definition same_ops :: "strim_stage \<Rightarrow> strim_stage \<Rightarrow> bool" where
  "same_ops s s' \<longleftrightarrow> start_op s = start_op s' \<and> stop_op s = stop_op s'"

lemma stage_op_for_cong: "same_ops s s' \<Longrightarrow> stage_op_for s t = stage_op_for s' t"
  by (simp add: stage_op_for_def same_ops_def)

lemma routes_ok_update:
  assumes "routes_ok stgs kind rs" and "same_ops (stgs ! i) s"
  shows "routes_ok (stgs[i := s]) kind rs"
proof -
  have "stage_op_for (stgs[i := s] ! j) t = stage_op_for (stgs ! j) t" for j t
    using stage_op_for_cong [OF assms(2)] by (auto simp: nth_list_update_if)
  then have "route_ok (stgs[i := s]) kind = route_ok stgs kind"
    by (simp add: route_ok_def fun_eq_iff)
  with assms(1) show ?thesis by (simp add: routes_ok_def)
qed

lemma ctl_ok_upd_stage:
  assumes "ctl_ok c" and "same_ops (stages c ! i) (f (stages c ! i))"
    and "i < STRIM_STAGE_NAME_COUNT \<Longrightarrow> stage_ok i (f (stages c ! i))"
  shows "ctl_ok (upd_stage i f c)"
  using assms
  by (auto simp: ctl_ok_def upd_stage_def routes_ok_update nth_list_update_if)

lemma same_ops_updates [simp]:
  "same_ops s (set_desired v s)" "same_ops s (set_actual v s)" "same_ops s (set_in_flight t s)"
  "same_ops s (mark_fired t s)" "same_ops s (undo_fired s)" "same_ops s (mark_torn_down s)"
  "same_ops s ((set_in_flight t \<circ> set_actual v) s)"
  by (simp_all add: same_ops_def ctl_updates)

lemma stage_ok_updates:
  "stage_ok i s \<Longrightarrow> valid_stage_state v \<Longrightarrow> stage_ok i (set_desired v s)"
  "stage_ok i s \<Longrightarrow> valid_stage_state v \<Longrightarrow> stage_ok i (set_actual v s)"
  "stage_ok i s \<Longrightarrow> stage_ok i (set_in_flight t s)"
  "stage_ok i s \<Longrightarrow> stage_ok i (mark_fired t s)"
  "stage_ok i s \<Longrightarrow> stage_ok i (undo_fired s)"
  "stage_ok i s \<Longrightarrow> stage_ok i (mark_torn_down s)"
  "stage_ok i s \<Longrightarrow> valid_stage_state v \<Longrightarrow> stage_ok i ((set_in_flight t \<circ> set_actual v) s)"
  by (simp_all add: stage_ok_def ctl_updates cast_simps)

lemma ctl_ok_stage: "ctl_ok c \<Longrightarrow> i < STRIM_STAGE_NAME_COUNT \<Longrightarrow> stage_ok i (stages c ! i)"
  by (simp add: ctl_ok_def)

text \<open>Fields the invariant does not mention.\<close>

lemma ctl_ok_frame [simp]:
  "ctl_ok (c\<lparr>queue := q\<rparr>) = ctl_ok c" "ctl_ok (c\<lparr>q_closed := b\<rparr>) = ctl_ok c"
  "ctl_ok (c\<lparr>reconcile_queued := b\<rparr>) = ctl_ok c" "ctl_ok (c\<lparr>shutting_down := b\<rparr>) = ctl_ok c"
  "ctl_ok (c\<lparr>ops_wg := n\<rparr>) = ctl_ok c" "ctl_ok (c\<lparr>pool := p\<rparr>) = ctl_ok c"
  by (simp_all add: ctl_ok_def)

lemma upd_stage_frame [simp]:
  "stages (upd_stage i f c) = (stages c)[i := f (stages c ! i)]"
  "paths (upd_stage i f c) = paths c" "path_routes (upd_stage i f c) = path_routes c"
  "control_routes (upd_stage i f c) = control_routes c"
  "listeners (upd_stage i f c) = listeners c" "queue (upd_stage i f c) = queue c"
  "q_closed (upd_stage i f c) = q_closed c"
  "reconcile_queued (upd_stage i f c) = reconcile_queued c"
  "shutting_down (upd_stage i f c) = shutting_down c" "ops_wg (upd_stage i f c) = ops_wg c"
  "pool (upd_stage i f c) = pool c" "now_ms (upd_stage i f c) = now_ms c"
  "inflight_timeout_ms (upd_stage i f c) = inflight_timeout_ms c"
  "actions_buffer_size (upd_stage i f c) = actions_buffer_size c"
  by (simp_all add: upd_stage_def)

lemma ctl_ok_apply_target [inv_intros]:
  assumes "ctl_ok c" and "route_ok (stages c) kind r"
    and "apply_desired_stage_target penv r c = (rc, c', es)"
  shows "ctl_ok c'"
proof -
  let ?i = "as_unsigned (r_target_stage r)"
  have "ctl_ok (upd_stage ?i (set_desired (r_target_state r)) c)"
    using assms(1,2) by (intro ctl_ok_upd_stage) (simp_all add: route_ok_def stage_ok_updates
        ctl_ok_stage)
  with assms show ?thesis
    by (auto simp: apply_desired_stage_target_def Let_def split: if_splits)
qed

lemma find_path_event_route_ok:
  "ctl_ok c \<Longrightarrow> find_path_event_route c p s = Some r \<Longrightarrow>
     route_ok (stages c) STRIM_ROUTE_PATH_EVENT r \<and> r_path r = p \<and> r_path_status r = s"
  using find_Some_in_set
  by (fastforce simp: find_path_event_route_def ctl_ok_def routes_ok_def list_all_iff)

lemma find_control_route_ok:
  "ctl_ok c \<Longrightarrow> find_control_route c p s = Some r \<Longrightarrow>
     route_ok (stages c) STRIM_ROUTE_CONTROL r \<and> r_component r = p \<and> r_action r = s"
  using find_Some_in_set
  by (fastforce simp: find_control_route_def ctl_ok_def routes_ok_def list_all_iff)

lemma ctl_ok_set_path:
  "ctl_ok c \<Longrightarrow> valid_path_status s \<Longrightarrow> ctl_ok (c\<lparr>paths := (paths c)[i := s]\<rparr>)"
  by (simp add: ctl_ok_def list_all_update)

lemma ctl_ok_path_event [inv_intros]:
  assumes "ctl_ok c" and "strim_controller_handle_path_event penv e c = (rc, c', es)"
  shows "ctl_ok c'"
proof (cases e)
  case None
  with assms show ?thesis by (simp add: strim_controller_handle_path_event_def)
next
  case (Some ev)
  let ?c1 = "c\<lparr>paths := (paths c)[as_unsigned (pe_path ev) := pe_status ev]\<rparr>"
  show ?thesis
  proof (cases "as_unsigned (pe_path ev) \<ge> STRIM_PATH_NAME_COUNT \<or>
      \<not> valid_path_status (pe_status ev)")
    case True
    with assms Some show ?thesis
      by (auto simp: strim_controller_handle_path_event_def split: if_splits)
  next
    case False
    with assms have "ctl_ok ?c1" by (simp add: ctl_ok_set_path)
    with False assms Some show ?thesis
      by (auto simp: strim_controller_handle_path_event_def Let_def
          dest: find_path_event_route_ok intro: ctl_ok_apply_target split: option.splits)
  qed
qed

lemma ctl_ok_control [inv_intros]:
  "ctl_ok c \<Longrightarrow> strim_controller_handle_control penv cmd c = (rc, c', es) \<Longrightarrow> ctl_ok c'"
  by (auto simp: strim_controller_handle_control_def dest: find_control_route_ok
      intro: ctl_ok_apply_target split: option.splits if_splits)

lemma ctl_ok_stage_event [inv_intros]:
  assumes "ctl_ok c" and "strim_controller_handle_stage_event e c = (rc, c', es)"
  shows "ctl_ok c'"
proof (cases e)
  case None
  with assms show ?thesis by (simp add: strim_controller_handle_stage_event_def)
next
  case (Some ev)
  have "valid_stage_state (se_state ev) \<Longrightarrow>
    ctl_ok (upd_stage (as_unsigned (se_stage ev))
      (set_in_flight 0 \<circ> set_actual (se_state ev)) c)"
    using assms(1)
    by (intro ctl_ok_upd_stage same_ops_updates stage_ok_updates ctl_ok_stage)
  with assms Some show ?thesis
    by (auto simp: strim_controller_handle_stage_event_def Let_def split: if_splits)
qed

lemma ctl_ok_reconcile_stage [inv_intros]:
  assumes "ctl_ok c"
  shows "ctl_ok (reconcile_stage e i c)"
proof -
  have upd: "ctl_ok d \<Longrightarrow> ctl_ok (upd_stage i (set_in_flight t) d)"
    "ctl_ok d \<Longrightarrow> ctl_ok (upd_stage i (mark_fired t) d)"
    "ctl_ok d \<Longrightarrow> ctl_ok (upd_stage i undo_fired d)" for d t
    by (auto intro!: ctl_ok_upd_stage stage_ok_updates ctl_ok_stage)
  with assms have "ctl_ok (fire_stage e i op c)" for op
    by (auto simp: fire_stage_def Let_def)
  with assms upd show ?thesis
    by (auto simp: reconcile_stage_def Let_def split: option.splits)
qed

lemma ctl_ok_reconcile_loop: "ctl_ok c \<Longrightarrow> ctl_ok (reconcile_loop env is c)"
  by (induction "is" arbitrary: c) (simp_all add: ctl_ok_reconcile_stage)

lemma ctl_ok_reconcile [inv_intros]:
  "ctl_ok c \<Longrightarrow> ctl_ok (strim_controller_handle_reconcile env c)"
  by (simp add: strim_controller_handle_reconcile_def ctl_ok_reconcile_loop)

lemma remove_entry_length:
  "remove_entry fn ud ls = Some ls' \<Longrightarrow> length ls = Suc (length ls')"
  by (induction ls arbitrary: ls') (auto split: if_splits)

lemma ctl_ok_listeners [inv_intros]:
  "ctl_ok c \<Longrightarrow> handle_add_listener l ud c = (rc, c', es) \<Longrightarrow> ctl_ok c'"
  "ctl_ok c \<Longrightarrow> handle_remove_listener l ud c = (rc, c', es) \<Longrightarrow> ctl_ok c'"
  by (auto simp: handle_add_listener_def handle_remove_listener_def ctl_ok_def Let_def
      dest: remove_entry_length split: option.splits if_splits)

lemma ctl_ok_teardown_stage: "ctl_ok c \<Longrightarrow> ctl_ok (fst (teardown_stage i c))"
  by (auto simp: teardown_stage_def Let_def intro!: ctl_ok_upd_stage stage_ok_updates
      ctl_ok_stage split: option.splits)

lemma ctl_ok_teardown_loop: "ctl_ok c \<Longrightarrow> ctl_ok (fst (teardown_loop is c))"
proof (induction "is" arbitrary: c)
  case (Cons i "is")
  with ctl_ok_teardown_stage [of c i] show ?case by (fastforce split: prod.splits)
qed simp

lemma ctl_ok_teardown [inv_intros]: "ctl_ok c \<Longrightarrow> ctl_ok (fst (teardown_inner c))"
  using ctl_ok_teardown_loop [of c "[0..<STRIM_STAGE_NAME_COUNT]"]
  by (auto simp: teardown_inner_def simp del: upt_rec_numeral split: prod.splits)

lemma ctl_ok_clear [inv_intros]: "ctl_ok c \<Longrightarrow> ctl_ok (clear_inflight stage gen c)"
  by (auto simp: clear_inflight_def intro!: ctl_ok_upd_stage stage_ok_updates ctl_ok_stage)

lemma ctl_ok_run_action:
  assumes "ctl_ok c" and "run_action penv fenv k c = (rc, c', es)"
  shows "ctl_ok c'"
proof (cases k)
  case ACTION_TEARDOWN
  with assms ctl_ok_teardown [of c] show ?thesis by (auto split: prod.splits)
next
  case ACTION_STATUS
  with assms show ?thesis by (simp add: strim_controller_handle_status_def)
qed (use assms in \<open>auto intro: inv_intros\<close>)

end
