(* ===== verification/Reconcile.thy ===== *)
theory Reconcile
  imports Controller_Inv
begin

text \<open>
  What one reconcile pass does, stage by stage: a declarative account of the loop
  body (\<open>fires\<close>, \<open>reconciled_stage\<close>, \<open>fired_job\<close>) and the proof that the whole pass
  is that account applied to every stage of the state it starts from.
\<close>

section \<open>The declarative account\<close>

text \<open>Whether the pass launches an op for stage \<open>i\<close>.\<close>

definition fires :: "fire_env \<Rightarrow> nat \<Rightarrow> strim_controller \<Rightarrow> bool" where
  "fires e i c \<longleftrightarrow>
     (let s = stages c ! i in
      desired (stg_status s) \<noteq> actual (stg_status s) \<and> reconcile_due e c s \<and>
      stage_op_for s (desired (stg_status s)) \<noteq> None \<and> \<not> shutting_down c \<and>
      fe_job_alloc e \<and> fe_node_alloc e \<and> \<not> wp_shutting_down (pool c))"

text \<open>The job it hands to the worker pool then.\<close>

definition fired_job :: "fire_env \<Rightarrow> nat \<Rightarrow> strim_controller \<Rightarrow> strim_op_job" where
  "fired_job e i c =
     (let s = stages c ! i in
      \<lparr>oj_stage = int i, oj_op = the (stage_op_for s (desired (stg_status s))),
       oj_op_ctx = op_ctx s, oj_timeout_ms = inflight_timeout_ms c,
       oj_cancel = \<lparr>cn_generation = op_generation s + 1,
                    cn_deadline_ms = fe_now_fire e + inflight_timeout_ms c,
                    cn_current_generation = i, cn_now_ms = Some (now_ms c)\<rparr>\<rparr>)"

text \<open>The stage afterwards.\<close>

definition reconciled_stage :: "fire_env \<Rightarrow> nat \<Rightarrow> strim_controller \<Rightarrow> strim_stage" where
  "reconciled_stage e i c =
     (let s = stages c ! i in
      if desired (stg_status s) = actual (stg_status s) then set_in_flight 0 s
      else if \<not> reconcile_due e c s then s
      else if stage_op_for s (desired (stg_status s)) = None then s
      else if shutting_down c \<or> \<not> fe_job_alloc e then s
      else if fe_node_alloc e \<and> \<not> wp_shutting_down (pool c) then mark_fired (fe_now_fire e) s
      else set_in_flight 0 s)"

section \<open>One stage\<close>

lemma undo_mark_fired: "undo_fired (mark_fired t s) = set_in_flight 0 s"
  by (simp add: ctl_updates)

lemma stage_op_for_mark_fired [simp]: "stage_op_for (mark_fired t s) = stage_op_for s"
  by (simp add: fun_eq_iff stage_op_for_def mark_fired_def)

lemma fire_stage_eq:
  assumes "i < length (stages c)"
  shows "fire_stage e i op c =
    (if shutting_down c \<or> \<not> fe_job_alloc e then c
     else if fe_node_alloc e \<and> \<not> wp_shutting_down (pool c)
     then (upd_stage i (mark_fired (fe_now_fire e)) c)
            \<lparr>ops_wg := Suc (ops_wg c),
             pool := (pool c)\<lparr>wp_jobs := wp_jobs (pool c) @
               [make_job (fe_now_fire e) i op (upd_stage i (mark_fired (fe_now_fire e)) c)]\<rparr>\<rparr>
     else upd_stage i (set_in_flight 0) c)"
  using assms
  by (auto simp: fire_stage_def Let_def workerpool_submit_def wg_add_def wg_done_def upd_stage_def
      undo_mark_fired make_job_def)

lemma make_job_fired:
  assumes "i < length (stages c)"
    and "stage_op_for (stages c ! i) (desired (stg_status (stages c ! i))) = Some op"
  shows "make_job (fe_now_fire e) i op (upd_stage i (mark_fired (fe_now_fire e)) c) =
    fired_job e i c"
  using assms by (simp add: make_job_def fired_job_def upd_stage_def mark_fired_def Let_def)

lemma reconcile_stage_eq:
  assumes "i < length (stages c)"
  shows "reconcile_stage e i c =
    c\<lparr>stages := (stages c)[i := reconciled_stage e i c],
      ops_wg := ops_wg c + (if fires e i c then 1 else 0),
      pool := (pool c)\<lparr>wp_jobs := wp_jobs (pool c) @
        (if fires e i c then [fired_job e i c] else [])\<rparr>\<rparr>"
proof -
  have frame: "c\<lparr>stages := (stages c)[i := stages c ! i], ops_wg := ops_wg c,
    pool := (pool c)\<lparr>wp_jobs := wp_jobs (pool c)\<rparr>\<rparr> = c" by simp
  show ?thesis
    using assms frame make_job_fired [OF assms]
    by (auto simp: reconcile_stage_def reconciled_stage_def fires_def Let_def fire_stage_eq
        upd_stage_def split: option.splits)
qed

section \<open>The whole pass\<close>

lemma reconcile_stage_frame:
  assumes "i < length (stages c)"
  shows "length (stages (reconcile_stage e i c)) = length (stages c)"
    "i \<noteq> j \<Longrightarrow> stages (reconcile_stage e i c) ! j = stages c ! j"
    "inflight_timeout_ms (reconcile_stage e i c) = inflight_timeout_ms c"
    "shutting_down (reconcile_stage e i c) = shutting_down c"
    "wp_shutting_down (pool (reconcile_stage e i c)) = wp_shutting_down (pool c)"
    "now_ms (reconcile_stage e i c) = now_ms c"
  using assms by (simp_all add: reconcile_stage_eq)

lemma other_stage_unaffected:
  assumes "i < length (stages c)" and "i \<noteq> j"
  shows "fires e j (reconcile_stage e' i c) = fires e j c"
    "fired_job e j (reconcile_stage e' i c) = fired_job e j c"
    "reconciled_stage e j (reconcile_stage e' i c) = reconciled_stage e j c"
  using reconcile_stage_frame [OF assms(1)] assms(2)
  by (simp_all add: fires_def fired_job_def reconciled_stage_def reconcile_due_def Let_def)

lemma reconcile_loop_eq:
  assumes "distinct is" and "\<forall>i \<in> set is. i < length (stages c)"
  shows "length (stages (reconcile_loop env is c)) = length (stages c) \<and>
    (\<forall>j. stages (reconcile_loop env is c) ! j =
           (if j \<in> set is then reconciled_stage (env j) j c else stages c ! j)) \<and>
    wp_jobs (pool (reconcile_loop env is c)) =
      wp_jobs (pool c) @ map (\<lambda>i. fired_job (env i) i c) (filter (\<lambda>i. fires (env i) i c) is) \<and>
    ops_wg (reconcile_loop env is c) =
      ops_wg c + length (filter (\<lambda>i. fires (env i) i c) is)"
  using assms
proof (induction "is" arbitrary: c)
  case Nil
  then show ?case by simp
next
  case (Cons i "is")
  let ?d = "reconcile_stage (env i) i c"
  have i: "i < length (stages c)" and "is": "\<forall>j \<in> set is. j < length (stages ?d)"
    and fresh: "i \<notin> set is" and dist: "distinct is"
    using Cons.prems reconcile_stage_frame by auto
  note IH = Cons.IH [OF dist "is"]
  have same: "j \<in> set is \<Longrightarrow> fires (env j) j ?d = fires (env j) j c"
    "j \<in> set is \<Longrightarrow> fired_job (env j) j ?d = fired_job (env j) j c"
    "j \<in> set is \<Longrightarrow> reconciled_stage (env j) j ?d = reconciled_stage (env j) j c" for j
    using fresh other_stage_unaffected [OF i] by metis+
  then have filt: "filter (\<lambda>i. fires (env i) i ?d) is = filter (\<lambda>i. fires (env i) i c) is"
    by (auto cong: filter_cong)
  have jobs: "map (\<lambda>i. fired_job (env i) i ?d) (filter (\<lambda>i. fires (env i) i c) is) =
    map (\<lambda>i. fired_job (env i) i c) (filter (\<lambda>i. fires (env i) i c) is)"
    using same by auto
  have "stages ?d ! j = (if j = i then reconciled_stage (env i) i c else stages c ! j)" for j
    using i by (simp add: reconcile_stage_eq)
  moreover have "wp_jobs (pool ?d) = wp_jobs (pool c) @
      (if fires (env i) i c then [fired_job (env i) i c] else [])"
    "ops_wg ?d = ops_wg c + (if fires (env i) i c then 1 else 0)"
    "length (stages ?d) = length (stages c)"
    using i by (simp_all add: reconcile_stage_eq)
  ultimately show ?case
    using IH filt jobs same fresh by auto
qed

text \<open>Fields no reconcile pass writes.\<close>

lemma reconcile_stage_static [simp]:
  "paths (reconcile_stage e i c) = paths c" "path_routes (reconcile_stage e i c) = path_routes c"
  "control_routes (reconcile_stage e i c) = control_routes c"
  "listeners (reconcile_stage e i c) = listeners c" "queue (reconcile_stage e i c) = queue c"
  "q_closed (reconcile_stage e i c) = q_closed c"
  "reconcile_queued (reconcile_stage e i c) = reconcile_queued c"
  "shutting_down (reconcile_stage e i c) = shutting_down c"
  "inflight_timeout_ms (reconcile_stage e i c) = inflight_timeout_ms c"
  "now_ms (reconcile_stage e i c) = now_ms c"
  "length (stages (reconcile_stage e i c)) = length (stages c)"
  "wp_shutting_down (pool (reconcile_stage e i c)) = wp_shutting_down (pool c)"
  "wp_n_threads (pool (reconcile_stage e i c)) = wp_n_threads (pool c)"
  by (simp_all add: reconcile_stage_def fire_stage_def Let_def workerpool_submit_def
      split: option.splits)

lemma reconcile_loop_static:
  "shutting_down (reconcile_loop env is c) = shutting_down c"
  "inflight_timeout_ms (reconcile_loop env is c) = inflight_timeout_ms c"
  "queue (reconcile_loop env is c) = queue c" "listeners (reconcile_loop env is c) = listeners c"
  "wp_shutting_down (pool (reconcile_loop env is c)) = wp_shutting_down (pool c)"
  by (induction "is" arbitrary: c) simp_all

lemma handle_reconcile_static:
  "shutting_down (strim_controller_handle_reconcile env c) = shutting_down c"
  "inflight_timeout_ms (strim_controller_handle_reconcile env c) = inflight_timeout_ms c"
  "queue (strim_controller_handle_reconcile env c) = queue c"
  "listeners (strim_controller_handle_reconcile env c) = listeners c"
  "wp_shutting_down (pool (strim_controller_handle_reconcile env c)) = wp_shutting_down (pool c)"
  by (simp_all add: strim_controller_handle_reconcile_def reconcile_loop_static
      del: upt_rec_numeral)

lemma handle_reconcile_eq:
  assumes "length (stages c) = STRIM_STAGE_NAME_COUNT" and "\<not> shutting_down c"
  shows "i < STRIM_STAGE_NAME_COUNT \<Longrightarrow>
      stages (strim_controller_handle_reconcile env c) ! i = reconciled_stage (env i) i c"
    and "wp_jobs (pool (strim_controller_handle_reconcile env c)) = wp_jobs (pool c) @
      map (\<lambda>i. fired_job (env i) i c)
        (filter (\<lambda>i. fires (env i) i c) [0..<STRIM_STAGE_NAME_COUNT])"
    and "ops_wg (strim_controller_handle_reconcile env c) = ops_wg c +
      length (filter (\<lambda>i. fires (env i) i c) [0..<STRIM_STAGE_NAME_COUNT])"
    and "length (stages (strim_controller_handle_reconcile env c)) = STRIM_STAGE_NAME_COUNT"
  using reconcile_loop_eq [of "[0..<STRIM_STAGE_NAME_COUNT]" c env] assms
  by (simp_all add: strim_controller_handle_reconcile_def del: upt_rec_numeral)

lemma handle_reconcile_shutdown:
  "shutting_down c \<Longrightarrow> strim_controller_handle_reconcile env c = c"
  by (simp add: strim_controller_handle_reconcile_def)

end
