(* ===== verification/Boot.thy ===== *)
theory Boot
  imports App_Config Reconcile
begin

text \<open>
  The controller that \<open>run\<close> in \<open>main.c\<close> builds from the loaded configuration: the
  prerequisite gate, the route tables of the two pipelines, the stage configs and
  the controller config. The callbacks that \<open>main.c\<close> passes by address are
  the function-pointer constants below; the four op contexts are numbered by stage.
\<close>

section \<open>Callbacks\<close>

abbreviation (input) fn_stage_start_op :: fn_ptr where "fn_stage_start_op \<equiv> 1"
abbreviation (input) fn_stage_stop_op :: fn_ptr where "fn_stage_stop_op \<equiv> 2"
abbreviation (input) fn_prereq_ingress0_ready :: fn_ptr where "fn_prereq_ingress0_ready \<equiv> 3"

text \<open>
  \<open>prereq_ingress0_ready\<close>: the snapshot taken by \<open>strim_controller_handle_status\<close> is
  read back from the call's output.
\<close>

definition prereq_ingress0_ready :: "strim_controller \<Rightarrow> data_ptr \<Rightarrow> int" where
  "prereq_ingress0_ready c userdata =
     (case strim_controller_handle_status True c of
        (rc, _, out) \<Rightarrow>
          if rc \<noteq> 0 then -1
          else case out of
                 Status_out st # _ \<Rightarrow>
                   (if st_paths st ! as_unsigned STRIM_PATH_INGRESS0 = STRIM_PATH_READY
                    then 0 else -1)
               | _ \<Rightarrow> -1)"

definition boot_prereqs :: prereq_env where
  "boot_prereqs f c userdata =
     (if f = fn_prereq_ingress0_ready then prereq_ingress0_ready c userdata else -1)"

section \<open>Routes and stages\<close>

definition path_route :: "c_enum \<Rightarrow> c_enum \<Rightarrow> c_enum \<Rightarrow> c_enum \<Rightarrow> strim_route" where
  "path_route path status stage state =
     \<lparr>r_path = path, r_path_status = status, r_component = 0, r_action = 0,
      r_kind = STRIM_ROUTE_PATH_EVENT, r_target_stage = stage, r_target_state = state,
      r_prerequisite = None, r_prerequisite_userdata = 0\<rparr>"

definition control_route ::
  "c_enum \<Rightarrow> c_enum \<Rightarrow> c_enum \<Rightarrow> c_enum \<Rightarrow> fn_ptr option \<Rightarrow> strim_route" where
  "control_route component action stage state prereq =
     \<lparr>r_path = 0, r_path_status = 0, r_component = component, r_action = action,
      r_kind = STRIM_ROUTE_CONTROL, r_target_stage = stage, r_target_state = state,
      r_prerequisite = prereq, r_prerequisite_userdata = 0\<rparr>"

definition boot_path_routes :: "strim_config \<Rightarrow> strim_route list" where
  "boot_path_routes cfg =
     (if enable_single_stage_pipeline cfg then []
      else [path_route STRIM_PATH_INGRESS0 STRIM_PATH_READY STRIM_STAGE_NORMALIZE STRIM_STAGE_RUNNING,
            path_route STRIM_PATH_INGRESS0 STRIM_PATH_NOT_READY STRIM_STAGE_NORMALIZE
              STRIM_STAGE_STOPPED])"

definition egress_stage :: "strim_config \<Rightarrow> c_enum" where
  "egress_stage cfg =
     (if enable_single_stage_pipeline cfg then STRIM_STAGE_SINGLE_STAGE_EGRESS
      else STRIM_STAGE_SCALE_AND_EGRESS)"

definition boot_control_routes :: "strim_config \<Rightarrow> strim_route list" where
  "boot_control_routes cfg =
     [control_route STRIM_COMPONENT_EGRESS STRIM_ACTION_START (egress_stage cfg)
        STRIM_STAGE_RUNNING (Some fn_prereq_ingress0_ready),
      control_route STRIM_COMPONENT_EGRESS STRIM_ACTION_STOP (egress_stage cfg)
        STRIM_STAGE_STOPPED None]"

definition boot_stage :: "c_enum \<Rightarrow> c_enum \<Rightarrow> strim_stage_config" where
  "boot_stage name want =
     \<lparr>sc_name = name, sc_status = \<lparr>desired = want, actual = STRIM_STAGE_STOPPED\<rparr>,
      sc_start_op = Some fn_stage_start_op, sc_stop_op = Some fn_stage_stop_op, sc_op_ctx = name\<rparr>"

definition boot_controller_config :: "strim_config \<Rightarrow> strim_controller_config" where
  "boot_controller_config cfg =
     \<lparr>cfg_initial_paths = [STRIM_PATH_UNKNOWN, STRIM_PATH_UNKNOWN],
      cfg_stages = [boot_stage STRIM_STAGE_MEDIA_MTX STRIM_STAGE_RUNNING,
                    boot_stage STRIM_STAGE_NORMALIZE STRIM_STAGE_STOPPED,
                    boot_stage STRIM_STAGE_SCALE_AND_EGRESS STRIM_STAGE_STOPPED,
                    boot_stage STRIM_STAGE_SINGLE_STAGE_EGRESS STRIM_STAGE_STOPPED],
      cfg_path_routes = Some (boot_path_routes cfg),
      cfg_n_path_routes = length (boot_path_routes cfg),
      cfg_control_routes = Some (boot_control_routes cfg),
      cfg_n_control_routes = length (boot_control_routes cfg),
      cfg_now_ms = None,
      cfg_inflight_timeout_ms = cfg_inflight_ms cfg,
      cfg_actions_buffer_size = unat (cfg_actions_buffer cfg)\<rparr>"

lemmas boot_defs =
  boot_controller_config_def boot_stage_def boot_path_routes_def boot_control_routes_def
  path_route_def control_route_def egress_stage_def

section \<open>The boot configuration is accepted\<close>

lemma all_less_4: "(\<forall>i < (4::nat). P i) \<longleftrightarrow> P 0 \<and> P 1 \<and> P 2 \<and> P 3"
  by (auto simp: numeral_eq_Suc All_less_Suc)

lemma boot_routes_valid:
  "routes_ok (map init_stage (cfg_stages (boot_controller_config cfg))) STRIM_ROUTE_PATH_EVENT
     (boot_path_routes cfg)"
  "routes_ok (map init_stage (cfg_stages (boot_controller_config cfg))) STRIM_ROUTE_CONTROL
     (boot_control_routes cfg)"
  by (auto simp: routes_ok_def route_ok_def boot_defs init_stage_def stage_op_for_def
      route_keys_equal_def as_unsigned_def valid_path_status_def valid_stage_state_def)

lemma boot_config_valid_iff:
  "config_valid (boot_controller_config cfg) \<longleftrightarrow>
     cfg_inflight_ms cfg > 0 \<and> cfg_actions_buffer cfg \<noteq> 0"
proof -
  have "list_all valid_path_status (cfg_initial_paths (boot_controller_config cfg))"
    by (simp add: boot_defs cast_simps)
  moreover have "\<forall>i < STRIM_STAGE_NAME_COUNT.
      check_stage_config i (cfg_stages (boot_controller_config cfg) ! i)"
    by (simp add: all_less_4 boot_defs check_stage_config_def cast_simps)
  ultimately show ?thesis
    using boot_routes_valid [of cfg]
    by (auto simp: config_valid_def table_valid_def boot_controller_config_def unat_gt_0)
qed

text \<open>The controller that construction returns for a configuration.\<close>

definition boot_new_env :: new_env where
  "boot_new_env = \<lparr>ne_calloc = True, ne_path_copy = True, ne_control_copy = True, ne_threads = 4\<rparr>"

definition boot_controller :: "strim_config \<Rightarrow> strim_controller" where
  "boot_controller cfg =
     the (snd (strim_controller_new boot_new_env (Some (boot_controller_config cfg)) True))"

lemma boot_new_env_ok: "new_env_ok boot_new_env cc"
  by (simp add: new_env_ok_def boot_new_env_def)

lemma boot_controller_new:
  assumes "cfg_inflight_ms cfg > 0" and "cfg_actions_buffer cfg \<noteq> 0"
  shows "strim_controller_new boot_new_env (Some (boot_controller_config cfg)) True =
    (0, Some (boot_controller cfg))"
proof -
  let ?n = "strim_controller_new boot_new_env (Some (boot_controller_config cfg)) True"
  have "fst ?n = 0"
    using assms boot_config_valid_iff [of cfg] boot_new_env_ok by (simp only: new_success_iff) blast
  moreover from this have "snd ?n \<noteq> None"
    by (auto simp: strim_controller_new_def Let_def split: if_splits)
  ultimately show ?thesis by (auto simp: boot_controller_def prod_eq_iff)
qed

section \<open>A booted controller\<close>

text \<open>The two-stage pipeline with a 30 s in-flight timeout, as the example environment sets it.\<close>

definition demo_config :: strim_config where
  "demo_config = zero_config\<lparr>cfg_inflight_ms := 30000, cfg_actions_buffer := 16\<rparr>"

definition demo_ctl :: strim_controller where
  "demo_ctl = boot_controller demo_config"

definition demo_fire :: "int \<Rightarrow> nat \<Rightarrow> fire_env" where
  "demo_fire t i = \<lparr>fe_now_plan = t, fe_now_fire = t, fe_job_alloc = True, fe_node_alloc = True\<rparr>"

definition demo_stage :: "c_enum \<Rightarrow> c_enum \<Rightarrow> strim_stage" where
  "demo_stage name want = init_stage (boot_stage name want)"

lemma demo_new:
  "strim_controller_new boot_new_env (Some (boot_controller_config demo_config)) True =
     (0, Some demo_ctl)"
  unfolding demo_ctl_def by (rule boot_controller_new) (simp_all add: demo_config_def)

lemma demo_ctl_ok: "ctl_ok demo_ctl"
  using new_result_ok [OF demo_new] by (simp add: boot_controller_config_def)

lemma demo_ctl_eq:
  "demo_ctl =
     \<lparr>paths = [STRIM_PATH_UNKNOWN, STRIM_PATH_UNKNOWN],
      stages = [demo_stage STRIM_STAGE_MEDIA_MTX STRIM_STAGE_RUNNING,
                demo_stage STRIM_STAGE_NORMALIZE STRIM_STAGE_STOPPED,
                demo_stage STRIM_STAGE_SCALE_AND_EGRESS STRIM_STAGE_STOPPED,
                demo_stage STRIM_STAGE_SINGLE_STAGE_EGRESS STRIM_STAGE_STOPPED],
      path_routes = boot_path_routes demo_config,
      control_routes = boot_control_routes demo_config, listeners = [],
      now_ms = Default_now_ms, inflight_timeout_ms = 30000, actions_buffer_size = 16,
      queue = [], q_closed = False, reconcile_queued = False, shutting_down = False,
      ops_wg = 0, pool = \<lparr>wp_n_threads = 4, wp_jobs = [], wp_shutting_down = False\<rparr>\<rparr>"
proof -
  have copy: "validate_and_copy_routes a stgs (Some rs) (length rs) kind =
      (if rs \<noteq> [] \<and> \<not> a then (STRIM_CTRL_ERR_NOMEM, [])
       else let rc = check_routes stgs kind [] rs in if rc \<noteq> 0 then (rc, []) else (0, rs))"
    for a stgs rs kind
    by (auto simp: validate_and_copy_routes_def Let_def)
  have "\<not> enable_single_stage_pipeline demo_config"
    by (simp add: demo_config_def zero_config_def)
  then show ?thesis
    using demo_new
    by (simp add: strim_controller_new_def copy boot_controller_config_def Let_def boot_new_env_def
        workerpool_init_def demo_stage_def demo_config_def split: if_splits)
qed

lemma demo_config_pipeline: "\<not> enable_single_stage_pipeline demo_config"
  by (simp add: demo_config_def zero_config_def)

lemmas demo_stage_eval = demo_stage_def init_stage_def boot_stage_def

text \<open>Evaluation of the booted controller in examples.\<close>

lemmas demo_eval =
  demo_ctl_eq demo_stage_def init_stage_def boot_stage_def boot_path_routes_def
  boot_control_routes_def path_route_def control_route_def egress_stage_def demo_config_pipeline
  demo_fire_def as_unsigned_def valid_path_status_def valid_stage_state_def Let_def

end
