(* ===== verification/Controller_Props.thy ===== *)
theory Controller_Props
  imports Boot
begin

text \<open>
  What the controller's handlers promise: construction, invariance under any sequence
  of actions, the separation of intent from observation, the two intent handlers,
  reconcile and its in-flight window, failed ops, teardown and the listeners.
\<close>

section \<open>Views of the state\<close>

definition intents :: "strim_controller \<Rightarrow> c_enum list" where
  "intents c = map (\<lambda>s. desired (stg_status s)) (stages c)"

definition observed :: "strim_controller \<Rightarrow> c_enum list" where
  "observed c = map (\<lambda>s. actual (stg_status s)) (stages c)"

definition in_flight :: "strim_controller \<Rightarrow> int list" where
  "in_flight c = map in_flight_since (stages c)"

definition generations :: "strim_controller \<Rightarrow> u64 list" where
  "generations c = map op_generation (stages c)"

definition stage_jobs :: "nat \<Rightarrow> strim_controller \<Rightarrow> strim_op_job list" where
  "stage_jobs i c = filter (\<lambda>j. oj_stage j = int i) (wp_jobs (pool c))"

lemmas views = intents_def observed_def in_flight_def generations_def

text \<open>A run of the queue thread over a sequence of actions.\<close>

fun run_actions ::
  "prereq_env \<Rightarrow> (strim_action_kind \<times> (nat \<Rightarrow> fire_env)) list \<Rightarrow> strim_controller \<Rightarrow> strim_controller"
where
  "run_actions penv [] c = c"
| "run_actions penv ((k, fenv) # ks) c =
     run_actions penv ks (fst (snd (run_action penv fenv k c)))"

lemma ctl_ok_run_action_fst: "ctl_ok c \<Longrightarrow> ctl_ok (fst (snd (run_action penv fenv k c)))"
  using ctl_ok_run_action [of c penv fenv k] by (cases "run_action penv fenv k c") auto

lemma ctl_ok_run_actions: "ctl_ok c \<Longrightarrow> ctl_ok (run_actions penv ks c)"
  by (induction penv ks c rule: run_actions.induct) (auto simp: ctl_ok_run_action_fst)

section \<open>Construction\<close>

text \<open>
  C1: \<open>strim_controller_new\<close> accepts exactly the configurations that are valid (positive
  timeout and buffer, known path statuses and stage states, route tables whose entries
  are in range, drivable and pairwise different) when its allocations and its four worker
  threads succeed; it returns a controller just when it returns 0, and that
  controller and everything any sequence of actions makes of it is well-formed.
\<close>

theorem controller_new_correct:
  assumes "length (cfg_initial_paths cfg) = STRIM_PATH_NAME_COUNT"
    and "length (cfg_stages cfg) = STRIM_STAGE_NAME_COUNT"
  shows "(fst (strim_controller_new e (Some cfg) True) = 0 \<longleftrightarrow>
      config_valid cfg \<and> new_env_ok e cfg) \<and>
    (snd (strim_controller_new e (Some cfg) True) = None \<longleftrightarrow>
      fst (strim_controller_new e (Some cfg) True) \<noteq> 0) \<and>
    (\<forall>c. snd (strim_controller_new e (Some cfg) True) = Some c \<longrightarrow>
      ctl_ok (run_actions penv ks c) \<and> stages c = map init_stage (cfg_stages cfg) \<and>
      ops_wg c = 0 \<and> queue c = [] \<and> \<not> q_closed c \<and> \<not> shutting_down c)"
proof -
  let ?n = "strim_controller_new e (Some cfg) True"
  have "snd ?n = None \<longleftrightarrow> fst ?n \<noteq> 0"
    by (auto simp: strim_controller_new_def Let_def split: if_splits)
  moreover have "ctl_ok (run_actions penv ks c) \<and> stages c = map init_stage (cfg_stages cfg) \<and>
      ops_wg c = 0 \<and> queue c = [] \<and> \<not> q_closed c \<and> \<not> shutting_down c" if "snd ?n = Some c" for c
    using new_result_ok [of e cfg "fst ?n" c] assms that by (auto simp: ctl_ok_run_actions prod_eq_iff)
  ultimately show ?thesis by (simp only: new_success_iff) blast
qed

theorem controller_new_correct_witness:
  "length (cfg_stages (boot_controller_config demo_config)) = STRIM_STAGE_NAME_COUNT \<and>
   config_valid (boot_controller_config demo_config) \<and>
   ctl_ok (run_actions boot_prereqs [(ACTION_TEARDOWN, demo_fire 1)] demo_ctl)"
  using controller_new_correct [of "boot_controller_config demo_config" boot_new_env boot_prereqs
      "[(ACTION_TEARDOWN, demo_fire 1)]"] demo_new
  by (simp add: boot_controller_config_def)

section \<open>Intent and observation\<close>

text \<open>Effect of a single-stage update on the views.\<close>

lemma intents_upd [simp]:
  "(\<And>s. desired (stg_status (f s)) = desired (stg_status s)) \<Longrightarrow> intents (upd_stage i f c) = intents c"
  unfolding intents_def upd_stage_frame by (rule map_update_same) simp

lemma observed_upd [simp]:
  "(\<And>s. actual (stg_status (f s)) = actual (stg_status s)) \<Longrightarrow> observed (upd_stage i f c) = observed c"
  unfolding observed_def upd_stage_frame by (rule map_update_same) simp

lemma in_flight_upd [simp]:
  "(\<And>s. in_flight_since (f s) = in_flight_since s) \<Longrightarrow> in_flight (upd_stage i f c) = in_flight c"
  unfolding in_flight_def upd_stage_frame by (rule map_update_same) simp

lemma generations_upd [simp]:
  "(\<And>s. op_generation (f s) = op_generation s) \<Longrightarrow> generations (upd_stage i f c) = generations c"
  unfolding generations_def upd_stage_frame by (rule map_update_same) simp

lemma set_desired_sel [simp]:
  "desired (stg_status (set_desired v s)) = v"
  "actual (stg_status (set_desired v s)) = actual (stg_status s)"
  "in_flight_since (set_desired v s) = in_flight_since s"
  "op_generation (set_desired v s) = op_generation s"
  by (simp_all add: set_desired_def)

lemma set_actual_sel [simp]:
  "desired (stg_status (set_actual v s)) = desired (stg_status s)"
  "actual (stg_status (set_actual v s)) = v"
  "in_flight_since (set_actual v s) = in_flight_since s"
  "op_generation (set_actual v s) = op_generation s"
  by (simp_all add: set_actual_def)

lemma set_in_flight_sel [simp]:
  "stg_status (set_in_flight t s) = stg_status s"
  "in_flight_since (set_in_flight t s) = t"
  "op_generation (set_in_flight t s) = op_generation s"
  by (simp_all add: set_in_flight_def)

lemma mark_fired_sel [simp]:
  "stg_status (mark_fired t s) = stg_status s" "in_flight_since (mark_fired t s) = t"
  "op_generation (mark_fired t s) = op_generation s + 1"
  by (simp_all add: mark_fired_def)

lemma views_frame [simp]:
  "intents (c\<lparr>paths := p\<rparr>) = intents c" "observed (c\<lparr>paths := p\<rparr>) = observed c"
  "in_flight (c\<lparr>paths := p\<rparr>) = in_flight c" "generations (c\<lparr>paths := p\<rparr>) = generations c"
  "intents (c\<lparr>listeners := l\<rparr>) = intents c" "observed (c\<lparr>listeners := l\<rparr>) = observed c"
  "in_flight (c\<lparr>listeners := l\<rparr>) = in_flight c" "generations (c\<lparr>listeners := l\<rparr>) = generations c"
  by (simp_all add: views)

lemma apply_target_frame:
  assumes "apply_desired_stage_target penv r c = (rc, c', es)"
  shows "observed c' = observed c" "in_flight c' = in_flight c" "generations c' = generations c"
    "paths c' = paths c" "listeners c' = listeners c" "pool c' = pool c" "ops_wg c' = ops_wg c"
  using assms by (auto simp: apply_desired_stage_target_def Let_def split: if_splits)

lemma reconciled_stage_status [simp]: "stg_status (reconciled_stage e i c) = stg_status (stages c ! i)"
  by (simp add: reconciled_stage_def Let_def)

lemma handle_reconcile_views:
  assumes "length (stages c) = STRIM_STAGE_NAME_COUNT"
  shows "intents (strim_controller_handle_reconcile env c) = intents c"
    "observed (strim_controller_handle_reconcile env c) = observed c"
    "paths (strim_controller_handle_reconcile env c) = paths c"
proof -
  have st: "map stg_status (stages (strim_controller_handle_reconcile env c)) =
      map stg_status (stages c)"
  proof (cases "shutting_down c")
    case True
    then show ?thesis by (simp add: handle_reconcile_shutdown)
  next
    case False
    note eq = handle_reconcile_eq [OF assms False, where env = env]
    then show ?thesis using assms by (auto intro!: nth_equalityI)
  qed
  then have "map f (map stg_status (stages (strim_controller_handle_reconcile env c))) =
      map f (map stg_status (stages c))" for f :: "strim_stage_status \<Rightarrow> c_enum"
    by simp
  then show "intents (strim_controller_handle_reconcile env c) = intents c"
    "observed (strim_controller_handle_reconcile env c) = observed c"
    by (simp_all add: views comp_def)
  have "paths (reconcile_loop env is c) = paths c" for "is"
    by (induction "is" arbitrary: c) simp_all
  then show "paths (strim_controller_handle_reconcile env c) = paths c"
    by (simp add: strim_controller_handle_reconcile_def del: upt_rec_numeral)
qed

lemma teardown_loop_paths: "paths (fst (teardown_loop is c)) = paths c"
  by (induction "is" arbitrary: c)
    (auto simp: teardown_stage_def Let_def case_prod_unfold split: option.splits)



section \<open>Path events and commands\<close>

text \<open>What an accepted or rejected target does, whatever routed to it.\<close>

lemma apply_target_spec:
  assumes "ctl_ok c" and "route_ok (stages c) kind r"
    and "apply_desired_stage_target penv r c = (rc, c', es)"
  shows "(rc = 0 \<and> intents c' = (intents c)[as_unsigned (r_target_stage r) := r_target_state r] \<or>
      rc = STRIM_CTRL_ERR_PREREQ \<and> c' = c) \<and>
    es = (if intents c' = intents c then [] else notify_listeners c')"
proof -
  let ?i = "as_unsigned (r_target_stage r)"
  have i: "?i < length (stages c)"
    using assms(1,2) by (simp add: ctl_ok_def route_ok_def)
  then have "intents c ! ?i = desired (stg_status (stages c ! ?i))"
    by (simp add: intents_def)
  moreover have "intents (upd_stage ?i (set_desired v) c) = (intents c)[?i := v]" for v
    by (simp add: intents_def map_update)
  moreover have "(intents c)[?i := v] = intents c \<longleftrightarrow> intents c ! ?i = v"
    "intents c = (intents c)[?i := v] \<longleftrightarrow> intents c ! ?i = v" for v
    using i list_update_same_conv [of ?i "intents c" v] by (auto simp: intents_def)
  ultimately show ?thesis
    using assms(3)
    by (auto simp: apply_desired_stage_target_def Let_def split: if_splits option.splits)
qed

lemma notify_nil_iff: "notify_listeners c = [] \<longleftrightarrow> listeners c = []"
  by (simp add: notify_listeners_def Let_def)

text \<open>
  So a changed path status by itself reaches no listener, although the status they are given
  contains it and \<open>controller.h\<close> says they are invoked whenever the status changes.
\<close>

lemma path_change_untold:
  assumes "ctl_ok c" and "as_unsigned (pe_path e) < STRIM_PATH_NAME_COUNT" and "valid_path_status (pe_status e)"
    and "find_path_event_route c (pe_path e) (pe_status e) = None"
    and "paths c ! as_unsigned (pe_path e) \<noteq> pe_status e"
  shows "\<exists>c'. strim_controller_handle_path_event penv (Some e) c = (0, c', []) \<and>
    st_paths (status_snapshot c') \<noteq> st_paths (status_snapshot c)"
proof -
  let ?c1 = "c\<lparr>paths := (paths c)[as_unsigned (pe_path e) := pe_status e]\<rparr>"
  have "length (paths c) = STRIM_PATH_NAME_COUNT" using assms(1) by (simp add: ctl_ok_def)
  then have "paths ?c1 ! as_unsigned (pe_path e) \<noteq> paths c ! as_unsigned (pe_path e)"
    using assms(2,5) by simp
  then have "st_paths (status_snapshot ?c1) \<noteq> st_paths (status_snapshot c)"
    by (auto simp: status_snapshot_def)
  moreover have "find_path_event_route ?c1 (pe_path e) (pe_status e) = None"
    using assms(4) by (simp add: find_path_event_route_def)
  ultimately show ?thesis
    using assms(2,3) by (simp add: strim_controller_handle_path_event_def Let_def)
qed

text \<open>
  C10: A path event with a known path and a known status is always recorded, also when the
  intent it routes to is refused; the other path keeps its status. When the event is
  accepted and a route matches, the routed stage's intent becomes the routed state and
  no other intent changes; without a route no intent changes. Anything else is an error that
  changes nothing. Listeners are told when an intent changed and only then: a path status that
  changes without a change of intent is recorded, but not reported to them.
\<close>

theorem path_event_behaviour:
  assumes "ctl_ok c" and "strim_controller_handle_path_event penv (Some e) c = (rc, c', es)"
  shows "(if as_unsigned (pe_path e) \<ge> STRIM_PATH_NAME_COUNT then rc = STRIM_CTRL_ERR_UNKNOWN \<and> c' = c
     else if \<not> valid_path_status (pe_status e) then rc = STRIM_CTRL_ERR_BADARG \<and> c' = c
     else paths c' = (paths c)[as_unsigned (pe_path e) := pe_status e] \<and>
       (case find_path_event_route c (pe_path e) (pe_status e) of
          None \<Rightarrow> rc = 0 \<and> intents c' = intents c
        | Some r \<Rightarrow>
            rc = 0 \<and> intents c' = (intents c)[as_unsigned (r_target_stage r) := r_target_state r] \<or>
            rc = STRIM_CTRL_ERR_PREREQ \<and> r_prerequisite r \<noteq> None \<and> intents c' = intents c)) \<and>
    es = (if intents c' = intents c then [] else notify_listeners c')"
proof -
  let ?c1 = "c\<lparr>paths := (paths c)[as_unsigned (pe_path e) := pe_status e]\<rparr>"
  have ok1: "ctl_ok ?c1" if "valid_path_status (pe_status e)"
    using assms(1) that by (rule ctl_ok_set_path)
  have fr: "find_path_event_route ?c1 = find_path_event_route c"
    by (simp add: fun_eq_iff find_path_event_route_def)
  show ?thesis
  proof (cases "as_unsigned (pe_path e) \<ge> STRIM_PATH_NAME_COUNT \<or> \<not> valid_path_status (pe_status e)")
    case True
    then show ?thesis
      using assms(2) by (auto simp: strim_controller_handle_path_event_def)
  next
    case valid: False
    show ?thesis
    proof (cases "find_path_event_route c (pe_path e) (pe_status e)")
      case None
      then show ?thesis
        using valid assms(2) fr by (auto simp: strim_controller_handle_path_event_def Let_def)
    next
      case (Some r)
      have run: "apply_desired_stage_target penv r ?c1 = (rc, c', es)"
        using Some valid assms(2) fr by (simp add: strim_controller_handle_path_event_def Let_def)
      have "route_ok (stages ?c1) STRIM_ROUTE_PATH_EVENT r"
        using find_path_event_route_ok [OF assms(1) Some] by simp
      from apply_target_spec [OF ok1 this run] valid
      have "rc = 0 \<and> intents c' = (intents c)[as_unsigned (r_target_stage r) := r_target_state r] \<or>
          rc = STRIM_CTRL_ERR_PREREQ \<and> c' = ?c1"
        and "es = (if intents c' = intents c then [] else notify_listeners c')"
        by auto
      moreover have "paths c' = paths ?c1" using run by (rule apply_target_frame)
      moreover have "rc = STRIM_CTRL_ERR_PREREQ \<Longrightarrow> r_prerequisite r \<noteq> None"
        using run by (auto simp: apply_desired_stage_target_def Let_def split: if_splits option.splits)
      ultimately show ?thesis using Some valid by auto
    qed
  qed
qed

text \<open>
  C11: A command with a route either sets the routed stage's intent to the routed state, or
  is refused with the prerequisite error exactly when the intent would change and the
  prerequisite rejects it; a command without a route is unknown. A refused or unknown command
  changes nothing, and listeners are told exactly when an intent changed.
\<close>

theorem control_behaviour:
  assumes "ctl_ok c" and "strim_controller_handle_control penv (Some cmd) c = (rc, c', es)"
  shows "(case (if as_unsigned (cc_component cmd) \<ge> STRIM_COMPONENT_COUNT \<or>
                   as_unsigned (cc_action cmd) \<ge> STRIM_ACTION_COUNT then None
                else find_control_route c (cc_component cmd) (cc_action cmd)) of
       None \<Rightarrow> rc = STRIM_CTRL_ERR_UNKNOWN \<and> c' = c
     | Some r \<Rightarrow>
         if intents c ! as_unsigned (r_target_stage r) \<noteq> r_target_state r \<and>
            (\<exists>f. r_prerequisite r = Some f \<and> penv f c (r_prerequisite_userdata r) \<noteq> 0)
         then rc = STRIM_CTRL_ERR_PREREQ \<and> c' = c
         else rc = 0 \<and>
           intents c' = (intents c)[as_unsigned (r_target_stage r) := r_target_state r]) \<and>
    es = (if intents c' = intents c then [] else notify_listeners c')"
proof (cases "as_unsigned (cc_component cmd) \<ge> STRIM_COMPONENT_COUNT \<or>
    as_unsigned (cc_action cmd) \<ge> STRIM_ACTION_COUNT \<or>
    find_control_route c (cc_component cmd) (cc_action cmd) = None")
  case True
  then show ?thesis
    using assms(2) by (auto simp: strim_controller_handle_control_def split: if_splits)
next
  case False
  then obtain r where r: "find_control_route c (cc_component cmd) (cc_action cmd) = Some r" by auto
  have run: "apply_desired_stage_target penv r c = (rc, c', es)"
    using False r assms(2) by (simp add: strim_controller_handle_control_def)
  have ok: "route_ok (stages c) STRIM_ROUTE_CONTROL r"
    using find_control_route_ok [OF assms(1) r] by simp
  then have "intents c ! as_unsigned (r_target_stage r) =
      desired (stg_status (stages c ! as_unsigned (r_target_stage r)))"
    using assms(1) by (simp add: intents_def ctl_ok_def route_ok_def)
  moreover from this have "rc = (if intents c ! as_unsigned (r_target_stage r) \<noteq> r_target_state r \<and>
      (\<exists>f. r_prerequisite r = Some f \<and> penv f c (r_prerequisite_userdata r) \<noteq> 0)
      then STRIM_CTRL_ERR_PREREQ else 0)"
    using run by (auto simp: apply_desired_stage_target_def Let_def split: if_splits option.splits)
  ultimately show ?thesis
    using apply_target_spec [OF assms(1) ok run] False r by (auto split: if_splits)
qed

text \<open>The booted controller when the ingress path has become ready.\<close>

definition demo_ready :: strim_controller where
  "demo_ready = (upd_stage 1 (set_desired STRIM_STAGE_RUNNING) demo_ctl)\<lparr>paths := [1, 0]\<rparr>"

lemma demo_path_ready:
  "strim_controller_handle_path_event boot_prereqs
     (Some \<lparr>pe_path = STRIM_PATH_INGRESS0, pe_status = STRIM_PATH_READY\<rparr>) demo_ctl =
     (0, demo_ready, [])"
  by (simp add: demo_ready_def demo_eval strim_controller_handle_path_event_def find_path_event_route_def
      apply_desired_stage_target_def upd_stage_def notify_listeners_def)

theorem path_event_behaviour_witness:
  "ctl_ok demo_ctl \<and>
   strim_controller_handle_path_event boot_prereqs
     (Some \<lparr>pe_path = STRIM_PATH_INGRESS0, pe_status = STRIM_PATH_READY\<rparr>) demo_ctl =
     (0, demo_ready, []) \<and>
   intents (fst (snd (strim_controller_handle_path_event boot_prereqs
     (Some \<lparr>pe_path = STRIM_PATH_INGRESS0, pe_status = STRIM_PATH_READY\<rparr>) demo_ctl))) = [1, 1, 0, 0]"
proof -
  let ?e = "\<lparr>pe_path = STRIM_PATH_INGRESS0, pe_status = STRIM_PATH_READY\<rparr> :: strim_path_event"
  note run = demo_path_ready
  have route: "find_path_event_route demo_ctl STRIM_PATH_INGRESS0 STRIM_PATH_READY =
      Some (path_route STRIM_PATH_INGRESS0 STRIM_PATH_READY STRIM_STAGE_NORMALIZE STRIM_STAGE_RUNNING)"
    by (simp add: demo_eval find_path_event_route_def)
  have "intents demo_ctl = [1, 0, 0, 0]" by (simp add: demo_eval intents_def)
  with path_event_behaviour [OF demo_ctl_ok run] run route demo_ctl_ok show ?thesis
    by (simp add: as_unsigned_def cast_simps path_route_def)
qed

theorem control_behaviour_witness:
  "ctl_ok demo_ctl \<and>
   strim_controller_handle_control boot_prereqs
     (Some \<lparr>cc_component = STRIM_COMPONENT_EGRESS, cc_action = STRIM_ACTION_START\<rparr>) demo_ctl =
     (STRIM_CTRL_ERR_PREREQ, demo_ctl, [])"
proof -
  let ?k = "\<lparr>cc_component = STRIM_COMPONENT_EGRESS, cc_action = STRIM_ACTION_START\<rparr> ::
    strim_control_command"
  obtain rc c' es where run:
    "strim_controller_handle_control boot_prereqs (Some ?k) demo_ctl = (rc, c', es)"
    by (cases "strim_controller_handle_control boot_prereqs (Some ?k) demo_ctl")
  have "boot_prereqs fn_prereq_ingress0_ready demo_ctl 0 \<noteq> 0"
    by (simp add: boot_prereqs_def prereq_ingress0_ready_def strim_controller_handle_status_def
        status_snapshot_def demo_eval)
  moreover have "find_control_route demo_ctl STRIM_COMPONENT_EGRESS STRIM_ACTION_START =
      Some (control_route STRIM_COMPONENT_EGRESS STRIM_ACTION_START STRIM_STAGE_SCALE_AND_EGRESS
        STRIM_STAGE_RUNNING (Some fn_prereq_ingress0_ready))"
    by (simp add: demo_eval find_control_route_def)
  moreover have "intents demo_ctl = [1, 0, 0, 0]" by (simp add: demo_eval intents_def)
  ultimately show ?thesis
    using control_behaviour [OF demo_ctl_ok run] run demo_ctl_ok
    by (simp add: as_unsigned_def control_route_def)
qed

end
