(* ===== verification/Reconcile_Props.thy ===== *)
theory Reconcile_Props
  imports Controller_Props
begin

text \<open>
  What the reconcile loop guarantees: which ops one pass launches, that an op is not
  launched again while it is in flight, that a late retry supersedes the op it replaces,
  that a failed op is retried at once, and that reports of the launched ops settle
  the controller.
\<close>

section \<open>One pass\<close>

text \<open>
  C3: One reconcile pass launches, in stage order and at most once each, exactly the stages whose
  desired and observed states differ, whose op exists, which have no op in flight or
  one past its timeout, and for which the two allocations succeed while the controller and the
  pool are up. Each launched job carries the start or stop op of the desired state, the
  stage's op context, the new generation and its deadline; the wait group grows by the
  number of jobs; a stage that has settled loses its in-flight mark; nothing else is launched.
\<close>

theorem reconcile_pass_exact:
  assumes "ctl_ok c" and "\<not> shutting_down c"
  shows "wp_jobs (pool (strim_controller_handle_reconcile env c)) = wp_jobs (pool c) @
      map (\<lambda>i. fired_job (env i) i c)
        (filter (\<lambda>i. fires (env i) i c) [0..<STRIM_STAGE_NAME_COUNT]) \<and>
    ops_wg (strim_controller_handle_reconcile env c) = ops_wg c +
      length (filter (\<lambda>i. fires (env i) i c) [0..<STRIM_STAGE_NAME_COUNT]) \<and>
    stages (strim_controller_handle_reconcile env c) =
      map (\<lambda>i. reconciled_stage (env i) i c) [0..<STRIM_STAGE_NAME_COUNT]"
proof -
  have len: "length (stages c) = STRIM_STAGE_NAME_COUNT" using assms(1) by (simp add: ctl_ok_def)
  note eq = handle_reconcile_eq [OF len assms(2), where env = env]
  have "stages (strim_controller_handle_reconcile env c) =
      map (\<lambda>i. reconciled_stage (env i) i c) [0..<STRIM_STAGE_NAME_COUNT]"
    using eq(1,4) by (auto intro!: nth_equalityI simp del: upt_rec_numeral)
  with eq(2,3) show ?thesis by blast
qed

lemma demo_fires:
  "fires (demo_fire t 0) 0 demo_ctl"
  "\<not> fires (demo_fire t 1) 1 demo_ctl" "\<not> fires (demo_fire t 2) 2 demo_ctl"
  "\<not> fires (demo_fire t 3) 3 demo_ctl"
  by (simp_all add: fires_def reconcile_due_def stage_op_for_def demo_eval)

lemma upt_4: "[0..<STRIM_STAGE_NAME_COUNT] = [0, 1, 2, 3]"
  by (simp add: upt_rec)

theorem reconcile_pass_exact_witness:
  "ctl_ok demo_ctl \<and> \<not> shutting_down demo_ctl \<and>
   map oj_stage (wp_jobs (pool (strim_controller_handle_reconcile (demo_fire 1000) demo_ctl))) = [0] \<and>
   ops_wg (strim_controller_handle_reconcile (demo_fire 1000) demo_ctl) = 1"
proof -
  have up: "\<not> shutting_down demo_ctl" by (simp add: demo_ctl_eq)
  have f: "filter (\<lambda>i. fires (demo_fire 1000 i) i demo_ctl) [0..<STRIM_STAGE_NAME_COUNT] = [0]"
    unfolding upt_4 by (simp add: demo_fires demo_fires(2) [simplified])
  have j: "wp_jobs (pool demo_ctl) = []" "ops_wg demo_ctl = 0" by (simp_all add: demo_ctl_eq)
  show ?thesis
    using reconcile_pass_exact [OF demo_ctl_ok up, of "demo_fire 1000"] demo_ctl_ok up
    unfolding f j by (simp add: fired_job_def Let_def)
qed

section \<open>The in-flight window\<close>

lemma stage_jobs_reconcile:
  assumes "ctl_ok c" and "\<not> shutting_down c" and "i < STRIM_STAGE_NAME_COUNT"
  shows "stage_jobs i (strim_controller_handle_reconcile env c) =
    stage_jobs i c @ (if fires (env i) i c then [fired_job (env i) i c] else [])"
proof -
  have len: "length (stages c) = STRIM_STAGE_NAME_COUNT" using assms(1) by (simp add: ctl_ok_def)
  have "filter (\<lambda>j. oj_stage j = int i) (map (\<lambda>i. fired_job (env i) i c) (filter P [0..<n])) =
      (if P i \<and> i < n then [fired_job (env i) i c] else [])" for P n
    by (induction n) (auto simp: fired_job_def Let_def)
  then show ?thesis
    using handle_reconcile_eq(2) [OF len assms(2), where env = env] assms(3)
    by (simp add: stage_jobs_def del: upt_rec_numeral)
qed

text \<open>
  An action that leaves the in-flight mark of stage \<open>i\<close> alone: no completion report, no clear
  of its live op, no teardown, and if a reconcile pass runs it reads a clock inside the
  window and still finds the stage unsettled.
\<close>

definition quiet :: "nat \<Rightarrow> strim_controller \<Rightarrow> strim_action_kind \<Rightarrow> (nat \<Rightarrow> fire_env) \<Rightarrow> bool" where
  "quiet i c k fenv =
     (case k of
        ACTION_STAGE_EVENT e \<Rightarrow> as_unsigned (se_stage e) \<noteq> i
      | ACTION_CLEAR_INFLIGHT s g \<Rightarrow> \<not> (as_unsigned s = i \<and> g = op_generation (stages c ! i))
      | ACTION_TEARDOWN \<Rightarrow> False
      | ACTION_RECONCILE \<Rightarrow>
          fe_now_plan (fenv i) - in_flight_since (stages c ! i) < inflight_timeout_ms c \<and>
          desired (stg_status (stages c ! i)) \<noteq> actual (stg_status (stages c ! i))
      | _ \<Rightarrow> True)"

fun quiet_run ::
  "prereq_env \<Rightarrow> nat \<Rightarrow> (strim_action_kind \<times> (nat \<Rightarrow> fire_env)) list \<Rightarrow> strim_controller \<Rightarrow> bool"
where
  "quiet_run penv i [] c = True"
| "quiet_run penv i ((k, fenv) # ks) c =
     (quiet i c k fenv \<and> quiet_run penv i ks (fst (snd (run_action penv fenv k c))))"

definition tracking :: "nat \<Rightarrow> strim_controller \<Rightarrow> int \<times> u64 \<times> strim_op_job list" where
  "tracking i c = (in_flight_since (stages c ! i), op_generation (stages c ! i), stage_jobs i c)"

lemma tracking_views:
  assumes "in_flight c' = in_flight c" and "generations c' = generations c" and "pool c' = pool c"
    and "i < length (stages c)"
  shows "tracking i c' = tracking i c"
proof -
  have "length (stages c') = length (stages c)" using assms(1) by (metis in_flight_def length_map)
  then show ?thesis
    using assms nth_map [of i "stages c" in_flight_since] nth_map [of i "stages c'" in_flight_since]
      nth_map [of i "stages c" op_generation] nth_map [of i "stages c'" op_generation]
    by (simp add: tracking_def in_flight_def generations_def stage_jobs_def)
qed

lemma tracking_upd_other: "j \<noteq> i \<Longrightarrow> tracking i (upd_stage j f c) = tracking i c"
  by (simp add: tracking_def stage_jobs_def)

lemma intent_tracking:
  assumes "run_action penv fenv k c = (rc, c', es)" and "i < length (stages c)"
    and "(\<exists>e. k = ACTION_PATH_EVENT e) \<or> (\<exists>x. k = ACTION_CONTROL x)"
  shows "tracking i c' = tracking i c"
proof -
  have "in_flight c' = in_flight c \<and> generations c' = generations c \<and> pool c' = pool c"
  proof (cases "\<exists>e. k = ACTION_PATH_EVENT e")
    case True
    with assms(1) show ?thesis
      by (auto simp: strim_controller_handle_path_event_def Let_def split: if_splits option.splits)
        (drule apply_target_frame, simp)+
  next
    case False
    with assms(1,3) show ?thesis
      by (auto simp: strim_controller_handle_control_def dest: apply_target_frame
          split: if_splits option.splits)
  qed
  then show ?thesis using tracking_views assms(2) by blast
qed

lemma quiet_action:
  assumes "ctl_ok c" and "i < STRIM_STAGE_NAME_COUNT" and "in_flight_since (stages c ! i) \<noteq> 0"
    and "quiet i c k fenv" and "run_action penv fenv k c = (rc, c', es)"
  shows "tracking i c' = tracking i c"
proof -
  have i: "i < length (stages c)" using assms(1,2) by (simp add: ctl_ok_def)
  show ?thesis
  proof (cases k)
    case ACTION_RECONCILE
    then have "\<not> fires (fenv i) i c" "reconciled_stage (fenv i) i c = stages c ! i"
      using assms(3,4) by (simp_all add: quiet_def fires_def reconciled_stage_def reconcile_due_def Let_def)
    moreover have "c' = strim_controller_handle_reconcile fenv c"
      using ACTION_RECONCILE assms(5) by simp
    ultimately show ?thesis
      using handle_reconcile_eq(1) [of c i fenv] stage_jobs_reconcile [of c i fenv]
        handle_reconcile_shutdown [of c fenv] assms(1,2) i
      by (cases "shutting_down c") (auto simp: tracking_def ctl_ok_def)
  next
    case (ACTION_STAGE_EVENT e)
    then show ?thesis
      using assms(4,5) tracking_upd_other
      by (auto simp: quiet_def strim_controller_handle_stage_event_def Let_def split: if_splits)
  next
    case (ACTION_CLEAR_INFLIGHT s g)
    then show ?thesis
      using assms(4,5) tracking_upd_other [of "as_unsigned s" i]
      by (cases "as_unsigned s = i") (auto simp: quiet_def clear_inflight_def)
  qed (use assms(4,5) i intent_tracking [OF assms(5) i] in
      \<open>auto simp: quiet_def ctl_handlers tracking_def stage_jobs_def Let_def
        split: if_splits option.splits\<close>)
qed

lemma quiet_run_tracking:
  assumes "ctl_ok c" and "i < STRIM_STAGE_NAME_COUNT" and "in_flight_since (stages c ! i) \<noteq> 0"
    and "quiet_run penv i ks c"
  shows "tracking i (run_actions penv ks c) = tracking i c"
  using assms
proof (induction penv i ks c rule: quiet_run.induct)
  case (2 penv i k fenv ks c)
  let ?c' = "fst (snd (run_action penv fenv k c))"
  have "tracking i ?c' = tracking i c"
    by (rule quiet_action [of c i k fenv penv "fst (run_action penv fenv k c)" _
          "snd (snd (run_action penv fenv k c))"]) (use 2 in auto)
  with 2 show ?case by (auto simp: ctl_ok_run_action_fst tracking_def)
qed simp

text \<open>
  C4: Once an op of a stage has been launched, no sequence of events, commands, status reads,
  listener changes, clears of older ops and reconcile passes launches another op for that stage
  while the clock stays inside the in-flight window: the stage keeps its mark and its
  generation, so the running op stays the live one.
\<close>

theorem no_second_launch_in_window:
  assumes "ctl_ok c" and "\<not> shutting_down c" and "i < STRIM_STAGE_NAME_COUNT" and "fires (env i) i c"
    and "fe_now_fire (env i) \<noteq> 0"
    and "c1 = strim_controller_handle_reconcile env c" and "quiet_run penv i ks c1"
  shows "stage_jobs i (run_actions penv ks c1) = stage_jobs i c @ [fired_job (env i) i c] \<and>
    \<not> strim_stage_op_superseded (run_actions penv ks c1) (Some (oj_cancel (fired_job (env i) i c)))"
proof -
  have len: "length (stages c) = STRIM_STAGE_NAME_COUNT" using assms(1) by (simp add: ctl_ok_def)
  have c1: "stages c1 ! i = mark_fired (fe_now_fire (env i)) (stages c ! i)"
    using handle_reconcile_eq(1) [OF len assms(2,3), of env] assms(4,6)
    by (auto simp: reconciled_stage_def fires_def Let_def)
  have "tracking i (run_actions penv ks c1) = tracking i c1"
    using assms(1,3,5,6,7) c1 by (intro quiet_run_tracking) (auto simp: ctl_ok_reconcile)
  moreover have "stage_jobs i c1 = stage_jobs i c @ [fired_job (env i) i c]"
    using stage_jobs_reconcile [OF assms(1-3), of env] assms(4,6) by simp
  ultimately show ?thesis
    using c1 by (simp add: tracking_def strim_stage_op_superseded_def fired_job_def Let_def)
qed

theorem no_second_launch_in_window_witness:
  "fires (demo_fire 1000 0) 0 demo_ctl \<and>
   stage_jobs 0 (run_actions boot_prereqs
     [(ACTION_RECONCILE, demo_fire 6000), (ACTION_STATUS, demo_fire 7000),
      (ACTION_RECONCILE, demo_fire 30999)]
     (strim_controller_handle_reconcile (demo_fire 1000) demo_ctl)) =
   [fired_job (demo_fire 1000 0) 0 demo_ctl]"
proof -
  let ?c1 = "strim_controller_handle_reconcile (demo_fire 1000) demo_ctl"
  let ?ks = "[(ACTION_RECONCILE, demo_fire 6000), (ACTION_STATUS, demo_fire 7000),
      (ACTION_RECONCILE, demo_fire 30999)]"
  have up: "\<not> shutting_down demo_ctl" by (simp add: demo_ctl_eq)
  have st: "stages (strim_controller_handle_reconcile (demo_fire t) c) ! 0 =
      reconciled_stage (demo_fire t 0) 0 c" if "ctl_ok c" "\<not> shutting_down c" for t c
    using handle_reconcile_eq(1) [of c 0 "demo_fire t"] that by (simp add: ctl_ok_def)
  have t: "inflight_timeout_ms demo_ctl = 30000" by (simp add: demo_ctl_eq)
  have s0: "stages demo_ctl ! 0 = demo_stage STRIM_STAGE_MEDIA_MTX STRIM_STAGE_RUNNING"
    by (simp add: demo_ctl_eq)
  have s1: "stages ?c1 ! 0 = mark_fired 1000 (demo_stage STRIM_STAGE_MEDIA_MTX STRIM_STAGE_RUNNING)"
    unfolding st [OF demo_ctl_ok up]
    by (simp add: reconciled_stage_def reconcile_due_def stage_op_for_def demo_eval)
  have ok1: "ctl_ok ?c1" by (simp add: ctl_ok_reconcile demo_ctl_ok)
  let ?c2 = "strim_controller_handle_reconcile (demo_fire 6000) ?c1"
  have up1: "\<not> shutting_down ?c1" using up by (simp add: handle_reconcile_static)
  have q1: "quiet 0 ?c1 ACTION_RECONCILE (demo_fire 6000)"
    by (simp add: quiet_def s1 handle_reconcile_static t demo_fire_def demo_stage_eval)
  have s2: "stages ?c2 ! 0 = stages ?c1 ! 0"
    unfolding st [OF ok1 up1]
    by (simp add: reconciled_stage_def reconcile_due_def s1 handle_reconcile_static t demo_fire_def
        demo_stage_eval)
  have q2: "quiet 0 ?c2 ACTION_RECONCILE (demo_fire 30999)"
    by (simp add: quiet_def s2 s1 handle_reconcile_static t demo_fire_def demo_stage_eval)
  have "quiet_run boot_prereqs 0 ?ks ?c1"
    using q1 q2 by (simp add: quiet_def strim_controller_handle_status_def)
  moreover have "stage_jobs 0 demo_ctl = []" by (simp add: stage_jobs_def demo_ctl_eq)
  ultimately show ?thesis
    using no_second_launch_in_window [OF demo_ctl_ok up, of 0 "demo_fire 1000" ?c1 boot_prereqs ?ks]
      demo_fires(1) [of 1000] by (simp add: demo_fire_def)
qed

section \<open>Late retries supersede\<close>

lemma fired_stage:
  assumes "ctl_ok c" and "i < STRIM_STAGE_NAME_COUNT" and "fires (env i) i c"
  shows "stages (strim_controller_handle_reconcile env c) ! i =
    mark_fired (fe_now_fire (env i)) (stages c ! i)"
  using handle_reconcile_eq(1) [of c i env] assms
  by (auto simp: reconciled_stage_def fires_def ctl_ok_def Let_def)

text \<open>
  C5: When a pass launches a stage again while an older op of it is still outstanding, the
  older op is superseded from that moment on and the new one is live: the older op's
  cancellation handle reports it, its late failure neither clears the new op's mark nor
  enqueues anything, and a clear it had already enqueued has no effect.
\<close>

theorem retry_supersedes:
  assumes "ctl_ok c" and "i < STRIM_STAGE_NAME_COUNT" and "fires (env i) i c"
    and "oj_stage old = int i" and "cn_current_generation (oj_cancel old) = i"
    and "cn_generation (oj_cancel old) = op_generation (stages c ! i)"
    and "c1 = strim_controller_handle_reconcile env c"
  shows "strim_stage_op_superseded c1 (Some (oj_cancel old)) \<and>
    \<not> strim_stage_op_superseded c1 (Some (oj_cancel (fired_job (env i) i c))) \<and>
    run_stage_op_end old err alloc c1 = c1\<lparr>ops_wg := wg_done (ops_wg c1)\<rparr> \<and>
    clear_inflight (oj_stage old) (cn_generation (oj_cancel old)) c1 = c1"
proof -
  have s: "stages c1 ! i = mark_fired (fe_now_fire (env i)) (stages c ! i)"
    using fired_stage [of c i env] assms(1-3,7) by simp
  have "as_unsigned (int i) = i" using assms(2) by (simp add: as_unsigned_def)
  then show ?thesis
    using s assms(4-6)
    by (simp add: strim_stage_op_superseded_def run_stage_op_end_def clear_inflight_def
        fired_job_def Let_def)
qed

text \<open>The booted controller after its first pass, at 1000 ms.\<close>

definition demo_running :: strim_controller where
  "demo_running = strim_controller_handle_reconcile (demo_fire 1000) demo_ctl"

lemma demo_running_ok: "ctl_ok demo_running"
  by (simp add: demo_running_def ctl_ok_reconcile demo_ctl_ok)

lemma demo_running_stage:
  "stages demo_running ! 0 = mark_fired 1000 (demo_stage STRIM_STAGE_MEDIA_MTX STRIM_STAGE_RUNNING)"
  using fired_stage [OF demo_ctl_ok, of 0 "demo_fire 1000"] demo_fires(1) [of 1000]
  by (simp add: demo_running_def demo_ctl_eq demo_fire_def)

lemma demo_running_static:
  "inflight_timeout_ms demo_running = 30000" "\<not> shutting_down demo_running"
  "\<not> wp_shutting_down (pool demo_running)" "queue demo_running = []" "\<not> q_closed demo_running"
  "listeners demo_running = []"
proof -
  have "q_closed (reconcile_loop env is c) = q_closed c" for env "is" c
    by (induction "is" arbitrary: c) simp_all
  then show "\<not> q_closed demo_running"
    by (simp add: demo_running_def strim_controller_handle_reconcile_def demo_ctl_eq
        del: upt_rec_numeral)
qed (simp_all add: demo_running_def handle_reconcile_static demo_ctl_eq)

lemma demo_running_refires: "fires (demo_fire 31000 0) 0 demo_running"
  by (simp add: fires_def reconcile_due_def stage_op_for_def demo_running_stage
      demo_running_static demo_fire_def demo_stage_eval mark_fired_def)

theorem retry_supersedes_witness:
  "fires (demo_fire 31000 0) 0 demo_running \<and>
   strim_stage_op_superseded (strim_controller_handle_reconcile (demo_fire 31000) demo_running)
     (Some (oj_cancel (fired_job (demo_fire 1000 0) 0 demo_ctl)))"
  using retry_supersedes [OF demo_running_ok, of 0 "demo_fire 31000"
      "fired_job (demo_fire 1000 0) 0 demo_ctl"] demo_running_refires
  by (simp add: demo_running_stage fired_job_def demo_ctl_eq demo_stage_eval mark_fired_def Let_def)

section \<open>Failed ops are retried\<close>

text \<open>
  C6: When the live op of a stage fails while the queue is open, its completion enqueues one
  clear for its generation, and once the queue thread has run that clear the very next
  pass may launch the stage again whatever the clock says, if the stage is still
  unsettled. No other stage's tracking changes.
\<close>

theorem failed_op_retried:
  assumes "ctl_ok c" and "i < STRIM_STAGE_NAME_COUNT" and "oj_stage job = int i"
    and "cn_current_generation (oj_cancel job) = i"
    and "cn_generation (oj_cancel job) = op_generation (stages c ! i)"
    and "err \<noteq> 0" and "\<not> q_closed c" and "c1 = run_stage_op_end job err True c"
    and "run_action penv fenv (act_kind (last (queue c1))) c1 = (rc, c2, es)"
  shows "queue c1 = queue c @ [\<lparr>act_kind = ACTION_CLEAR_INFLIGHT (int i) (op_generation (stages c ! i)),
        act_owner = None\<rparr>] \<and>
    in_flight c2 = (in_flight c)[i := 0] \<and> generations c2 = generations c \<and>
    (\<forall>e. fires e i c2 \<longleftrightarrow>
      intents c ! i \<noteq> observed c ! i \<and> stage_op_for (stages c ! i) (intents c ! i) \<noteq> None \<and>
      \<not> shutting_down c \<and> fe_job_alloc e \<and> fe_node_alloc e \<and> \<not> wp_shutting_down (pool c))"
proof -
  have i: "i < length (stages c)" "as_unsigned (int i) = i"
    using assms(1,2) by (simp_all add: ctl_ok_def as_unsigned_def)
  let ?clear = "\<lparr>act_kind = ACTION_CLEAR_INFLIGHT (int i) (op_generation (stages c ! i)),
      act_owner = None\<rparr> :: strim_action"
  have c1: "c1 = c\<lparr>queue := queue c @ [?clear], ops_wg := wg_done (ops_wg c)\<rparr>"
    using assms(3-8)
    by (simp add: run_stage_op_end_def strim_stage_op_superseded_def Let_def)
  then have c2: "c2 = upd_stage i (set_in_flight 0) c1"
    using assms(9) i by (simp add: clear_inflight_def)
  have "stages c2 ! i = set_in_flight 0 (stages c ! i)"
    using i by (simp add: c2 c1)
  moreover have "stage_op_for (set_in_flight 0 s) = stage_op_for s" for s
    by (simp add: fun_eq_iff stage_op_for_def set_in_flight_def)
  ultimately have "\<forall>e. fires e i c2 \<longleftrightarrow>
      intents c ! i \<noteq> observed c ! i \<and> stage_op_for (stages c ! i) (intents c ! i) \<noteq> None \<and>
      \<not> shutting_down c \<and> fe_job_alloc e \<and> fe_node_alloc e \<and> \<not> wp_shutting_down (pool c)"
    using i by (simp add: fires_def reconcile_due_def views c2 c1 Let_def)
  moreover have "in_flight c2 = (in_flight c)[i := 0]" "generations c2 = generations c"
    using i by (simp_all add: c2 c1 views map_update list_update_same_conv)
  ultimately show ?thesis using c1 by simp
qed


theorem failed_op_retried_witness:
  "fires (demo_fire 1001 0) 0 (clear_inflight 0 1
     (run_stage_op_end (fired_job (demo_fire 1000 0) 0 demo_ctl) 7 True demo_running)) \<and>
   \<not> fires (demo_fire 1001 0) 0 demo_running"
proof -
  let ?job = "fired_job (demo_fire 1000 0) 0 demo_ctl"
  let ?c1 = "run_stage_op_end ?job 7 True demo_running"
  let ?clear = "\<lparr>act_kind = ACTION_CLEAR_INFLIGHT 0 1, act_owner = None\<rparr> :: strim_action"
  have job: "oj_stage ?job = int 0" "cn_current_generation (oj_cancel ?job) = 0"
    "cn_generation (oj_cancel ?job) = op_generation (stages demo_running ! 0)"
    by (simp_all add: fired_job_def demo_running_stage demo_ctl_eq demo_stage_eval mark_fired_def
        Let_def)
  have gen: "op_generation (stages demo_running ! 0) = 1"
    by (simp add: demo_running_stage demo_stage_eval)
  obtain rc c2 es where run:
    "run_action boot_prereqs (demo_fire 0) (act_kind (last (queue ?c1))) ?c1 = (rc, c2, es)"
    by (cases "run_action boot_prereqs (demo_fire 0) (act_kind (last (queue ?c1))) ?c1")
  note spec = failed_op_retried [OF demo_running_ok _ job _ _ refl run]
  then have "queue ?c1 = [?clear]" using demo_running_static gen by simp
  with run have c2: "c2 = clear_inflight 0 1 ?c1" by simp
  have "0 < length (stages demo_running)" using demo_running_ok by (simp add: ctl_ok_def)
  then have "intents demo_running ! 0 = 1" "observed demo_running ! 0 = 0"
    "stage_op_for (stages demo_running ! 0) 1 \<noteq> None"
    by (simp_all add: views demo_running_stage demo_stage_eval mark_fired_def stage_op_for_def)
  moreover have "\<not> fires (demo_fire 1001 0) 0 demo_running"
    by (simp add: fires_def reconcile_due_def demo_running_stage demo_running_static demo_fire_def
        demo_stage_eval)
  ultimately show ?thesis
    using spec demo_running_static by (simp add: c2 demo_fire_def)
qed

section \<open>Settling\<close>

text \<open>The report a launched op of stage \<open>i\<close> makes when it succeeds: the state it was launched for.\<close>

definition success_report :: "strim_controller \<Rightarrow> nat \<Rightarrow> strim_action_kind" where
  "success_report c i = ACTION_STAGE_EVENT \<lparr>se_stage = int i, se_state = intents c ! i\<rparr>"

definition settled :: "nat \<Rightarrow> strim_controller \<Rightarrow> bool" where
  "settled i c \<longleftrightarrow> intents c ! i = observed c ! i \<and> in_flight c ! i = 0"

lemma report_stage:
  assumes "ctl_ok c" and "i < STRIM_STAGE_NAME_COUNT" and "valid_stage_state v"
    and "run_action penv fenv (ACTION_STAGE_EVENT \<lparr>se_stage = int i, se_state = v\<rparr>) c = (rc, c', es)"
  shows "stages c' = (stages c)[i := set_in_flight 0 (set_actual v (stages c ! i))]"
  using assms by (auto simp: strim_controller_handle_stage_event_def as_unsigned_def Let_def)

lemma report_views:
  assumes "ctl_ok c" and "i < STRIM_STAGE_NAME_COUNT" and "valid_stage_state v"
    and "c' = fst (snd (run_action penv fenv (ACTION_STAGE_EVENT \<lparr>se_stage = int i, se_state = v\<rparr>) c))"
  shows "intents c' = intents c \<and> observed c' = (observed c)[i := v] \<and>
    in_flight c' = (in_flight c)[i := 0]"
proof -
  have "stages c' = (stages c)[i := set_in_flight 0 (set_actual v (stages c ! i))]"
    by (rule report_stage [OF assms(1-3), of penv fenv
          "fst (run_action penv fenv (ACTION_STAGE_EVENT \<lparr>se_stage = int i, se_state = v\<rparr>) c)" _
          "snd (snd (run_action penv fenv (ACTION_STAGE_EVENT \<lparr>se_stage = int i, se_state = v\<rparr>) c))"])
      (simp add: assms(4))
  moreover have "map f ((stages c)[i := s]) = (map f (stages c))[i := f s]" for f :: "strim_stage \<Rightarrow> int" and s
    by (simp add: map_update)
  moreover have "i < length (stages c)" using assms(1,2) by (simp add: ctl_ok_def)
  ultimately show ?thesis by (simp add: views list_update_same_conv)
qed

lemma ctl_ok_intent: "ctl_ok c \<Longrightarrow> i < STRIM_STAGE_NAME_COUNT \<Longrightarrow> valid_stage_state (intents c ! i)"
  by (auto simp: intents_def ctl_ok_def stage_ok_def)

lemma reports_settle:
  assumes "ctl_ok c" and "\<forall>i \<in> set is. i < STRIM_STAGE_NAME_COUNT" and "intents c = intents c0"
  shows "intents (run_actions penv (map (\<lambda>i. (success_report c0 i, fenv)) is) c) = intents c0 \<and>
    (\<forall>j < STRIM_STAGE_NAME_COUNT. j \<in> set is \<or> settled j c \<longrightarrow>
      settled j (run_actions penv (map (\<lambda>i. (success_report c0 i, fenv)) is) c))"
  using assms
proof (induction "is" arbitrary: c)
  case Nil
  then show ?case by simp
next
  case (Cons i "is")
  let ?c' = "fst (snd (run_action penv fenv (success_report c0 i) c))"
  have i: "i < STRIM_STAGE_NAME_COUNT" using Cons.prems by simp
  have v: "valid_stage_state (intents c0 ! i)" using ctl_ok_intent [OF Cons.prems(1) i] Cons.prems(3) by simp
  have st: "intents ?c' = intents c \<and> observed ?c' = (observed c)[i := intents c0 ! i] \<and>
      in_flight ?c' = (in_flight c)[i := 0]"
    unfolding success_report_def by (rule report_views [OF Cons.prems(1) i v refl])
  have ok: "ctl_ok ?c'" using Cons.prems(1) by (rule ctl_ok_run_action_fst)
  have len: "length (observed c) = STRIM_STAGE_NAME_COUNT" "length (in_flight c) = STRIM_STAGE_NAME_COUNT"
    using Cons.prems(1) by (simp_all add: views ctl_ok_def)
  have "settled j ?c'" if "j = i \<or> settled j c" "j < STRIM_STAGE_NAME_COUNT" for j
    using that st len Cons.prems(3) by (auto simp: settled_def nth_list_update_if)
  with Cons.IH [OF ok] Cons.prems st show ?case by auto
qed

text \<open>
  C7: Reconciliation converges. After a pass in which every unsettled stage could be launched, and
  once each launched op has reported the state it was launched for, every stage's observed
  state equals its intent with no op in flight, and a further pass launches nothing and
  changes no stage.
\<close>

theorem reconcile_converges:
  assumes "ctl_ok c" and "\<not> shutting_down c"
    and "\<forall>i < STRIM_STAGE_NAME_COUNT. intents c ! i \<noteq> observed c ! i \<longrightarrow> fires (env i) i c"
    and "launched = filter (\<lambda>i. fires (env i) i c) [0..<STRIM_STAGE_NAME_COUNT]"
    and "c2 = run_actions penv (map (\<lambda>i. (success_report c i, fenv)) launched)
           (strim_controller_handle_reconcile env c)"
  shows "(\<forall>i < STRIM_STAGE_NAME_COUNT. settled i c2) \<and> intents c2 = intents c \<and>
    stages (strim_controller_handle_reconcile env' c2) = stages c2 \<and>
    wp_jobs (pool (strim_controller_handle_reconcile env' c2)) = wp_jobs (pool c2)"
proof -
  let ?c1 = "strim_controller_handle_reconcile env c"
  have len: "length (stages c) = STRIM_STAGE_NAME_COUNT" using assms(1) by (simp add: ctl_ok_def)
  have ok1: "ctl_ok ?c1" using assms(1) by (rule ctl_ok_reconcile)
  have int1: "intents ?c1 = intents c" "observed ?c1 = observed c"
    using handle_reconcile_views [OF len] by auto
  have s1: "settled i ?c1" if "i < STRIM_STAGE_NAME_COUNT" "\<not> fires (env i) i c" for i
  proof -
    have "intents c ! i = observed c ! i" using assms(3) that by blast
    moreover from this have "stages ?c1 ! i = set_in_flight 0 (stages c ! i)"
      using handle_reconcile_eq(1) [OF len assms(2) that(1), of env] that(1) len
      by (simp add: reconciled_stage_def views Let_def)
    ultimately show ?thesis
      using int1 that(1) len handle_reconcile_eq(4) [OF len assms(2), of env]
      by (simp add: settled_def in_flight_def)
  qed
  have all: "settled i c2" if "i < STRIM_STAGE_NAME_COUNT" for i
    using reports_settle [OF ok1, of launched c penv fenv] int1 that s1 assms(4,5)
    by (cases "fires (env i) i c") (auto simp del: upt_rec_numeral)
  have ok2: "ctl_ok c2" unfolding assms(5) by (rule ctl_ok_run_actions [OF ok1])
  then have len2: "length (stages c2) = STRIM_STAGE_NAME_COUNT" by (simp add: ctl_ok_def)
  have same: "reconciled_stage e i c2 = stages c2 ! i \<and> \<not> fires e i c2"
    if "i < STRIM_STAGE_NAME_COUNT" for e i
    using all [OF that] that len2
    by (simp add: settled_def views reconciled_stage_def fires_def set_in_flight_def Let_def)
  have "stages (strim_controller_handle_reconcile env' c2) = stages c2 \<and>
      wp_jobs (pool (strim_controller_handle_reconcile env' c2)) = wp_jobs (pool c2)"
  proof (cases "shutting_down c2")
    case True
    then show ?thesis by (simp add: handle_reconcile_shutdown)
  next
    case False
    note eq = handle_reconcile_eq [OF len2 False, where env = env']
    have "filter (\<lambda>i. fires (env' i) i c2) [0..<STRIM_STAGE_NAME_COUNT] = []"
      using same by (simp add: filter_empty_conv del: upt_rec_numeral)
    then show ?thesis
      using eq same len2 by (auto intro!: nth_equalityI simp del: upt_rec_numeral)
  qed
  moreover have "intents c2 = intents c"
    using reports_settle [OF ok1, of launched c penv fenv] int1 assms(4,5)
    by (auto simp del: upt_rec_numeral)
  ultimately show ?thesis using all by blast
qed

theorem reconcile_converges_witness:
  "intents demo_ctl ! 0 \<noteq> observed demo_ctl ! 0 \<and>
   settled 0 (run_actions boot_prereqs
     (map (\<lambda>i. (success_report demo_ctl i, demo_fire 2000))
       (filter (\<lambda>i. fires (demo_fire 1000 i) i demo_ctl) [0..<STRIM_STAGE_NAME_COUNT]))
     (strim_controller_handle_reconcile (demo_fire 1000) demo_ctl))"
proof -
  have up: "\<not> shutting_down demo_ctl" by (simp add: demo_ctl_eq)
  have "\<forall>i < STRIM_STAGE_NAME_COUNT. intents demo_ctl ! i \<noteq> observed demo_ctl ! i \<longrightarrow>
      fires (demo_fire 1000 i) i demo_ctl"
    unfolding all_less_4 using demo_fires(1) [of 1000] by (simp add: views demo_eval)
  note conv = reconcile_converges [OF demo_ctl_ok up this refl refl, of boot_prereqs "demo_fire 2000"]
  have "intents demo_ctl ! 0 \<noteq> observed demo_ctl ! 0" by (simp add: views demo_eval)
  with conv show ?thesis by (simp del: upt_rec_numeral)
qed

end
