(* ===== verification/Lifecycle_Props.thy ===== *)
theory Lifecycle_Props
  imports Reconcile_Props
begin

text \<open>
  Teardown, stage events, listeners, and the gate on starting egress in the controller
  that the program boots.
\<close>

section \<open>Teardown\<close>

text \<open>The stages a teardown stops: observed running, with a stop op.\<close>

definition torn_down :: "strim_stage \<Rightarrow> bool" where
  "torn_down s \<longleftrightarrow> actual (stg_status s) = STRIM_STAGE_RUNNING \<and> stop_op s \<noteq> None"

definition stop_call :: "int \<Rightarrow> strim_stage \<Rightarrow> effect" where
  "stop_call timeout s = Op_call (the (stop_op s)) (op_ctx s) timeout None"

lemma teardown_stage_eq:
  "teardown_stage i c =
     (if torn_down (stages c ! i)
      then (upd_stage i mark_torn_down c, [stop_call (inflight_timeout_ms c) (stages c ! i)])
      else (c, []))"
  by (auto simp: teardown_stage_def torn_down_def stop_call_def Let_def split: option.splits)

lemma inflight_upd_stage [simp]: "inflight_timeout_ms (upd_stage i f c) = inflight_timeout_ms c"
  by (simp add: upd_stage_def)

lemma teardown_loop_eq:
  assumes "distinct is" and "\<forall>i \<in> set is. i < length (stages c)"
  shows "(\<forall>j. stages (fst (teardown_loop is c)) ! j =
           (if j \<in> set is \<and> torn_down (stages c ! j) then mark_torn_down (stages c ! j)
            else stages c ! j)) \<and>
    length (stages (fst (teardown_loop is c))) = length (stages c) \<and>
    listeners (fst (teardown_loop is c)) = listeners c \<and>
    snd (teardown_loop is c) =
      map (\<lambda>i. stop_call (inflight_timeout_ms c) (stages c ! i))
        (filter (\<lambda>i. torn_down (stages c ! i)) is)"
  using assms
proof (induction "is" arbitrary: c)
  case (Cons i "is")
  let ?d = "fst (teardown_stage i c)"
  have i: "i < length (stages c)" and fresh: "i \<notin> set is" using Cons.prems by auto
  have d: "stages ?d ! j = (if j = i \<and> torn_down (stages c ! i) then mark_torn_down (stages c ! i)
      else stages c ! j)" "length (stages ?d) = length (stages c)"
    "inflight_timeout_ms ?d = inflight_timeout_ms c" "listeners ?d = listeners c" for j
    using i by (auto simp: teardown_stage_eq)
  have same: "j \<in> set is \<Longrightarrow> stages ?d ! j = stages c ! j" for j using d(1) fresh by auto
  have "filter (\<lambda>i. torn_down (stages ?d ! i)) is = filter (\<lambda>i. torn_down (stages c ! i)) is"
    using same by (auto cong: filter_cong)
  moreover have "map (\<lambda>i. stop_call t (stages ?d ! i)) (filter P is) =
      map (\<lambda>i. stop_call t (stages c ! i)) (filter P is)" for t P
    using same by auto
  moreover have "(\<forall>j. stages (fst (teardown_loop is ?d)) ! j =
           (if j \<in> set is \<and> torn_down (stages ?d ! j) then mark_torn_down (stages ?d ! j)
            else stages ?d ! j)) \<and>
    length (stages (fst (teardown_loop is ?d))) = length (stages ?d) \<and>
    listeners (fst (teardown_loop is ?d)) = listeners ?d \<and>
    snd (teardown_loop is ?d) =
      map (\<lambda>i. stop_call (inflight_timeout_ms ?d) (stages ?d ! i))
        (filter (\<lambda>i. torn_down (stages ?d ! i)) is)"
    using Cons.prems d by (intro Cons.IH) auto
  moreover have "snd (teardown_stage i c) =
      (if torn_down (stages c ! i) then [stop_call (inflight_timeout_ms c) (stages c ! i)] else [])"
    by (simp add: teardown_stage_eq)
  ultimately show ?case
    using d fresh by (auto simp: case_prod_unfold)
qed simp

lemma map_nth_upt: "length xs = n \<Longrightarrow> map (\<lambda>i. f (xs ! i)) (filter (\<lambda>i. P (xs ! i)) [0..<n]) =
    map f (filter P xs)"
proof -
  assume "length xs = n"
  then have "filter P xs = filter P (map ((!) xs) [0..<n])" by (metis map_nth)
  then show ?thesis by (simp add: filter_map comp_def)
qed

text \<open>
  C8: Teardown calls the stop op of every stage that is observed running and has one, in
  stage order, with the in-flight timeout and without a cancellation handle, then tells every
  listener once, with the final snapshot. Those stages end with intent and observation
  stopped, no op in flight and a new generation, so that any op still outstanding for them is
  superseded; every other stage is left as it was.
\<close>

theorem teardown_exact:
  assumes "ctl_ok c" and "teardown_inner c = (c', es)"
  shows "stages c' = map (\<lambda>s. if torn_down s then mark_torn_down s else s) (stages c) \<and>
    es = map (stop_call (inflight_timeout_ms c)) (filter torn_down (stages c)) @
      notify_listeners c' \<and>
    (\<forall>i < STRIM_STAGE_NAME_COUNT. \<forall>k. torn_down (stages c ! i) \<and> cn_current_generation k = i \<and>
       \<not> strim_stage_op_superseded c (Some k) \<longrightarrow> strim_stage_op_superseded c' (Some k))"
proof -
  let ?r = "teardown_loop [0..<STRIM_STAGE_NAME_COUNT] c"
  have len: "length (stages c) = STRIM_STAGE_NAME_COUNT" using assms(1) by (simp add: ctl_ok_def)
  have c': "c' = fst ?r" "es = snd ?r @ notify_listeners c'"
    using assms(2) by (auto simp: teardown_inner_def case_prod_unfold simp del: upt_rec_numeral)
  have loop: "(\<forall>j. stages (fst ?r) ! j =
           (if j \<in> set [0..<STRIM_STAGE_NAME_COUNT] \<and> torn_down (stages c ! j)
            then mark_torn_down (stages c ! j) else stages c ! j)) \<and>
    length (stages (fst ?r)) = length (stages c) \<and> listeners (fst ?r) = listeners c \<and>
    snd ?r = map (\<lambda>i. stop_call (inflight_timeout_ms c) (stages c ! i))
        (filter (\<lambda>i. torn_down (stages c ! i)) [0..<STRIM_STAGE_NAME_COUNT])"
    by (rule teardown_loop_eq) (simp_all add: len del: upt_rec_numeral)
  have st: "stages c' = map (\<lambda>s. if torn_down s then mark_torn_down s else s) (stages c)"
    using loop len c'(1) by (auto intro!: nth_equalityI simp del: upt_rec_numeral)
  moreover have "es = map (stop_call (inflight_timeout_ms c)) (filter torn_down (stages c)) @
      notify_listeners c'"
    using loop len c'(2) map_nth_upt [of "stages c" STRIM_STAGE_NAME_COUNT _ torn_down]
    by (simp del: upt_rec_numeral)
  moreover have "strim_stage_op_superseded c' (Some k)"
    if "i < STRIM_STAGE_NAME_COUNT" "torn_down (stages c ! i)" "cn_current_generation k = i"
      "\<not> strim_stage_op_superseded c (Some k)" for i k
    using that len st by (simp add: strim_stage_op_superseded_def mark_torn_down_def)
  ultimately show ?thesis by blast
qed

text \<open>The booted controller after \<open>mediamtx\<close> has reported that it runs.\<close>

definition demo_streaming :: strim_controller where
  "demo_streaming = upd_stage 0 (set_in_flight 0 \<circ> set_actual STRIM_STAGE_RUNNING) demo_ctl"

lemma demo_streaming_ok: "ctl_ok demo_streaming"
  unfolding demo_streaming_def
  using ctl_ok_stage [OF demo_ctl_ok, of 0]
  by (intro ctl_ok_upd_stage demo_ctl_ok) (simp_all add: cast_simps same_ops_def stage_ok_def ctl_updates)

theorem teardown_exact_witness:
  "ctl_ok demo_streaming \<and>
   snd (teardown_inner demo_streaming) = [Op_call fn_stage_stop_op 0 30000 None]"
proof -
  obtain c' es where run: "teardown_inner demo_streaming = (c', es)"
    by (cases "teardown_inner demo_streaming")
  note spec = teardown_exact [OF demo_streaming_ok run]
  have "listeners c' = []"
    using run teardown_loop_eq [of "[0..<STRIM_STAGE_NAME_COUNT]" demo_streaming] demo_streaming_ok
    by (auto simp: teardown_inner_def case_prod_unfold ctl_ok_def demo_streaming_def demo_ctl_eq
        simp del: upt_rec_numeral)
  moreover have "filter torn_down (stages demo_streaming) = [stages demo_streaming ! 0]"
    "stop_call 30000 (stages demo_streaming ! 0) = Op_call fn_stage_stop_op 0 30000 None"
    "inflight_timeout_ms demo_streaming = 30000"
    by (simp_all add: demo_streaming_def torn_down_def stop_call_def demo_eval upd_stage_def
        set_in_flight_def set_actual_def)
  ultimately show ?thesis
    using spec run demo_streaming_ok by (simp add: notify_listeners_def)
qed

section \<open>Stage events\<close>

text \<open>
  A stage event for a known stage and state records the state as observed and ends the
  in-flight period of that stage, leaving intents, generations, paths and every other stage
  alone; an unknown stage or state is an error that changes nothing. Listeners are told,
  with the state after the event, exactly when the observed state changed.
\<close>

lemma stage_event_behaviour:
  assumes "ctl_ok c" and "strim_controller_handle_stage_event (Some e) c = (rc, c', es)"
  shows "(if as_unsigned (se_stage e) \<ge> STRIM_STAGE_NAME_COUNT
      then rc = STRIM_CTRL_ERR_UNKNOWN \<and> c' = c
      else if \<not> valid_stage_state (se_state e) then rc = STRIM_CTRL_ERR_BADARG \<and> c' = c
      else rc = 0 \<and> observed c' = (observed c)[as_unsigned (se_stage e) := se_state e] \<and>
        in_flight c' = (in_flight c)[as_unsigned (se_stage e) := 0] \<and>
        intents c' = intents c \<and> generations c' = generations c \<and> paths c' = paths c) \<and>
    es = (if observed c' = observed c then [] else notify_listeners c')"
proof (cases "as_unsigned (se_stage e) \<ge> STRIM_STAGE_NAME_COUNT \<or> \<not> valid_stage_state (se_state e)")
  case True
  then show ?thesis
    using assms(2) by (auto simp: strim_controller_handle_stage_event_def)
next
  case False
  let ?i = "as_unsigned (se_stage e)"
  have i: "?i < length (stages c)" using False assms(1) by (simp add: ctl_ok_def)
  have c': "c' = upd_stage ?i (set_in_flight 0 \<circ> set_actual (se_state e)) c" and "rc = 0"
    and es: "es = (if actual (stg_status (stages c ! ?i)) \<noteq> se_state e then notify_listeners c' else [])"
    using False assms(2) by (auto simp: strim_controller_handle_stage_event_def Let_def)
  have obs: "observed c' = (observed c)[?i := se_state e]" "in_flight c' = (in_flight c)[?i := 0]"
    by (simp_all add: c' views map_update)
  moreover have "intents c' = intents c" "generations c' = generations c" "paths c' = paths c"
    by (simp_all add: c')
  moreover have "observed c' = observed c \<longleftrightarrow> actual (stg_status (stages c ! ?i)) = se_state e"
    unfolding obs using i by (simp add: observed_def list_update_same_conv)
  ultimately show ?thesis using False \<open>rc = 0\<close> es by auto
qed

lemma stage_event_behaviour_witness:
  "ctl_ok demo_ctl \<and>
   observed (fst (snd (strim_controller_handle_stage_event
     (Some \<lparr>se_stage = STRIM_STAGE_NORMALIZE, se_state = STRIM_STAGE_RUNNING\<rparr>) demo_ctl))) = [0, 1, 0, 0]"
proof -
  let ?r = "strim_controller_handle_stage_event
     (Some \<lparr>se_stage = STRIM_STAGE_NORMALIZE, se_state = STRIM_STAGE_RUNNING\<rparr>) demo_ctl"
  have "?r = (fst ?r, fst (snd ?r), snd (snd ?r))" by simp
  from stage_event_behaviour [OF demo_ctl_ok this] demo_ctl_ok show ?thesis
    by (simp add: as_unsigned_def valid_stage_state_def observed_def demo_ctl_eq demo_stage_eval)
qed

section \<open>Listeners\<close>

lemma remove_entry_append:
  "\<forall>l \<in> set ls. \<not> (Some (le_fn l) = fn \<and> le_userdata l = ud) \<Longrightarrow>
     remove_entry fn ud (ls @ ms) = map_option (\<lambda>ms'. ls @ ms') (remove_entry fn ud ms)"
  by (induction ls; cases "remove_entry fn ud ms") auto

lemma notify_listeners_eq:
  "notify_listeners c = map (\<lambda>l. Listener_call (le_fn l) (le_userdata l) (status_snapshot c)) (listeners c)"
  by (simp add: notify_listeners_def Let_def)

text \<open>
  C12: A registered listener gets the current snapshot at once and from then on every
  notification, after the listeners registered before it; registering more than sixteen is refused
  and changes nothing. Removing a listener takes out its first registration: removing one
  just registered for the first time restores the controller, and removing an unknown
  one is an error that changes nothing.
\<close>

theorem listener_registration:
  assumes "ctl_ok c" and "handle_add_listener (Some f) ud c = (rc, c1, es)"
  shows "(if length (listeners c) = STRIM_CTRL_MAX_LISTENERS
      then rc = STRIM_CTRL_ERR_NOMEM \<and> c1 = c \<and> es = []
      else rc = 0 \<and> es = [Listener_call f ud (status_snapshot c)] \<and>
        notify_listeners c1 = notify_listeners c @ [Listener_call f ud (status_snapshot c)] \<and>
        length (listeners c1) \<le> STRIM_CTRL_MAX_LISTENERS \<and>
        (\<lparr>le_fn = f, le_userdata = ud\<rparr> \<notin> set (listeners c) \<longrightarrow>
          handle_remove_listener (Some f) ud c1 = (0, c, []))) \<and>
    (\<lparr>le_fn = f, le_userdata = ud\<rparr> \<notin> set (listeners c) \<longrightarrow>
      handle_remove_listener (Some f) ud c = (STRIM_CTRL_ERR_UNKNOWN, c, []))"
proof -
  have fresh: "\<forall>l \<in> set (listeners c). \<not> (Some (le_fn l) = Some f \<and> le_userdata l = ud)"
    if "\<lparr>le_fn = f, le_userdata = ud\<rparr> \<notin> set (listeners c)"
    using that by (metis (full_types) option.inject strim_listener_entry.surjective unit.exhaust)
  have snap: "status_snapshot (c\<lparr>listeners := l\<rparr>) = status_snapshot c" for l
    by (simp add: status_snapshot_def)
  have none: "handle_remove_listener (Some f) ud c = (STRIM_CTRL_ERR_UNKNOWN, c, [])"
    if "\<lparr>le_fn = f, le_userdata = ud\<rparr> \<notin> set (listeners c)"
    using remove_entry_append [OF fresh [OF that], of "[]"] by (simp add: handle_remove_listener_def)
  have "handle_remove_listener (Some f) ud
      (c\<lparr>listeners := listeners c @ [\<lparr>le_fn = f, le_userdata = ud\<rparr>]\<rparr>) = (0, c, [])"
    if "\<lparr>le_fn = f, le_userdata = ud\<rparr> \<notin> set (listeners c)"
    using remove_entry_append [OF fresh [OF that], of "[\<lparr>le_fn = f, le_userdata = ud\<rparr>]"]
    by (simp add: handle_remove_listener_def)
  then show ?thesis
    using assms none
    by (auto simp: handle_add_listener_def notify_listeners_eq snap ctl_ok_def Let_def split: if_splits)
qed

theorem listener_registration_witness:
  "handle_add_listener (Some 9) 5 demo_ctl =
     (0, demo_ctl\<lparr>listeners := [\<lparr>le_fn = 9, le_userdata = 5\<rparr>]\<rparr>,
      [Listener_call 9 5 (status_snapshot demo_ctl)]) \<and>
   handle_remove_listener (Some 9) 5 (demo_ctl\<lparr>listeners := [\<lparr>le_fn = 9, le_userdata = 5\<rparr>]\<rparr>) =
     (0, demo_ctl, [])"
proof -
  have empty: "listeners demo_ctl = []" by (simp add: demo_ctl_eq)
  then have add: "handle_add_listener (Some 9) 5 demo_ctl =
     (0, demo_ctl\<lparr>listeners := [\<lparr>le_fn = 9, le_userdata = 5\<rparr>]\<rparr>,
      [Listener_call 9 5 (status_snapshot demo_ctl)])"
    by (simp add: handle_add_listener_def status_snapshot_def Let_def)
  with listener_registration [OF demo_ctl_ok add] empty show ?thesis by simp
qed

section \<open>The egress gate\<close>

lemma apply_target_routes:
  "apply_desired_stage_target penv r c = (rc, c', es) \<Longrightarrow>
     path_routes c' = path_routes c \<and> control_routes c' = control_routes c"
  by (auto simp: apply_desired_stage_target_def Let_def split: if_splits)

lemma teardown_loop_routes:
  "path_routes (fst (teardown_loop is c)) = path_routes c \<and>
   control_routes (fst (teardown_loop is c)) = control_routes c"
  by (induction "is" arbitrary: c) (auto simp: teardown_stage_eq case_prod_unfold)

lemma reconcile_routes:
  "path_routes (strim_controller_handle_reconcile env c) = path_routes c \<and>
   control_routes (strim_controller_handle_reconcile env c) = control_routes c"
proof -
  have "path_routes (reconcile_loop env is c) = path_routes c \<and>
      control_routes (reconcile_loop env is c) = control_routes c" for "is"
    by (induction "is" arbitrary: c) simp_all
  then show ?thesis
    by (simp add: strim_controller_handle_reconcile_def del: upt_rec_numeral)
qed

lemma run_action_routes:
  assumes "run_action penv fenv k c = (rc, c', es)"
  shows "path_routes c' = path_routes c \<and> control_routes c' = control_routes c"
proof (cases k)
  case (ACTION_PATH_EVENT e)
  with assms show ?thesis
    by (auto simp: strim_controller_handle_path_event_def Let_def dest!: apply_target_routes
        split: if_splits option.splits)
next
  case (ACTION_CONTROL x)
  with assms show ?thesis
    by (auto simp: strim_controller_handle_control_def dest!: apply_target_routes
        split: if_splits option.splits)
next
  case ACTION_TEARDOWN
  with assms teardown_loop_routes [of "[0..<STRIM_STAGE_NAME_COUNT]" c] show ?thesis
    by (auto simp: teardown_inner_def case_prod_unfold simp del: upt_rec_numeral)
next
  case ACTION_RECONCILE
  with assms reconcile_routes [of fenv c] show ?thesis by auto
qed (use assms in \<open>auto simp: ctl_handlers Let_def split: if_splits option.splits\<close>)

lemma run_actions_routes:
  "path_routes (run_actions penv ks c) = path_routes c \<and>
   control_routes (run_actions penv ks c) = control_routes c"
proof (induction penv ks c rule: run_actions.induct)
  case (2 penv k fenv ks c)
  with run_action_routes [of penv fenv k c] show ?case
    by (cases "run_action penv fenv k c") auto
qed simp

text \<open>Teardown never raises an intent.\<close>

lemma teardown_intents:
  assumes "ctl_ok c" and "teardown_inner c = (c', es)" and "j < STRIM_STAGE_NAME_COUNT"
  shows "intents c' ! j = intents c ! j \<or> intents c' ! j = STRIM_STAGE_STOPPED"
proof -
  let ?r = "teardown_loop [0..<STRIM_STAGE_NAME_COUNT] c"
  have len: "length (stages c) = STRIM_STAGE_NAME_COUNT" using assms(1) by (simp add: ctl_ok_def)
  have "c' = fst ?r"
    using assms(2) by (auto simp: teardown_inner_def case_prod_unfold simp del: upt_rec_numeral)
  moreover have "stages (fst ?r) ! j \<in> {stages c ! j, mark_torn_down (stages c ! j)}"
    "length (stages (fst ?r)) = length (stages c)"
    using teardown_loop_eq [of "[0..<STRIM_STAGE_NAME_COUNT]" c] len by (auto simp del: upt_rec_numeral)
  ultimately show ?thesis
    using len assms(3) by (auto simp: intents_def mark_torn_down_def)
qed

text \<open>An intent that becomes running was routed there by a path event or by an admitted command.\<close>

lemma intent_raised:
  assumes "ctl_ok c" and "run_action penv fenv k c = (rc, c', es)" and "j < STRIM_STAGE_NAME_COUNT"
    and "intents c ! j \<noteq> STRIM_STAGE_RUNNING" and "intents c' ! j = STRIM_STAGE_RUNNING"
  shows "(\<exists>e r. k = ACTION_PATH_EVENT e \<and> r \<in> set (path_routes c) \<and> r_path r = pe_path e \<and>
        r_path_status r = pe_status e \<and> as_unsigned (r_target_stage r) = j \<and>
        r_target_state r = STRIM_STAGE_RUNNING) \<or>
    (\<exists>cmd r. k = ACTION_CONTROL cmd \<and> r \<in> set (control_routes c) \<and>
        r_component r = cc_component cmd \<and> r_action r = cc_action cmd \<and>
        as_unsigned (r_target_stage r) = j \<and> r_target_state r = STRIM_STAGE_RUNNING \<and>
        (\<forall>f. r_prerequisite r = Some f \<longrightarrow> penv f c (r_prerequisite_userdata r) = 0))"
proof -
  have target: "as_unsigned (r_target_stage r) = j \<and> r_target_state r = STRIM_STAGE_RUNNING \<and>
      (\<forall>f. r_prerequisite r = Some f \<longrightarrow> penv f d (r_prerequisite_userdata r) = 0)"
    if "ctl_ok d" "route_ok (stages d) kind r" "apply_desired_stage_target penv r d = (rc, c', es)"
      "intents d = intents c" for d r kind
  proof -
    have "rc = 0 \<and> intents c' = (intents d)[as_unsigned (r_target_stage r) := r_target_state r]"
      using apply_target_spec [OF that(1-3)] assms(4,5) that(4) by auto
    moreover from this have tgt: "as_unsigned (r_target_stage r) = j" "r_target_state r = STRIM_STAGE_RUNNING"
      using assms(4,5) that(4) by (metis nth_list_update_neq, metis list_update_beyond not_le
          nth_list_update_eq nth_list_update_neq)
    moreover have "desired (stg_status (stages d ! j)) = intents c ! j"
      using that(1,4) assms(3) by (metis (mono_tags, lifting) ctl_ok_def intents_def nth_map)
    ultimately show ?thesis
      using that(3) assms(4)
      by (auto simp: apply_desired_stage_target_def Let_def split: if_splits option.splits)
  qed
  show ?thesis
  proof (cases k)
    case (ACTION_PATH_EVENT e)
    let ?c1 = "c\<lparr>paths := (paths c)[as_unsigned (pe_path e) := pe_status e]\<rparr>"
    have "valid_path_status (pe_status e) \<and> (\<exists>r. find_path_event_route ?c1 (pe_path e) (pe_status e) = Some r \<and>
        apply_desired_stage_target penv r ?c1 = (rc, c', es))"
      using ACTION_PATH_EVENT assms(2,4,5)
      by (auto simp: strim_controller_handle_path_event_def Let_def split: if_splits option.splits)
    then obtain r where r: "valid_path_status (pe_status e)"
      "find_path_event_route ?c1 (pe_path e) (pe_status e) = Some r"
      "apply_desired_stage_target penv r ?c1 = (rc, c', es)" by blast
    have ok: "ctl_ok ?c1" using assms(1) r(1) by (rule ctl_ok_set_path)
    from target [OF ok _ r(3)] find_path_event_route_ok [OF ok r(2)]
      find_Some_in_set [OF r(2) [unfolded find_path_event_route_def]]
    show ?thesis using ACTION_PATH_EVENT by auto
  next
    case (ACTION_CONTROL cmd)
    then obtain r where r: "find_control_route c (cc_component cmd) (cc_action cmd) = Some r"
      "apply_desired_stage_target penv r c = (rc, c', es)"
      using assms(2,4,5)
      by (auto simp: strim_controller_handle_control_def split: if_splits option.splits)
    from target [OF assms(1) _ r(2) refl] find_control_route_ok [OF assms(1) r(1)]
      find_Some_in_set [OF r(1) [unfolded find_control_route_def]]
    show ?thesis using ACTION_CONTROL by auto
  next
    case ACTION_TEARDOWN
    then show ?thesis
      using assms teardown_intents [OF assms(1) _ assms(3)] by (fastforce split: prod.splits)
  next
    case ACTION_RECONCILE
    then show ?thesis
      using assms(1,2,4,5) handle_reconcile_views [of c fenv] by (auto simp: ctl_ok_def)
  next
    case (ACTION_STAGE_EVENT e)
    then show ?thesis
      using assms(2,4,5) by (auto simp: strim_controller_handle_stage_event_def Let_def split: if_splits)
  qed (use assms(2,4,5) in \<open>auto simp: ctl_handlers Let_def split: if_splits option.splits\<close>)
qed

lemma boot_controller_tables:
  assumes "cfg_inflight_ms cfg > 0" and "cfg_actions_buffer cfg \<noteq> 0"
  shows "ctl_ok (boot_controller cfg) \<and> path_routes (boot_controller cfg) = boot_path_routes cfg \<and>
    control_routes (boot_controller cfg) = boot_control_routes cfg"
proof -
  have copy: "validate_and_copy_routes a stgs (Some rs) (length rs) kind =
      (if rs \<noteq> [] \<and> \<not> a then (STRIM_CTRL_ERR_NOMEM, [])
       else let rc = check_routes stgs kind [] rs in if rc \<noteq> 0 then (rc, []) else (0, rs))"
    for a stgs rs kind
    by (auto simp: validate_and_copy_routes_def Let_def)
  note new = boot_controller_new [OF assms]
  have "path_routes d = boot_path_routes cfg \<and> control_routes d = boot_control_routes cfg"
    if "strim_controller_new boot_new_env (Some (boot_controller_config cfg)) True = (0, Some d)" for d
    using that
    by (auto simp: strim_controller_new_def copy boot_controller_config_def Let_def split: if_splits)
  with new show ?thesis using new_result_ok [OF new] by (simp add: boot_controller_config_def)
qed

text \<open>
  C9: In the controller the program boots, whatever actions have run, the intent of the egress stage
  becomes running only through the start command for egress, and only while the ingress path is
  recorded as ready.
\<close>

theorem egress_starts_only_when_ready:
  assumes "cfg_inflight_ms cfg > 0" and "cfg_actions_buffer cfg \<noteq> 0"
    and "c = run_actions boot_prereqs ks (boot_controller cfg)"
    and "run_action boot_prereqs fenv k c = (rc, c', es)"
    and "intents c ! as_unsigned (egress_stage cfg) \<noteq> STRIM_STAGE_RUNNING"
    and "intents c' ! as_unsigned (egress_stage cfg) = STRIM_STAGE_RUNNING"
  shows "k = ACTION_CONTROL \<lparr>cc_component = STRIM_COMPONENT_EGRESS, cc_action = STRIM_ACTION_START\<rparr> \<and>
    paths c ! as_unsigned STRIM_PATH_INGRESS0 = STRIM_PATH_READY"
proof -
  note boot = boot_controller_tables [OF assms(1,2)]
  have ok: "ctl_ok c" using boot assms(3) by (simp add: ctl_ok_run_actions)
  have tables: "path_routes c = boot_path_routes cfg" "control_routes c = boot_control_routes cfg"
    using boot run_actions_routes [of boot_prereqs ks "boot_controller cfg"] assms(3) by simp_all
  have j: "as_unsigned (egress_stage cfg) < STRIM_STAGE_NAME_COUNT"
    by (simp add: egress_stage_def as_unsigned_def)
  have gate: "boot_prereqs fn_prereq_ingress0_ready c ud = 0 \<longleftrightarrow>
      paths c ! as_unsigned STRIM_PATH_INGRESS0 = STRIM_PATH_READY" for ud
    by (simp add: boot_prereqs_def prereq_ingress0_ready_def strim_controller_handle_status_def
        status_snapshot_def)
  have "\<not> (as_unsigned (r_target_stage r) = as_unsigned (egress_stage cfg))"
    if "r \<in> set (path_routes c)" for r
    using that unfolding tables
    by (auto simp: boot_path_routes_def path_route_def egress_stage_def as_unsigned_def
        split: if_splits)
  then obtain cmd r where r: "k = ACTION_CONTROL cmd" "r \<in> set (control_routes c)"
      "r_component r = cc_component cmd" "r_action r = cc_action cmd"
      "r_target_state r = STRIM_STAGE_RUNNING"
      "\<forall>f. r_prerequisite r = Some f \<longrightarrow> boot_prereqs f c (r_prerequisite_userdata r) = 0"
    using intent_raised [OF ok assms(4) j assms(5,6)] by blast
  have "r = control_route STRIM_COMPONENT_EGRESS STRIM_ACTION_START (egress_stage cfg)
      STRIM_STAGE_RUNNING (Some fn_prereq_ingress0_ready)"
    using r(2,5) unfolding tables by (auto simp: boot_control_routes_def control_route_def)
  with r(1,3,4,6) gate show ?thesis by (cases cmd) (simp add: control_route_def)
qed

lemma demo_ready_static:
  "find_control_route demo_ready STRIM_COMPONENT_EGRESS STRIM_ACTION_START =
     Some (control_route STRIM_COMPONENT_EGRESS STRIM_ACTION_START STRIM_STAGE_SCALE_AND_EGRESS
       STRIM_STAGE_RUNNING (Some fn_prereq_ingress0_ready))"
  "boot_prereqs fn_prereq_ingress0_ready demo_ready 0 = 0" "listeners demo_ready = []"
  "desired (stg_status (stages demo_ready ! 2)) = STRIM_STAGE_STOPPED"
  "intents demo_ready ! 2 \<noteq> STRIM_STAGE_RUNNING"
  "intents (upd_stage 2 (set_desired STRIM_STAGE_RUNNING) demo_ready) ! 2 = STRIM_STAGE_RUNNING"
  by (simp_all add: demo_ready_def find_control_route_def demo_ctl_eq boot_control_routes_def
      control_route_def egress_stage_def demo_config_pipeline boot_prereqs_def as_unsigned_def
      prereq_ingress0_ready_def strim_controller_handle_status_def status_snapshot_def
      demo_stage_eval intents_def)

theorem egress_starts_only_when_ready_witness:
  "run_actions boot_prereqs [(ACTION_PATH_EVENT
     \<lparr>pe_path = STRIM_PATH_INGRESS0, pe_status = STRIM_PATH_READY\<rparr>, demo_fire 1)]
     (boot_controller demo_config) = demo_ready \<and>
   run_action boot_prereqs (demo_fire 1)
     (ACTION_CONTROL \<lparr>cc_component = STRIM_COMPONENT_EGRESS, cc_action = STRIM_ACTION_START\<rparr>)
     demo_ready = (0, upd_stage 2 (set_desired STRIM_STAGE_RUNNING) demo_ready, []) \<and>
   paths demo_ready ! 0 = STRIM_PATH_READY"
proof -
  let ?up = "ACTION_PATH_EVENT \<lparr>pe_path = STRIM_PATH_INGRESS0, pe_status = STRIM_PATH_READY\<rparr>"
  let ?start = "ACTION_CONTROL \<lparr>cc_component = STRIM_COMPONENT_EGRESS, cc_action = STRIM_ACTION_START\<rparr>"
  have c: "run_actions boot_prereqs [(?up, demo_fire 1)] (boot_controller demo_config) = demo_ready"
    unfolding demo_ctl_def [symmetric] by (simp add: demo_path_ready)
  have run: "run_action boot_prereqs (demo_fire 1) ?start demo_ready =
      (0, upd_stage 2 (set_desired STRIM_STAGE_RUNNING) demo_ready, [])"
    by (simp add: strim_controller_handle_control_def demo_ready_static
        apply_desired_stage_target_def control_route_def as_unsigned_def notify_listeners_def Let_def)
  have "cfg_inflight_ms demo_config > 0" "cfg_actions_buffer demo_config \<noteq> 0"
    "as_unsigned (egress_stage demo_config) = 2"
    by (simp_all add: egress_stage_def as_unsigned_def demo_config_def zero_config_def)
  from egress_starts_only_when_ready [OF this(1,2) c [symmetric] run] this(3) demo_ready_static c run
  show ?thesis by (simp add: as_unsigned_def)
qed

end
