(* ===== verification/Controller_System.thy ===== *)
theory Controller_System
  imports Lifecycle_Props "HOL-Library.Multiset"
begin

text \<open>
  The controller as a concurrent system: the queue thread (\<open>strim_controller_run\<close>), client
  threads blocked in \<open>queue_submit\<close>, the worker threads (\<open>worker_main\<close>, \<open>run_stage_op\<close>) and
  the main thread's shutdown sequence. A step is one critical section or one piece of code
  that touches only the thread's own state. The two condition variables are sets of
  sleeping threads: a signal wakes one sleeper of that variable, whichever it is, a
  broadcast wakes all, and a sleeper may also wake for no reason.
\<close>

section \<open>Thread states\<close>

datatype queue_pc =
    Q_top
  | Q_wait
  | Q_act strim_action
  | Q_fires strim_action "nat list"
  | Q_reply strim_action int
  | Q_exit

datatype sub_pc = S_out | S_wait | S_awake

datatype worker_pc =
    W_top
  | W_wait
  | W_run strim_op_job
  | W_clear strim_op_job
  | W_done strim_op_job
  | W_exit

datatype main_pc =
    M_running
  | M_drained
  | M_begun
  | M_waited
  | M_tearing
  | M_torn
  | M_closed
  | M_joined
  | M_pool
  | M_done

record system =
  ctl :: strim_controller
  qpc :: queue_pc
  subs :: "nat \<Rightarrow> sub_pc"
  replies :: "nat \<Rightarrow> int option"
  wks :: "worker_pc list"
  mpc :: main_pc

text \<open>Client threads are numbered from 1; 0 is the main thread.\<close>

abbreviation (input) main_tid :: nat where "main_tid \<equiv> 0"

section \<open>Condition variables\<close>

inductive q_signal :: "system \<Rightarrow> system \<Rightarrow> bool" where
  q_signal_queue: "qpc s = Q_wait \<Longrightarrow> q_signal s (s\<lparr>qpc := Q_top\<rparr>)"
| q_signal_sub: "subs s t = S_wait \<Longrightarrow> q_signal s (s\<lparr>subs := (subs s)(t := S_awake)\<rparr>)"
| q_signal_none: "qpc s \<noteq> Q_wait \<Longrightarrow> \<forall>t. subs s t \<noteq> S_wait \<Longrightarrow> q_signal s s"

definition q_broadcast :: "system \<Rightarrow> system" where
  "q_broadcast s =
     s\<lparr>qpc := (if qpc s = Q_wait then Q_top else qpc s),
       subs := (\<lambda>t. if subs s t = S_wait then S_awake else subs s t)\<rparr>"

inductive w_signal :: "system \<Rightarrow> system \<Rightarrow> bool" where
  w_signal_one: "w < length (wks s) \<Longrightarrow> wks s ! w = W_wait \<Longrightarrow> w_signal s (s\<lparr>wks := (wks s)[w := W_top]\<rparr>)"
| w_signal_none: "W_wait \<notin> set (wks s) \<Longrightarrow> w_signal s s"

definition w_broadcast :: "system \<Rightarrow> system" where
  "w_broadcast s = s\<lparr>wks := map (\<lambda>w. if w = W_wait then W_top else w) (wks s)\<rparr>"

section \<open>Steps\<close>

text \<open>The pieces of \<open>run_stage_op\<close> after the op returned.\<close>

definition op_needs_clear :: "strim_op_job \<Rightarrow> int \<Rightarrow> bool \<Rightarrow> strim_controller \<Rightarrow> bool" where
  "op_needs_clear job err alloc_ok c \<longleftrightarrow>
     err \<noteq> 0 \<and> \<not> strim_stage_op_superseded c (Some (oj_cancel job)) \<and> alloc_ok"

definition enqueue_clear :: "strim_op_job \<Rightarrow> strim_controller \<Rightarrow> strim_controller" where
  "enqueue_clear job c =
     (if q_closed c then c
      else c\<lparr>queue := queue c @ [\<lparr>act_kind = ACTION_CLEAR_INFLIGHT (oj_stage job)
                                   (cn_generation (oj_cancel job)), act_owner = None\<rparr>]\<rparr>)"

lemma run_stage_op_end_pieces:
  "run_stage_op_end job err alloc_ok c =
     (let c1 = (if op_needs_clear job err alloc_ok c then enqueue_clear job c else c)
      in c1\<lparr>ops_wg := wg_done (ops_wg c1)\<rparr>)"
  by (simp add: run_stage_op_end_def op_needs_clear_def enqueue_clear_def Let_def)

text \<open>The actions a client thread submits.\<close>

definition client_action :: "strim_action_kind \<Rightarrow> bool" where
  "client_action k =
     (case k of
        ACTION_PATH_EVENT _ \<Rightarrow> True
      | ACTION_CONTROL _ \<Rightarrow> True
      | ACTION_STAGE_EVENT _ \<Rightarrow> True
      | ACTION_STATUS \<Rightarrow> True
      | ACTION_ADD_LISTENER l _ \<Rightarrow> l \<noteq> None
      | ACTION_REMOVE_LISTENER l _ \<Rightarrow> l \<noteq> None
      | _ \<Rightarrow> False)"

text \<open>
  The queue thread (\<open>step_pop\<close> to \<open>step_reply\<close>), the clients, the workers, the main thread. \<open>W\<close>
  is the worker's index. The default clock is \<open>CLOCK_MONOTONIC\<close>: of the two times a stage's turn of
  the reconcile loop reads it, the second is not the earlier one.
\<close>

inductive sys_step :: "prereq_env \<Rightarrow> system \<Rightarrow> system \<Rightarrow> bool" for penv where
  step_pop: "qpc s = Q_top \<Longrightarrow> run_pop (ctl s) = Some (act, c') \<Longrightarrow>
    sys_step penv s (s\<lparr>ctl := c', qpc := Q_act act\<rparr>)"
| step_sleep: "qpc s = Q_top \<Longrightarrow> queue (ctl s) = [] \<Longrightarrow> \<not> q_closed (ctl s) \<Longrightarrow>
    sys_step penv s (s\<lparr>qpc := Q_wait\<rparr>)"
| step_exit: "qpc s = Q_top \<Longrightarrow> queue (ctl s) = [] \<Longrightarrow> q_closed (ctl s) \<Longrightarrow>
    sys_step penv s (s\<lparr>qpc := Q_exit\<rparr>)"
| step_action: "qpc s = Q_act act \<Longrightarrow> act_kind act \<noteq> ACTION_RECONCILE \<Longrightarrow>
    run_action penv fenv (act_kind act) (ctl s) = (rc, c', es) \<Longrightarrow>
    sys_step penv s (s\<lparr>ctl := c', qpc := Q_reply act rc\<rparr>)"
| step_reconcile: "qpc s = Q_act act \<Longrightarrow> act_kind act = ACTION_RECONCILE \<Longrightarrow>
    sys_step penv s
      (s\<lparr>qpc := (if shutting_down (ctl s) then Q_reply act 0
                else Q_fires act [0..<STRIM_STAGE_NAME_COUNT])\<rparr>)"
| step_fire: "qpc s = Q_fires act (i # is) \<Longrightarrow> c' = reconcile_stage e i (ctl s) \<Longrightarrow>
    s1 = s\<lparr>ctl := c', qpc := Q_fires act is\<rparr> \<Longrightarrow>
    (if length (wp_jobs (pool c')) > length (wp_jobs (pool (ctl s))) then w_signal s1 s' else s' = s1) \<Longrightarrow>
    (now_ms (ctl s) = Default_now_ms \<longrightarrow> fe_now_plan e \<le> fe_now_fire e) \<Longrightarrow>
    sys_step penv s s'"
| step_fired: "qpc s = Q_fires act [] \<Longrightarrow> sys_step penv s (s\<lparr>qpc := Q_reply act 0\<rparr>)"
| step_reply: "qpc s = Q_reply act r \<Longrightarrow>
    s' = (case act_owner act of
            None \<Rightarrow> s\<lparr>qpc := Q_top\<rparr>
          | Some t \<Rightarrow> q_broadcast (s\<lparr>qpc := Q_top, replies := (replies s)(t := Some r)\<rparr>)) \<Longrightarrow>
    sys_step penv s s'"
| step_submit: "mpc s = M_running \<Longrightarrow> t \<noteq> main_tid \<Longrightarrow> subs s t = S_out \<Longrightarrow>
    queue_submit t k (ctl s) = (None, c') \<Longrightarrow>
    q_signal (s\<lparr>ctl := c', replies := (replies s)(t := None)\<rparr>) s1 \<Longrightarrow>
    client_action k \<Longrightarrow>
    sys_step penv s (s1\<lparr>subs := (subs s1)(t := S_wait)\<rparr>)"
| step_return: "subs s t = S_awake \<Longrightarrow>
    sys_step penv s
      (s\<lparr>subs := (subs s)(t := (if replies s t = None then S_wait else S_out))\<rparr>)"
| step_request: "mpc s = M_running \<Longrightarrow> c' = strim_controller_request_reconcile alloc (ctl s) \<Longrightarrow>
    (if c' = ctl s then s' = s else q_signal (s\<lparr>ctl := c'\<rparr>) s') \<Longrightarrow> sys_step penv s s'"
| step_take: "W < length (wks s) \<Longrightarrow> wks s ! W = W_top \<Longrightarrow> wp_jobs (pool (ctl s)) = job # jobs \<Longrightarrow>
    sys_step penv s
      (s\<lparr>ctl := (ctl s)\<lparr>pool := (pool (ctl s))\<lparr>wp_jobs := jobs\<rparr>\<rparr>, wks := (wks s)[W := W_run job]\<rparr>)"
| step_idle: "W < length (wks s) \<Longrightarrow> wks s ! W = W_top \<Longrightarrow> wp_jobs (pool (ctl s)) = [] \<Longrightarrow>
    sys_step penv s
      (s\<lparr>wks := (wks s)[W := (if wp_shutting_down (pool (ctl s)) then W_exit else W_wait)]\<rparr>)"
| step_op: "W < length (wks s) \<Longrightarrow> wks s ! W = W_run job \<Longrightarrow>
    sys_step penv s
      (s\<lparr>wks := (wks s)[W := (if op_needs_clear job err alloc (ctl s) then W_clear job else W_done job)]\<rparr>)"
| step_clear: "W < length (wks s) \<Longrightarrow> wks s ! W = W_clear job \<Longrightarrow> c' = enqueue_clear job (ctl s) \<Longrightarrow>
    s1 = s\<lparr>ctl := c', wks := (wks s)[W := W_done job]\<rparr> \<Longrightarrow>
    (if q_closed (ctl s) then s' = s1 else q_signal s1 s') \<Longrightarrow> sys_step penv s s'"
| step_done: "W < length (wks s) \<Longrightarrow> wks s ! W = W_done job \<Longrightarrow>
    sys_step penv s
      (s\<lparr>ctl := (ctl s)\<lparr>ops_wg := wg_done (ops_wg (ctl s))\<rparr>, wks := (wks s)[W := W_top]\<rparr>)"
| step_spurious_q: "qpc s = Q_wait \<Longrightarrow> sys_step penv s (s\<lparr>qpc := Q_top\<rparr>)"
| step_spurious_s: "subs s t = S_wait \<Longrightarrow> sys_step penv s (s\<lparr>subs := (subs s)(t := S_awake)\<rparr>)"
| step_spurious_w: "W < length (wks s) \<Longrightarrow> wks s ! W = W_wait \<Longrightarrow>
    sys_step penv s (s\<lparr>wks := (wks s)[W := W_top]\<rparr>)"
| step_join_clients: "mpc s = M_running \<Longrightarrow> \<forall>t. subs s t = S_out \<Longrightarrow> sys_step penv s (s\<lparr>mpc := M_drained\<rparr>)"
| step_begin: "mpc s = M_drained \<Longrightarrow>
    sys_step penv s (s\<lparr>ctl := strim_controller_begin_shutdown (ctl s), mpc := M_begun\<rparr>)"
| step_wait_ops: "mpc s = M_begun \<Longrightarrow> ops_wg (ctl s) = 0 \<Longrightarrow> sys_step penv s (s\<lparr>mpc := M_waited\<rparr>)"
| step_teardown: "mpc s = M_waited \<Longrightarrow> strim_controller_teardown main_tid (ctl s) = (None, c') \<Longrightarrow>
    q_signal (s\<lparr>ctl := c', replies := (replies s)(main_tid := None)\<rparr>) s1 \<Longrightarrow>
    sys_step penv s (s1\<lparr>subs := (subs s1)(main_tid := S_wait), mpc := M_tearing\<rparr>)"
| step_torn: "mpc s = M_tearing \<Longrightarrow> subs s main_tid = S_out \<Longrightarrow> sys_step penv s (s\<lparr>mpc := M_torn\<rparr>)"
| step_abandon: "mpc s = M_drained \<Longrightarrow> sys_step penv s (s\<lparr>mpc := M_torn\<rparr>)"
| step_close: "mpc s = M_torn \<Longrightarrow>
    sys_step penv s (q_broadcast (s\<lparr>ctl := strim_controller_close (ctl s), mpc := M_closed\<rparr>))"
| step_join_run: "mpc s = M_closed \<Longrightarrow> qpc s = Q_exit \<Longrightarrow> sys_step penv s (s\<lparr>mpc := M_joined\<rparr>)"
| step_destroy: "mpc s = M_joined \<Longrightarrow>
    sys_step penv s
      (w_broadcast (s\<lparr>ctl := (ctl s)\<lparr>pool := (pool (ctl s))\<lparr>wp_shutting_down := True\<rparr>\<rparr>, mpc := M_pool\<rparr>))"
| step_join_pool: "mpc s = M_pool \<Longrightarrow> set (wks s) \<subseteq> {W_exit} \<Longrightarrow> sys_step penv s (s\<lparr>mpc := M_done\<rparr>)"

definition sys_init :: "strim_controller \<Rightarrow> system" where
  "sys_init c =
     \<lparr>ctl = c, qpc = Q_top, subs = (\<lambda>_. S_out), replies = (\<lambda>_. None),
      wks = replicate STRIM_CTRL_WORKERS W_top, mpc = M_running\<rparr>"

text \<open>The states reached in \<open>n\<close> steps from a freshly constructed controller.\<close>

inductive reach :: "prereq_env \<Rightarrow> nat \<Rightarrow> system \<Rightarrow> bool" for penv where
  reach_init: "strim_controller_new e (Some cfg) True = (0, Some c) \<Longrightarrow>
    length (cfg_initial_paths cfg) = STRIM_PATH_NAME_COUNT \<Longrightarrow>
    length (cfg_stages cfg) = STRIM_STAGE_NAME_COUNT \<Longrightarrow> reach penv 0 (sys_init c)"
| reach_step: "reach penv n s \<Longrightarrow> sys_step penv s s' \<Longrightarrow> reach penv (Suc n) s'"

end
