(* ===== verification/System_Frames.thy ===== *)
theory System_Frames
  imports Controller_System
begin

text \<open>
  What each step of the concurrent controller leaves alone, and its first two invariants: the
  shape of the state and the phases of shutdown.
\<close>

section \<open>What the handlers leave to the queue and the pool\<close>

definition queue_view :: "strim_controller \<Rightarrow> strim_action list \<times> bool \<times> bool \<times> bool \<times> nat \<times> strim_workerpool" where
  "queue_view c = (queue c, q_closed c, reconcile_queued c, shutting_down c, ops_wg c, pool c)"

lemma queue_view_upd [simp]:
  "queue_view (upd_stage i f c) = queue_view c" "queue_view (c\<lparr>paths := p\<rparr>) = queue_view c"
  "queue_view (c\<lparr>listeners := l\<rparr>) = queue_view c"
  by (simp_all add: queue_view_def)

lemma apply_target_queue:
  "apply_desired_stage_target penv r c = (rc, c', es) \<Longrightarrow> queue_view c' = queue_view c"
  by (auto simp: apply_desired_stage_target_def Let_def split: if_splits)

lemma teardown_loop_queue: "queue_view (fst (teardown_loop is c)) = queue_view c"
  by (induction "is" arbitrary: c) (auto simp: teardown_stage_eq case_prod_unfold)

lemma run_action_queue:
  assumes "run_action penv fenv k c = (rc, c', es)" and "k \<noteq> ACTION_RECONCILE"
  shows "queue_view c' = queue_view c"
proof (cases k)
  case (ACTION_PATH_EVENT e)
  with assms show ?thesis
    by (auto simp: strim_controller_handle_path_event_def Let_def dest!: apply_target_queue
        split: if_splits option.splits)
next
  case (ACTION_CONTROL x)
  with assms show ?thesis
    by (auto simp: strim_controller_handle_control_def dest!: apply_target_queue
        split: if_splits option.splits)
next
  case ACTION_TEARDOWN
  with assms teardown_loop_queue [of "[0..<STRIM_STAGE_NAME_COUNT]" c] show ?thesis
    by (auto simp: teardown_inner_def case_prod_unfold simp del: upt_rec_numeral)
qed (use assms in \<open>auto simp: ctl_handlers Let_def split: if_splits option.splits\<close>)

text \<open>An action bumps a stage's generation by at most one.\<close>

lemma run_action_generation:
  assumes "ctl_ok c" and "run_action penv fenv k c = (rc, c', es)" and "k \<noteq> ACTION_RECONCILE"
    and "i < STRIM_STAGE_NAME_COUNT"
  shows "op_generation (stages c' ! i) \<in> {op_generation (stages c ! i), op_generation (stages c ! i) + 1}"
proof -
  have len: "length (stages c) = STRIM_STAGE_NAME_COUNT" "length (stages c') = STRIM_STAGE_NAME_COUNT"
    using assms(1,2) ctl_ok_run_action [of c] by (auto simp: ctl_ok_def)
  show ?thesis
  proof (cases "k = ACTION_TEARDOWN")
    case True
    have "\<forall>j. stages (fst (teardown_loop [0..<STRIM_STAGE_NAME_COUNT] c)) ! j \<in>
        {stages c ! j, mark_torn_down (stages c ! j)}"
      using teardown_loop_eq [of "[0..<STRIM_STAGE_NAME_COUNT]" c] len by (auto simp del: upt_rec_numeral)
    moreover have "c' = fst (teardown_loop [0..<STRIM_STAGE_NAME_COUNT] c)"
      using assms(2) True by (auto simp: teardown_inner_def case_prod_unfold simp del: upt_rec_numeral)
    ultimately have "stages c' ! i \<in> {stages c ! i, mark_torn_down (stages c ! i)}" by blast
    then show ?thesis by (auto simp: mark_torn_down_def)
  next
    case False
    have "generations c' = generations c"
    proof (cases k)
      case (ACTION_PATH_EVENT e)
      with assms(2) show ?thesis
        by (auto simp: strim_controller_handle_path_event_def Let_def dest!: apply_target_frame(3)
            split: if_splits option.splits)
    next
      case (ACTION_CONTROL x)
      with assms(2) show ?thesis
        by (auto simp: strim_controller_handle_control_def dest!: apply_target_frame(3)
            split: if_splits option.splits)
    qed (use assms(2,3) False in \<open>auto simp: ctl_handlers Let_def split: if_splits option.splits\<close>)
    then have "map op_generation (stages c') ! i = map op_generation (stages c) ! i"
      by (simp add: generations_def)
    then show ?thesis using len assms(4) by simp
  qed
qed

section \<open>Outstanding ops\<close>

definition worker_jobs :: "worker_pc \<Rightarrow> strim_op_job multiset" where
  "worker_jobs w =
     (case w of W_run j \<Rightarrow> {#j#} | W_clear j \<Rightarrow> {#j#} | W_done j \<Rightarrow> {#j#} | _ \<Rightarrow> {#})"

lemma worker_jobs_simps [simp]:
  "worker_jobs W_top = {#}" "worker_jobs W_wait = {#}" "worker_jobs W_exit = {#}"
  "worker_jobs (W_run j) = {#j#}" "worker_jobs (W_clear j) = {#j#}" "worker_jobs (W_done j) = {#j#}"
  by (simp_all add: worker_jobs_def)

definition outstanding :: "system \<Rightarrow> strim_op_job multiset" where
  "outstanding s = mset (wp_jobs (pool (ctl s))) + sum_list (map worker_jobs (wks s))"

lemma sum_list_update_comm:
  fixes f :: "'a \<Rightarrow> 'b::comm_monoid_add"
  shows "i < length xs \<Longrightarrow> sum_list (map f (xs[i := x])) + f (xs ! i) = sum_list (map f xs) + f x"
proof (induction xs arbitrary: i)
  case (Cons y ys)
  then show ?case by (cases i) (auto simp: ac_simps)
qed simp

lemma jobs_update:
  assumes "i < length ws"
  shows "sum_list (map worker_jobs (ws[i := w])) =
    sum_list (map worker_jobs ws) + worker_jobs w - worker_jobs (ws ! i)"
  using sum_list_update_comm [OF assms, of worker_jobs w] by (metis add_diff_cancel_right')

lemma jobs_member: "i < length ws \<Longrightarrow> worker_jobs (ws ! i) \<subseteq># sum_list (map worker_jobs ws)"
proof (induction ws arbitrary: i)
  case (Cons w ws)
  then show ?case
    by (cases i) (auto intro: subset_mset.order_trans [OF _ mset_subset_eq_add_right])
qed simp

lemma q_signal_frame:
  assumes "q_signal s s'"
  shows "ctl s' = ctl s" "wks s' = wks s" "mpc s' = mpc s" "replies s' = replies s"
  using assms by (cases; simp)+

lemma w_signal_frame:
  assumes "w_signal s s'"
  shows "ctl s' = ctl s" "qpc s' = qpc s" "subs s' = subs s" "mpc s' = mpc s" "replies s' = replies s"
    "length (wks s') = length (wks s)"
  using assms by (cases; simp)+

lemma w_signal_jobs: "w_signal s s' \<Longrightarrow> sum_list (map worker_jobs (wks s')) = sum_list (map worker_jobs (wks s))"
  by (cases rule: w_signal.cases) (auto simp: jobs_update)

lemma q_broadcast_frame [simp]:
  "ctl (q_broadcast s) = ctl s" "wks (q_broadcast s) = wks s" "mpc (q_broadcast s) = mpc s"
  "replies (q_broadcast s) = replies s"
  by (simp_all add: q_broadcast_def)

lemma w_broadcast_frame [simp]:
  "ctl (w_broadcast s) = ctl s" "qpc (w_broadcast s) = qpc s" "mpc (w_broadcast s) = mpc s"
  "replies (w_broadcast s) = replies s" "subs (w_broadcast s) = subs s"
  "length (wks (w_broadcast s)) = length (wks s)"
  by (simp_all add: w_broadcast_def)

lemma w_broadcast_jobs: "sum_list (map worker_jobs (wks (w_broadcast s))) = sum_list (map worker_jobs (wks s))"
proof -
  have "sum_list (map worker_jobs (map (\<lambda>w. if w = W_wait then W_top else w) ws)) =
      sum_list (map worker_jobs ws)" for ws
    by (induction ws) auto
  then show ?thesis by (simp add: w_broadcast_def)
qed

section \<open>Shape of the state\<close>

definition inv_shape :: "system \<Rightarrow> bool" where
  "inv_shape s \<longleftrightarrow>
     ctl_ok (ctl s) \<and> length (wks s) = STRIM_CTRL_WORKERS \<and>
     (case qpc s of Q_fires _ is \<Rightarrow> \<forall>i \<in> set is. i < STRIM_STAGE_NAME_COUNT | _ \<Rightarrow> True)"

lemma enqueue_clear_frame [simp]:
  "ctl_ok (enqueue_clear j c) = ctl_ok c" "stages (enqueue_clear j c) = stages c"
  "pool (enqueue_clear j c) = pool c" "ops_wg (enqueue_clear j c) = ops_wg c"
  "shutting_down (enqueue_clear j c) = shutting_down c" "q_closed (enqueue_clear j c) = q_closed c"
  "reconcile_queued (enqueue_clear j c) = reconcile_queued c"
  by (simp_all add: enqueue_clear_def)

lemma request_frame [simp]:
  "ctl_ok (strim_controller_request_reconcile a c) = ctl_ok c"
  "stages (strim_controller_request_reconcile a c) = stages c"
  "pool (strim_controller_request_reconcile a c) = pool c"
  "ops_wg (strim_controller_request_reconcile a c) = ops_wg c"
  "shutting_down (strim_controller_request_reconcile a c) = shutting_down c"
  "q_closed (strim_controller_request_reconcile a c) = q_closed c"
  by (simp_all add: strim_controller_request_reconcile_def)

lemma close_frame [simp]:
  "ctl_ok (strim_controller_close c) = ctl_ok c" "stages (strim_controller_close c) = stages c"
  "pool (strim_controller_close c) = pool c" "ops_wg (strim_controller_close c) = ops_wg c"
  "queue (strim_controller_close c) = queue c" "q_closed (strim_controller_close c)"
  "reconcile_queued (strim_controller_close c) = reconcile_queued c"
  "shutting_down (strim_controller_close c)"
  by (simp_all add: strim_controller_close_def)

lemma begin_frame [simp]:
  "ctl_ok (strim_controller_begin_shutdown c) = ctl_ok c"
  "stages (strim_controller_begin_shutdown c) = stages c"
  "pool (strim_controller_begin_shutdown c) = pool c" "ops_wg (strim_controller_begin_shutdown c) = ops_wg c"
  "queue (strim_controller_begin_shutdown c) = queue c"
  "q_closed (strim_controller_begin_shutdown c) = q_closed c"
  "reconcile_queued (strim_controller_begin_shutdown c) = reconcile_queued c"
  "shutting_down (strim_controller_begin_shutdown c)"
  by (simp_all add: strim_controller_begin_shutdown_def)

lemma queue_submit_iff:
  "queue_submit t k c = (None, c') \<longleftrightarrow>
     \<not> q_closed c \<and> c' = c\<lparr>queue := queue c @ [\<lparr>act_kind = k, act_owner = Some t\<rparr>]\<rparr>"
  by (auto simp: queue_submit_def)

lemma run_pop_iff:
  "run_pop c = Some (act, c') \<longleftrightarrow>
     (\<exists>rest. queue c = act # rest \<and>
       c' = c\<lparr>queue := rest, reconcile_queued :=
         (if act_kind act = ACTION_RECONCILE then False else reconcile_queued c)\<rparr>)"
  by (auto simp: run_pop_def split: list.splits)

lemma inv_shape_step:
  assumes "sys_step penv s s'" and "inv_shape s"
  shows "inv_shape s'"
  using assms
proof (cases rule: sys_step.cases)
  case (step_action act fenv rc c' es)
  then show ?thesis using assms(2) ctl_ok_run_action by (auto simp: inv_shape_def)
next
  case (step_fire act i "is" c' e s1)
  then show ?thesis
    using assms(2) by (auto simp: inv_shape_def ctl_ok_reconcile_stage w_signal_frame split: if_splits)
next
  case (step_reply act r)
  then show ?thesis using assms(2)
    by (auto simp: inv_shape_def q_broadcast_def split: option.splits)
qed (auto simp: inv_shape_def q_signal_frame queue_submit_iff run_pop_iff strim_controller_teardown_def
    q_broadcast_def split: if_splits queue_pc.splits elim!: q_signal.cases)

section \<open>Phases of shutdown\<close>

text \<open>Where main is, against the flags, the queue thread and the clients.\<close>

definition phase_ok ::
    "main_pc \<Rightarrow> bool \<Rightarrow> bool \<Rightarrow> bool \<Rightarrow> queue_pc \<Rightarrow> bool \<Rightarrow> (nat \<Rightarrow> sub_pc) \<Rightarrow> bool" where
  "phase_ok m cl shutting pool_shutting q emp sb \<longleftrightarrow>
     (cl \<longleftrightarrow> m \<in> {M_closed, M_joined, M_pool, M_done}) \<and>
     (m \<in> {M_begun, M_waited, M_tearing} \<longrightarrow> shutting) \<and>
     (pool_shutting \<longleftrightarrow> m \<in> {M_pool, M_done}) \<and>
     (m \<in> {M_joined, M_pool, M_done} \<longrightarrow> q = Q_exit) \<and>
     (q = Q_exit \<longrightarrow> emp \<and> cl) \<and>
     (m \<notin> {M_running, M_tearing} \<longrightarrow> (\<forall>t. sb t = S_out)) \<and>
     (m = M_tearing \<longrightarrow> (\<forall>t. t \<noteq> main_tid \<longrightarrow> sb t = S_out)) \<and>
     (m = M_running \<longrightarrow> sb main_tid = S_out)"

definition inv_phase :: "system \<Rightarrow> bool" where
  "inv_phase s \<longleftrightarrow>
     phase_ok (mpc s) (q_closed (ctl s)) (shutting_down (ctl s)) (wp_shutting_down (pool (ctl s)))
       (qpc s) (queue (ctl s) = []) (subs s)"

text \<open>A signal moves nobody out of a call.\<close>

lemma q_signal_out:
  assumes "q_signal s s'"
  shows "(qpc s' = Q_exit) = (qpc s = Q_exit)" and "(subs s' t = S_out) = (subs s t = S_out)"
  using assms by (cases; simp)+

lemma q_broadcast_out:
  "(qpc (q_broadcast s) = Q_exit) = (qpc s = Q_exit)"
  "(subs (q_broadcast s) t = S_out) = (subs s t = S_out)"
  by (simp_all add: q_broadcast_def)

text \<open>The phases depend on the queue thread and the submitters only through who is out.\<close>

lemma phase_ok_cong:
  assumes "(q' = Q_exit) = (q = Q_exit)" and "\<And>t. (sb' t = S_out) = (sb t = S_out)"
  shows "phase_ok m cl sh ps q' e sb' = phase_ok m cl sh ps q e sb"
  unfolding phase_ok_def assms ..

text \<open>A thread inside a call may go on inside it or return from it.\<close>

lemma phase_ok_sub:
  "phase_ok m cl sh ps q e sb \<Longrightarrow> sb t \<noteq> S_out \<Longrightarrow> phase_ok m cl sh ps q e (sb(t := v))"
  by (cases m) (auto simp: phase_ok_def)

lemma queue_view_parts:
  assumes "queue_view c' = queue_view c"
  shows "queue c' = queue c" "q_closed c' = q_closed c" "reconcile_queued c' = reconcile_queued c"
    "shutting_down c' = shutting_down c" "ops_wg c' = ops_wg c" "pool c' = pool c"
  using assms by (simp_all add: queue_view_def)

lemma inv_phase_step:
  assumes "sys_step penv s s'" and "inv_phase s"
  shows "inv_phase s'"
  using assms(1)
proof (cases rule: sys_step.cases)
  case (step_action act fenv rc c' es)
  then have "queue_view c' = queue_view (ctl s)" by (auto intro: run_action_queue)
  from queue_view_parts [OF this] step_action assms(2) show ?thesis
    by (simp add: inv_phase_def phase_ok_def)
next
  case (step_fire act i "is" c' e s1)
  then have "mpc s' = mpc s" "ctl s' = c'" "qpc s' = Q_fires act is" "subs s' = subs s"
    using w_signal_frame [of s1 s'] by (auto split: if_splits)
  then show ?thesis using assms(2) step_fire(1,2) by (simp add: inv_phase_def phase_ok_def)
next
  case (step_reply act r)
  then have "ctl s' = ctl s" "mpc s' = mpc s" "qpc s' = Q_top" "(subs s' t = S_out) = (subs s t = S_out)" for t
    by (simp_all add: q_broadcast_def split: option.split)
  then show ?thesis using assms(2) step_reply(1) by (simp add: inv_phase_def phase_ok_def)
next
  case (step_submit t k c' s1)
  note out = q_signal_out [OF step_submit(6)] q_signal_frame [OF step_submit(6)]
  have "ctl s' = c'" "mpc s' = M_running" "(qpc s' = Q_exit) = (qpc s = Q_exit)" "subs s' 0 = S_out \<longleftrightarrow> subs s 0 = S_out"
    "\<not> q_closed (ctl s)" "q_closed c' = q_closed (ctl s)" "shutting_down c' = shutting_down (ctl s)"
    "pool c' = pool (ctl s)"
    using out step_submit by (simp_all add: queue_submit_iff)
  then show ?thesis using assms(2) step_submit(2) by (simp add: inv_phase_def phase_ok_def)
next
  case (step_request c' alloc)
  show ?thesis
  proof (cases "c' = ctl s")
    case False
    then have sig: "q_signal (s\<lparr>ctl := c'\<rparr>) s'" using step_request by simp
    show ?thesis
      using assms(2) step_request(1,2) q_signal_out [OF sig] q_signal_frame [OF sig]
      by (simp add: inv_phase_def phase_ok_def) blast
  qed (use step_request assms(2) in simp)
next
  case (step_clear W job c' s1)
  show ?thesis
  proof (cases "q_closed (ctl s)")
    case False
    then have sig: "q_signal s1 s'" using step_clear by simp
    show ?thesis
      using assms(2) False step_clear(3,4) q_signal_out [OF sig] q_signal_frame [OF sig]
      by (simp add: inv_phase_def phase_ok_def)
  qed (use step_clear assms(2) in \<open>simp add: inv_phase_def enqueue_clear_def\<close>)
next
  case (step_teardown c' s1)
  note out = q_signal_out [OF step_teardown(4)] q_signal_frame [OF step_teardown(4)]
  have "ctl s' = c'" "mpc s' = M_tearing" "(qpc s' = Q_exit) = (qpc s = Q_exit)"
    "t \<noteq> 0 \<Longrightarrow> (subs s' t = S_out) = (subs s t = S_out)"
    "\<not> q_closed (ctl s)" "q_closed c' = q_closed (ctl s)" "shutting_down c' = shutting_down (ctl s)"
    "pool c' = pool (ctl s)" for t
    using out step_teardown by (simp_all add: queue_submit_iff strim_controller_teardown_def)
  then show ?thesis using assms(2) step_teardown(2) by (simp add: inv_phase_def phase_ok_def)
next
  case step_close
  then show ?thesis using assms(2) q_broadcast_out
    by (simp add: inv_phase_def phase_ok_def)
next
  case (step_pop act c')
  then obtain rest where "c' = (ctl s)\<lparr>queue := rest, reconcile_queued :=
      (if act_kind act = ACTION_RECONCILE then False else reconcile_queued (ctl s))\<rparr>"
    unfolding run_pop_iff by blast
  then show ?thesis using assms(2) step_pop(1,2) by (simp add: inv_phase_def phase_ok_def)
next
  case (step_return t)
  then show ?thesis using assms(2) by (simp add: inv_phase_def phase_ok_sub)
next
  case (step_spurious_s t)
  then show ?thesis using assms(2) by (simp add: inv_phase_def phase_ok_sub)
next
  case step_torn
  then show ?thesis using assms(2) by (simp add: inv_phase_def phase_ok_def) (metis gr0I)
qed (use assms(2) in \<open>simp_all add: inv_phase_def\<close>, unfold phase_ok_def, auto)

end
