(* ===== verification/System_Inv.thy ===== *)
theory System_Inv
  imports System_Frames
begin

text \<open>
  Invariants of the concurrent controller, one per concern: the wait group, pending replies,
  wake-ups of the queue thread and of the workers, coalescing of reconcile requests, and op
  generations.
\<close>

section \<open>The wait group\<close>

definition inv_ops :: "system \<Rightarrow> bool" where
  "inv_ops s \<longleftrightarrow>
     ops_wg (ctl s) = size (outstanding s) \<and>
     (mpc s \<in> {M_waited, M_tearing} \<longrightarrow> outstanding s = {#})"

lemma reconcile_stage_jobs:
  assumes "ctl_ok c" and "i < STRIM_STAGE_NAME_COUNT"
  shows "wp_jobs (pool (reconcile_stage e i c)) =
      wp_jobs (pool c) @ (if fires e i c then [fired_job e i c] else [])"
    and "ops_wg (reconcile_stage e i c) = ops_wg c + (if fires e i c then 1 else 0)"
    and "stages (reconcile_stage e i c) = (stages c)[i := reconciled_stage e i c]"
  using reconcile_stage_eq [of i c e] assms by (simp_all add: ctl_ok_def)

lemma fires_running: "fires e i c \<Longrightarrow> \<not> shutting_down c \<and> \<not> wp_shutting_down (pool c)"
  by (simp add: fires_def Let_def)

lemma step_fire_outstanding:
  assumes "inv_shape s" and "qpc s = Q_fires act (i # is)"
    and "s1 = s\<lparr>ctl := reconcile_stage e i (ctl s), qpc := Q_fires act is\<rparr>"
    and "if length (wp_jobs (pool (reconcile_stage e i (ctl s)))) > length (wp_jobs (pool (ctl s)))
      then w_signal s1 s' else s' = s1"
  shows "outstanding s' = outstanding s +
    (if fires e i (ctl s) then {#fired_job e i (ctl s)#} else {#})"
proof -
  have i: "ctl_ok (ctl s)" "i < STRIM_STAGE_NAME_COUNT" using assms(1,2) by (auto simp: inv_shape_def)
  have "ctl s' = reconcile_stage e i (ctl s)"
    "sum_list (map worker_jobs (wks s')) = sum_list (map worker_jobs (wks s))"
    using assms(3,4) w_signal_frame(1) [of s1 s'] w_signal_jobs [of s1 s'] by (auto split: if_splits)
  then show ?thesis
    using reconcile_stage_jobs [OF i, of e] by (simp add: outstanding_def)
qed

text \<open>A step that keeps the outstanding ops and main's phase.\<close>

lemma inv_ops_same:
  assumes "inv_ops s" and "ops_wg (ctl s') = ops_wg (ctl s)" and "outstanding s' = outstanding s"
    and "mpc s' \<in> {M_waited, M_tearing} \<Longrightarrow> mpc s \<in> {M_waited, M_tearing}"
  shows "inv_ops s'"
  using assms by (auto simp: inv_ops_def)

lemma outstanding_update:
  assumes "W < length (wks s)" and "wks s' = (wks s)[W := w]"
    and "wp_jobs (pool (ctl s')) = wp_jobs (pool (ctl s))"
  shows "outstanding s' + worker_jobs (wks s ! W) = outstanding s + worker_jobs w"
  using sum_list_update_comm [OF assms(1), of worker_jobs w] assms(2,3)
  by (simp add: outstanding_def add.assoc)

lemma outstanding_cong:
  "wp_jobs (pool (ctl s')) = wp_jobs (pool (ctl s)) \<Longrightarrow> wks s' = wks s \<Longrightarrow> outstanding s' = outstanding s"
  by (simp add: outstanding_def)

lemma inv_ops_fire:
  assumes "sys_step penv s s'" and "inv_shape s" and "inv_phase s" and "inv_ops s"
    and "qpc s = Q_fires act (i # is)" and "s1 = s\<lparr>ctl := reconcile_stage e i (ctl s), qpc := Q_fires act is\<rparr>"
    and "if length (wp_jobs (pool (reconcile_stage e i (ctl s)))) > length (wp_jobs (pool (ctl s)))
      then w_signal s1 s' else s' = s1"
  shows "inv_ops s'"
proof -
  have out: "outstanding s' = outstanding s +
      (if fires e i (ctl s) then {#fired_job e i (ctl s)#} else {#})"
    by (rule step_fire_outstanding [OF assms(2,5-7)])
  have i: "ctl_ok (ctl s)" "i < STRIM_STAGE_NAME_COUNT"
    using assms(2,5) by (simp_all add: inv_shape_def)
  have c: "ctl s' = reconcile_stage e i (ctl s)" "mpc s' = mpc s"
    using assms(6,7) w_signal_frame [of s1 s'] by (auto split: if_splits)
  have "mpc s \<in> {M_waited, M_tearing} \<Longrightarrow> \<not> fires e i (ctl s)"
    using assms(3) fires_running [of e i "ctl s"] by (auto simp: inv_phase_def phase_ok_def)
  then show ?thesis
    using assms(4) out c reconcile_stage_jobs(2) [OF i, of e] by (simp add: inv_ops_def)
qed

lemma inv_ops_done:
  assumes "inv_ops s" and "W < length (wks s)" and "wks s ! W = W_done job"
    and "s' = s\<lparr>ctl := (ctl s)\<lparr>ops_wg := wg_done (ops_wg (ctl s))\<rparr>, wks := (wks s)[W := W_top]\<rparr>"
  shows "inv_ops s'"
proof -
  have "outstanding s' + {#job#} = outstanding s"
    using outstanding_update [OF assms(2), of s' W_top] assms(3,4) by simp
  then have out: "outstanding s = add_mset job (outstanding s')" by simp
  have "ops_wg (ctl s') = wg_done (ops_wg (ctl s))" "mpc s' = mpc s" using assms(4) by simp_all
  then show ?thesis using assms(1) unfolding inv_ops_def out by (simp add: wg_done_def)
qed

lemma inv_ops_step:
  assumes "sys_step penv s s'" and "inv_shape s" and "inv_phase s" and "inv_ops s"
  shows "inv_ops s'"
  using assms(1)
proof (cases rule: sys_step.cases)
  case (step_action act fenv rc c' es)
  then have "queue_view c' = queue_view (ctl s)" by (auto intro: run_action_queue)
  from queue_view_parts [OF this] step_action show ?thesis
    by (intro inv_ops_same [OF assms(4)] outstanding_cong) simp_all
next
  case (step_fire act i "is" c' e s1)
  then show ?thesis by (intro inv_ops_fire [OF assms step_fire(1)]) simp_all
next
  case (step_take W job jobs)
  have "outstanding s' = outstanding s"
    using step_take by (simp add: outstanding_def jobs_update)
  then show ?thesis using step_take by (intro inv_ops_same [OF assms(4)]) simp_all
next
  case (step_op W job err alloc)
  have "outstanding s' + {#job#} = outstanding s + {#job#}"
    using outstanding_update [OF step_op(2), of s'] step_op(1,3) by simp
  then show ?thesis using step_op by (intro inv_ops_same [OF assms(4)]) simp_all
next
  case (step_clear W job c' s1)
  have s': "ctl s' = c'" "wks s' = (wks s)[W := W_done job]" "mpc s' = mpc s"
    using step_clear(4,5) q_signal_frame [of s1 s'] by (auto split: if_splits)
  have "outstanding s' + {#job#} = outstanding s + {#job#}"
    using outstanding_update [OF step_clear(1) s'(2)] s' step_clear(2,3) by simp
  then show ?thesis using s' step_clear(3) by (intro inv_ops_same [OF assms(4)]) simp_all
next
  case (step_done W job)
  then show ?thesis using inv_ops_done [OF assms(4)] by simp
next
  case step_destroy
  then show ?thesis
    using w_broadcast_jobs by (intro inv_ops_same [OF assms(4)]) (simp_all add: outstanding_def)
next
  case (step_submit t k c' s1)
  then show ?thesis
    using q_signal_frame [OF step_submit(6)]
    by (intro inv_ops_same [OF assms(4)] outstanding_cong) (simp_all add: queue_submit_iff)
next
  case (step_teardown c' s1)
  then show ?thesis
    using q_signal_frame [OF step_teardown(4)]
    by (intro inv_ops_same [OF assms(4)] outstanding_cong)
      (simp_all add: strim_controller_teardown_def queue_submit_iff)
next
  case (step_request c' alloc)
  then have "ctl s' = c'" "wks s' = wks s" "mpc s' = mpc s"
    using q_signal_frame [of "s\<lparr>ctl := c'\<rparr>" s'] by (auto split: if_splits)
  then show ?thesis
    using step_request(2) by (intro inv_ops_same [OF assms(4)] outstanding_cong) simp_all
next
  case step_wait_ops
  then show ?thesis using assms(4) outstanding_cong [of s' s] by (simp add: inv_ops_def)
next
  case (step_pop act c')
  then obtain rest where "c' = (ctl s)\<lparr>queue := rest, reconcile_queued :=
      (if act_kind act = ACTION_RECONCILE then False else reconcile_queued (ctl s))\<rparr>"
    unfolding run_pop_iff by blast
  then show ?thesis using step_pop(1) by (intro inv_ops_same [OF assms(4)] outstanding_cong) simp_all
next
  case (step_reply act r)
  then show ?thesis
    by (intro inv_ops_same [OF assms(4)] outstanding_cong) (simp_all split: option.splits)
next
  case (step_idle W)
  then show ?thesis
    by (intro inv_ops_same [OF assms(4)]) (simp_all add: outstanding_def jobs_update)
next
  case (step_spurious_w W)
  then show ?thesis
    by (intro inv_ops_same [OF assms(4)]) (simp_all add: outstanding_def jobs_update)
qed (intro inv_ops_same [OF assms(4)] outstanding_cong; simp)+

section \<open>Replies\<close>

definition current_actions :: "queue_pc \<Rightarrow> strim_action list" where
  "current_actions q =
     (case q of Q_act a \<Rightarrow> [a] | Q_fires a _ \<Rightarrow> [a] | Q_reply a _ \<Rightarrow> [a] | _ \<Rightarrow> [])"

lemma current_actions_simps [simp]:
  "current_actions Q_top = []" "current_actions Q_wait = []" "current_actions Q_exit = []"
  "current_actions (Q_act a) = [a]" "current_actions (Q_fires a is) = [a]"
  "current_actions (Q_reply a r) = [a]"
  by (simp_all add: current_actions_def)

text \<open>The actions of thread \<open>t\<close> that are being run or still queued.\<close>

definition owned :: "nat \<Rightarrow> strim_action list \<Rightarrow> nat" where
  "owned t acts = length (filter (\<lambda>a. act_owner a = Some t) acts)"

lemma owned_simps [simp]:
  "owned t [] = 0" "owned t (a # as) = (if act_owner a = Some t then 1 else 0) + owned t as"
  "owned t (as @ bs) = owned t as + owned t bs"
  by (simp_all add: owned_def)

definition unanswered :: "system \<Rightarrow> nat \<Rightarrow> bool" where
  "unanswered s t \<longleftrightarrow> subs s t \<noteq> S_out \<and> replies s t = None"

definition inv_reply :: "system \<Rightarrow> bool" where
  "inv_reply s \<longleftrightarrow>
     (\<forall>t. owned t (current_actions (qpc s) @ queue (ctl s)) = (if unanswered s t then 1 else 0)) \<and>
     (\<forall>t. subs s t = S_wait \<longrightarrow> replies s t = None) \<and>
     (qpc s = Q_wait \<longrightarrow> queue (ctl s) = [] \<and> \<not> q_closed (ctl s))"

text \<open>A sleeping queue thread is the only sleeper, so a signal wakes it.\<close>

lemma sleeper_alone:
  assumes "inv_reply s" and "qpc s = Q_wait"
  shows "subs s t \<noteq> S_wait"
proof
  assume "subs s t = S_wait"
  then have "unanswered s t" using assms(1) by (simp add: inv_reply_def unanswered_def)
  then have "owned t (current_actions (qpc s) @ queue (ctl s)) = 1"
    using assms(1) unfolding inv_reply_def by presburger
  then show False using assms by (simp add: inv_reply_def)
qed

lemma signal_queue:
  assumes "q_signal s s'" and "qpc s = Q_wait \<longrightarrow> (\<forall>t. subs s t \<noteq> S_wait)"
  shows "qpc s' = (if qpc s = Q_wait then Q_top else qpc s) \<and>
    (\<forall>t. subs s' t = subs s t \<or> subs s t = S_wait \<and> subs s' t = S_awake)"
  using assms by (cases rule: q_signal.cases) auto

text \<open>The invariant depends on the queue thread's program counter only through these views.\<close>

lemma inv_replyI:
  assumes "\<And>t. owned t (current_actions (qpc s) @ queue (ctl s)) = (if unanswered s t then 1 else 0)"
    and "\<And>t. subs s t = S_wait \<Longrightarrow> replies s t = None"
    and "qpc s = Q_wait \<Longrightarrow> queue (ctl s) = [] \<and> \<not> q_closed (ctl s)"
  shows "inv_reply s"
  using assms by (auto simp: inv_reply_def)

lemma inv_replyD:
  assumes "inv_reply s"
  shows "owned t (current_actions (qpc s)) + owned t (queue (ctl s)) = (if unanswered s t then 1 else 0)"
    and "subs s t = S_wait \<Longrightarrow> replies s t = None"
    and "qpc s = Q_wait \<Longrightarrow> queue (ctl s) = [] \<and> \<not> q_closed (ctl s)"
proof -
  have "owned t (current_actions (qpc s) @ queue (ctl s)) = (if unanswered s t then 1 else 0)"
    using assms unfolding inv_reply_def by blast
  then show "owned t (current_actions (qpc s)) + owned t (queue (ctl s)) = (if unanswered s t then 1 else 0)"
    by simp
qed (use assms in \<open>auto simp: inv_reply_def\<close>)

lemma awake_not: "S_awake \<noteq> S_out" "S_awake \<noteq> S_wait" "S_wait \<noteq> S_out"
  by simp_all

text \<open>An action is appended and the queue's condition variable signalled.\<close>

lemma signal_views:
  assumes "inv_reply s" and "q_signal s1 s'" and "qpc s1 = qpc s" and "subs s1 = subs s"
  shows "current_actions (qpc s') = current_actions (qpc s)" and "qpc s' \<noteq> Q_wait"
    and "(subs s' t = S_out) = (subs s t = S_out)" and "subs s' t = S_wait \<Longrightarrow> subs s t = S_wait"
proof -
  have sig: "qpc s' = (if qpc s = Q_wait then Q_top else qpc s) \<and>
    (\<forall>t. subs s' t = subs s t \<or> subs s t = S_wait \<and> subs s' t = S_awake)"
    using signal_queue [OF assms(2)] sleeper_alone [OF assms(1)] assms(3,4) by simp
  show "current_actions (qpc s') = current_actions (qpc s)" "qpc s' \<noteq> Q_wait"
    using sig by simp_all
  have "subs s' t = subs s t \<or> subs s t = S_wait \<and> subs s' t = S_awake" using sig by blast
  then show "(subs s' t = S_out) = (subs s t = S_out)" "subs s' t = S_wait \<Longrightarrow> subs s t = S_wait"
    by auto
qed

lemma inv_reply_append:
  assumes "inv_reply s" and "q_signal s1 s'" and "qpc s1 = qpc s" and "subs s1 = subs s"
    and "replies s1 = replies s"
    and "queue (ctl s1) = queue (ctl s) @ [act]" and "act_owner act = None"
  shows "inv_reply s'"
proof (rule inv_replyI)
  note v = signal_views [OF assms(1-4)]
  have fr: "ctl s' = ctl s1" "replies s' = replies s" using q_signal_frame [OF assms(2)] assms(5) by simp_all
  show "owned t (current_actions (qpc s') @ queue (ctl s')) = (if unanswered s' t then 1 else 0)" for t
    using inv_replyD(1) [OF assms(1), of t] v(1) v(3) [of t] fr assms(6,7) by (simp add: unanswered_def)
  show "replies s' t = None" if "subs s' t = S_wait" for t
    using inv_replyD(2) [OF assms(1), of t] v(4) [of t] fr that by simp
  show "queue (ctl s') = [] \<and> \<not> q_closed (ctl s')" if "qpc s' = Q_wait"
    using v(2) that by simp
qed

text \<open>A thread submits its own action and sleeps until it is answered.\<close>

lemma inv_reply_submit:
  assumes "inv_reply s" and "q_signal (s\<lparr>ctl := c', replies := (replies s)(t := None)\<rparr>) s1"
    and "queue c' = queue (ctl s) @ [\<lparr>act_kind = k, act_owner = Some t\<rparr>]" and "subs s t = S_out"
  shows "inv_reply (s1\<lparr>subs := (subs s1)(t := S_wait)\<rparr>)"
proof (rule inv_replyI)
  note v = signal_views [OF assms(1,2), simplified]
  have fr: "ctl s1 = c'" "replies s1 = (replies s)(t := None)" using q_signal_frame [OF assms(2)] by simp_all
  show "owned u (current_actions (qpc (s1\<lparr>subs := (subs s1)(t := S_wait)\<rparr>)) @
      queue (ctl (s1\<lparr>subs := (subs s1)(t := S_wait)\<rparr>))) =
    (if unanswered (s1\<lparr>subs := (subs s1)(t := S_wait)\<rparr>) u then 1 else 0)" for u
    using inv_replyD(1) [OF assms(1), of u] v(1) v(3) [of u] fr assms(3,4) by (auto simp: unanswered_def)
  show "replies (s1\<lparr>subs := (subs s1)(t := S_wait)\<rparr>) u = None"
    if "subs (s1\<lparr>subs := (subs s1)(t := S_wait)\<rparr>) u = S_wait" for u
    using inv_replyD(2) [OF assms(1), of u] v(4) [of u] fr that by (auto split: if_splits)
qed (use signal_views(2) [OF assms(1,2)] in simp)

lemma inv_reply_same:
  assumes "inv_reply s" and "current_actions (qpc s') = current_actions (qpc s)"
    and "queue (ctl s') = queue (ctl s)" and "replies s' = replies s"
    and "\<And>t. (subs s' t = S_out) = (subs s t = S_out)" and "\<And>t. subs s' t = S_wait \<Longrightarrow> replies s t = None"
    and "qpc s' = Q_wait \<Longrightarrow> queue (ctl s') = [] \<and> \<not> q_closed (ctl s')"
  shows "inv_reply s'"
proof (rule inv_replyI)
  show "owned t (current_actions (qpc s') @ queue (ctl s')) = (if unanswered s' t then 1 else 0)" for t
    using inv_replyD(1) [OF assms(1), of t] assms(2-5) by (simp add: unanswered_def)
qed (use assms in simp_all)

text \<open>The action that was run answers its submitter.\<close>

lemma inv_reply_answer:
  assumes "inv_reply s" and "qpc s = Q_reply act r"
    and "s' = (case act_owner act of
            None \<Rightarrow> s\<lparr>qpc := Q_top\<rparr>
          | Some t \<Rightarrow> q_broadcast (s\<lparr>qpc := Q_top, replies := (replies s)(t := Some r)\<rparr>))"
  shows "inv_reply s'"
proof (cases "act_owner act")
  case None
  show ?thesis
  proof (rule inv_replyI)
    show "owned t (current_actions (qpc s') @ queue (ctl s')) = (if unanswered s' t then 1 else 0)" for t
      using inv_replyD(1) [OF assms(1), of t] assms(2,3) None by (simp add: unanswered_def)
  qed (use assms None inv_replyD(2) [OF assms(1)] in simp_all)
next
  case (Some u)
  have s': "ctl s' = ctl s" "qpc s' = Q_top" "replies s' = (replies s)(u := Some r)"
    "(subs s' t = S_out) = (subs s t = S_out)" "subs s' t \<noteq> S_wait" for t
    using assms(3) Some by (simp_all add: q_broadcast_def)
  show ?thesis
  proof (rule inv_replyI)
    show "owned t (current_actions (qpc s') @ queue (ctl s')) = (if unanswered s' t then 1 else 0)" for t
      using inv_replyD(1) [OF assms(1), of t] assms(2) Some s'
      by (simp add: unanswered_def split: if_splits)
  qed (use s' in simp_all)
qed

lemma inv_reply_return:
  assumes "inv_reply s" and "subs s t = S_awake"
    and "s' = s\<lparr>subs := (subs s)(t := (if replies s t = None then S_wait else S_out))\<rparr>"
  shows "inv_reply s'"
proof (rule inv_replyI)
  show "owned u (current_actions (qpc s') @ queue (ctl s')) = (if unanswered s' u then 1 else 0)" for u
    using inv_replyD(1) [OF assms(1), of u] assms(2,3) by (auto simp: unanswered_def)
  show "replies s' u = None" if "subs s' u = S_wait" for u
    using inv_replyD(2) [OF assms(1), of u] assms(3) that by (auto split: if_splits)
qed (use assms(3) inv_replyD(3) [OF assms(1)] in simp)

lemma inv_reply_mpc [simp]: "inv_reply (s\<lparr>mpc := m\<rparr>) = inv_reply s"
  by (simp add: inv_reply_def unanswered_def)

lemma inv_reply_step:
  assumes "sys_step penv s s'" and "inv_phase s" and "inv_reply s"
  shows "inv_reply s'"
  using assms(1)
proof (cases rule: sys_step.cases)
  case (step_pop act c')
  then obtain rest where "queue (ctl s) = act # rest" "queue c' = rest"
    unfolding run_pop_iff by auto
  then show ?thesis
    using inv_replyD [OF assms(3)] step_pop(1,2) by (intro inv_replyI) (simp_all add: unanswered_def)
next
  case (step_action act fenv rc c' es)
  then have "queue_view c' = queue_view (ctl s)" by (auto intro: run_action_queue)
  from queue_view_parts [OF this] step_action inv_replyD(2) [OF assms(3)] show ?thesis
    by (intro inv_reply_same [OF assms(3)]) simp_all
next
  case (step_reconcile act)
  then show ?thesis
    using inv_replyD(2) [OF assms(3)] by (intro inv_reply_same [OF assms(3)]) (simp_all split: if_splits)
next
  case (step_fire act i "is" c' e s1)
  then have "ctl s' = reconcile_stage e i (ctl s)" "qpc s' = Q_fires act is" "subs s' = subs s"
    "replies s' = replies s"
    using w_signal_frame [of s1 s'] by (auto split: if_splits)
  then show ?thesis
    using step_fire(1) inv_replyD(2) [OF assms(3)] by (intro inv_reply_same [OF assms(3)]) simp_all
next
  case (step_reply act r)
  then show ?thesis using inv_reply_answer [OF assms(3)] by blast
next
  case (step_submit t k c' s1)
  then show ?thesis
    using inv_reply_submit [OF assms(3) step_submit(6)] by (simp add: queue_submit_iff)
next
  case (step_teardown c' s1)
  have "subs s main_tid = S_out" using assms(2) step_teardown(2) by (simp add: inv_phase_def phase_ok_def)
  then have "inv_reply (s1\<lparr>subs := (subs s1)(main_tid := S_wait)\<rparr>)"
    using step_teardown inv_reply_submit [OF assms(3) step_teardown(4)]
    by (simp add: strim_controller_teardown_def queue_submit_iff)
  then have "inv_reply (s1\<lparr>subs := (subs s1)(main_tid := S_wait)\<rparr>\<lparr>mpc := M_tearing\<rparr>)"
    unfolding inv_reply_mpc .
  then show ?thesis using step_teardown(1) by simp
next
  case (step_return t)
  then show ?thesis using inv_reply_return [OF assms(3)] by blast
next
  case (step_request c' alloc)
  show ?thesis
  proof (cases "c' = ctl s")
    case False
    then have "queue c' = queue (ctl s) @ [\<lparr>act_kind = ACTION_RECONCILE, act_owner = None\<rparr>]"
      using step_request(2) by (auto simp: strim_controller_request_reconcile_def split: if_splits)
    then show ?thesis using inv_reply_append [OF assms(3), of "s\<lparr>ctl := c'\<rparr>"] False step_request(3) by simp
  qed (use step_request assms(3) in simp)
next
  case (step_clear W job c' s1)
  show ?thesis
  proof (cases "q_closed (ctl s)")
    case True
    then show ?thesis
      using step_clear inv_replyD(2,3) [OF assms(3)]
      by (intro inv_reply_same [OF assms(3)]) (simp_all add: enqueue_clear_def)
  next
    case False
    then show ?thesis
      using step_clear by (intro inv_reply_append [OF assms(3), where ?s1.0 = s1
            and act = "\<lparr>act_kind = ACTION_CLEAR_INFLIGHT (oj_stage job) (cn_generation (oj_cancel job)),
              act_owner = None\<rparr>"]) (simp_all add: enqueue_clear_def)
  qed
next
  case step_close
  then have "subs s t = S_out" for t using assms(2) by (simp add: inv_phase_def phase_ok_def)
  then show ?thesis
    using step_close
    by (intro inv_reply_same [OF assms(3)]) (simp_all add: q_broadcast_def split: if_splits)
next
  case (step_spurious_s t)
  then show ?thesis
    using inv_replyD(2,3) [OF assms(3)] by (intro inv_reply_same [OF assms(3)]) (simp_all split: if_splits)
qed (use inv_replyD(2,3) [OF assms(3)] in \<open>(intro inv_reply_same [OF assms(3)]; simp)+\<close>)

end
