(* ===== verification/System_Gen.thy ===== *)
theory System_Gen
  imports System_Inv
begin

text \<open>
  The remaining invariants of the concurrent controller: at most one queued reconcile request,
  no idle worker beside waiting jobs, and the generations of the outstanding ops.
\<close>

section \<open>Reconcile requests\<close>

definition reconciles :: "strim_action list \<Rightarrow> nat" where
  "reconciles acts = length (filter (\<lambda>a. act_kind a = ACTION_RECONCILE) acts)"

lemma reconciles_simps [simp]:
  "reconciles [] = 0"
  "reconciles (a # as) = (if act_kind a = ACTION_RECONCILE then 1 else 0) + reconciles as"
  "reconciles (as @ bs) = reconciles as + reconciles bs"
  by (simp_all add: reconciles_def)

definition inv_rq :: "strim_controller \<Rightarrow> bool" where
  "inv_rq c \<longleftrightarrow> reconciles (queue c) = (if reconcile_queued c then 1 else 0)"

lemma inv_rq_view: "queue_view c' = queue_view c \<Longrightarrow> inv_rq c' = inv_rq c"
  by (simp add: inv_rq_def queue_view_def)

lemma inv_rq_submit:
  "queue_submit t k c = (None, c') \<Longrightarrow> k \<noteq> ACTION_RECONCILE \<Longrightarrow> inv_rq c' = inv_rq c"
  by (simp add: queue_submit_iff inv_rq_def)

lemma inv_rq_enqueue:
  "inv_rq (enqueue_clear job c) = inv_rq c" "inv_rq (strim_controller_close c) = inv_rq c"
  "inv_rq (strim_controller_begin_shutdown c) = inv_rq c"
  "inv_rq (c\<lparr>ops_wg := n\<rparr>) = inv_rq c" "inv_rq (c\<lparr>pool := p\<rparr>) = inv_rq c"
  "inv_rq c \<Longrightarrow> inv_rq (strim_controller_request_reconcile alloc c)"
  "inv_rq (reconcile_stage e i c) = inv_rq c"
  by (simp_all add: inv_rq_def enqueue_clear_def strim_controller_request_reconcile_def)

lemma inv_rq_pop: "run_pop c = Some (act, c') \<Longrightarrow> inv_rq c \<Longrightarrow> inv_rq c'"
  unfolding run_pop_iff by (elim exE conjE) (simp add: inv_rq_def split: if_splits)

lemma client_not_reconcile: "client_action k \<Longrightarrow> k \<noteq> ACTION_RECONCILE"
  by (auto simp: client_action_def)

lemma inv_rq_step:
  assumes "sys_step penv s s'" and "inv_rq (ctl s)"
  shows "inv_rq (ctl s')"
  using assms(1)
proof (cases rule: sys_step.cases)
  case (step_action act fenv rc c' es)
  then have "queue_view c' = queue_view (ctl s)" by (auto intro: run_action_queue)
  from inv_rq_view [OF this] step_action(1) assms(2) show ?thesis by simp
next
  case (step_pop act c')
  from inv_rq_pop [OF step_pop(3) assms(2)] step_pop(1) show ?thesis by simp
next
  case (step_fire act i "is" c' e s1)
  then have "ctl s' = reconcile_stage e i (ctl s)"
    using w_signal_frame [of s1 s'] by (auto split: if_splits)
  then show ?thesis using assms(2) by (simp add: inv_rq_enqueue)
next
  case (step_submit t k c' s1)
  then show ?thesis
    using assms(2) q_signal_frame [OF step_submit(6)] inv_rq_submit [OF step_submit(5)]
    by (simp add: client_not_reconcile)
next
  case (step_request c' alloc)
  then have "ctl s' = c'" using q_signal_frame [of "s\<lparr>ctl := c'\<rparr>" s'] by (auto split: if_splits)
  then show ?thesis using assms(2) step_request(2) by (simp add: inv_rq_enqueue)
next
  case (step_clear W job c' s1)
  then have "ctl s' = c'" using q_signal_frame [of s1 s'] by (auto split: if_splits)
  then show ?thesis using assms(2) step_clear(3) by (simp add: inv_rq_enqueue)
next
  case (step_teardown c' s1)
  then show ?thesis
    using assms(2) q_signal_frame [OF step_teardown(4)] inv_rq_submit [of main_tid ACTION_TEARDOWN "ctl s" c']
    by (simp add: strim_controller_teardown_def)
next
  case (step_reply act r)
  then show ?thesis using assms(2) by (simp split: option.splits)
qed (use assms(2) in \<open>simp_all add: inv_rq_enqueue\<close>)

section \<open>Workers\<close>

definition tops :: "worker_pc list \<Rightarrow> nat" where
  "tops ws = count (mset ws) W_top"

lemma tops_update:
  assumes "i < length ws"
  shows "tops (ws[i := w]) + (if ws ! i = W_top then 1 else 0) = tops ws + (if w = W_top then 1 else 0)"
proof -
  have "ws ! i \<in># mset ws" using assms by simp
  then have "ws ! i = W_top \<Longrightarrow> 0 < count (mset ws) W_top" by simp
  then show ?thesis using assms by (simp add: tops_def mset_update)
qed

definition workers_ok :: "worker_pc list \<Rightarrow> strim_op_job list \<Rightarrow> bool \<Rightarrow> bool" where
  "workers_ok ws jobs pool_shutting \<longleftrightarrow>
     (W_wait \<in> set ws \<longrightarrow> length jobs \<le> tops ws \<and> \<not> pool_shutting) \<and>
     (W_exit \<in> set ws \<longrightarrow> jobs = [] \<and> pool_shutting)"

definition inv_workers :: "system \<Rightarrow> bool" where
  "inv_workers s \<longleftrightarrow> workers_ok (wks s) (wp_jobs (pool (ctl s))) (wp_shutting_down (pool (ctl s)))"

lemma set_update_busy:
  "x \<in> set (ws[i := w]) \<Longrightarrow> x \<noteq> w \<Longrightarrow> x \<in> set ws"
  using set_update_subset_insert [of ws i w] by blast

lemma workers_ok_busy:
  assumes "workers_ok ws jobs sh" and "i < length ws" and "ws ! i \<noteq> W_top" and "w \<noteq> W_wait" and "w \<noteq> W_exit"
  shows "workers_ok (ws[i := w]) jobs sh"
  using assms tops_update [OF assms(2), of w]
  by (auto simp: workers_ok_def dest!: set_update_busy split: if_splits)

lemma workers_ok_take:
  assumes "workers_ok ws (job # jobs) sh" and "i < length ws" and "ws ! i = W_top"
  shows "workers_ok (ws[i := W_run job]) jobs sh"
  using assms tops_update [OF assms(2), of "W_run job"]
  by (auto simp: workers_ok_def dest!: set_update_busy)

lemma workers_ok_idle:
  assumes "workers_ok ws [] sh"
  shows "workers_ok (ws[i := (if sh then W_exit else W_wait)]) [] sh"
  using assms by (auto simp: workers_ok_def dest!: set_update_busy)

lemma workers_ok_signal:
  assumes "workers_ok (wks s) jobs False" and "w_signal s s'"
  shows "workers_ok (wks s') (jobs @ [job]) False"
  using assms(2)
proof cases
  case (w_signal_one w)
  then show ?thesis
    using assms(1) tops_update [OF w_signal_one(2), of W_top]
    by (auto simp: workers_ok_def dest!: set_update_busy)
next
  case w_signal_none
  then show ?thesis using assms(1) by (simp add: workers_ok_def)
qed

lemma workers_ok_broadcast:
  "workers_ok (wks s) jobs sh \<Longrightarrow> \<not> sh \<Longrightarrow> workers_ok (wks (w_broadcast s)) jobs True"
  by (auto simp: workers_ok_def w_broadcast_def split: if_splits)

lemma inv_workers_fire:
  assumes "inv_shape s" and "inv_workers s" and "qpc s = Q_fires act (i # is)"
    and "s1 = s\<lparr>ctl := reconcile_stage e i (ctl s), qpc := Q_fires act is\<rparr>"
    and "if length (wp_jobs (pool (reconcile_stage e i (ctl s)))) > length (wp_jobs (pool (ctl s)))
      then w_signal s1 s' else s' = s1"
  shows "inv_workers s'"
proof -
  have i: "ctl_ok (ctl s)" "i < STRIM_STAGE_NAME_COUNT"
    using assms(1,3) by (simp_all add: inv_shape_def)
  note jobs = reconcile_stage_jobs(1) [OF i, of e]
  show ?thesis
  proof (cases "fires e i (ctl s)")
    case True
    then have sig: "w_signal s1 s'" using assms(5) jobs by simp
    have "\<not> wp_shutting_down (pool (ctl s))" using fires_running [OF True] by simp
    then have "workers_ok (wks s1) (wp_jobs (pool (ctl s))) False"
      using assms(2,4) by (simp add: inv_workers_def)
    from workers_ok_signal [OF this sig, of "fired_job e i (ctl s)"] show ?thesis
      using jobs True w_signal_frame(1) [OF sig] assms(4) \<open>\<not> wp_shutting_down (pool (ctl s))\<close>
      by (simp add: inv_workers_def)
  next
    case False
    then show ?thesis using assms(2,4,5) jobs by (simp add: inv_workers_def)
  qed
qed

lemma inv_workers_step:
  assumes "sys_step penv s s'" and "inv_shape s" and "inv_phase s" and "inv_workers s"
  shows "inv_workers s'"
  using assms(1)
proof (cases rule: sys_step.cases)
  case (step_action act fenv rc c' es)
  then have "queue_view c' = queue_view (ctl s)" by (auto intro: run_action_queue)
  from queue_view_parts [OF this] step_action(1) assms(4) show ?thesis by (simp add: inv_workers_def)
next
  case (step_pop act c')
  then obtain rest where "c' = (ctl s)\<lparr>queue := rest, reconcile_queued :=
      (if act_kind act = ACTION_RECONCILE then False else reconcile_queued (ctl s))\<rparr>"
    unfolding run_pop_iff by blast
  then show ?thesis using assms(4) step_pop(1) by (simp add: inv_workers_def)
next
  case (step_fire act i "is" c' e s1)
  then show ?thesis by (intro inv_workers_fire [OF assms(2,4) step_fire(1)]) simp_all
next
  case (step_submit t k c' s1)
  then show ?thesis
    using assms(4) q_signal_frame [OF step_submit(6)] by (simp add: inv_workers_def queue_submit_iff)
next
  case (step_teardown c' s1)
  then show ?thesis
    using assms(4) q_signal_frame [OF step_teardown(4)]
    by (simp add: inv_workers_def queue_submit_iff strim_controller_teardown_def)
next
  case (step_request c' alloc)
  then have "ctl s' = c'" "wks s' = wks s"
    using q_signal_frame [of "s\<lparr>ctl := c'\<rparr>" s'] by (auto split: if_splits)
  then show ?thesis using assms(4) step_request(2) by (simp add: inv_workers_def)
next
  case (step_clear W job c' s1)
  then have "ctl s' = c'" "wks s' = (wks s)[W := W_done job]"
    using q_signal_frame [of s1 s'] by (auto split: if_splits)
  then show ?thesis using assms(4) step_clear(1-3) by (simp add: inv_workers_def workers_ok_busy)
next
  case (step_reply act r)
  then show ?thesis using assms(4) by (simp add: inv_workers_def split: option.splits)
next
  case (step_take W job jobs)
  then show ?thesis using assms(4) by (simp add: inv_workers_def workers_ok_take)
next
  case (step_idle W)
  then show ?thesis
    using assms(4) workers_ok_idle [of "wks s" "wp_shutting_down (pool (ctl s))" W]
    by (simp add: inv_workers_def)
next
  case step_destroy
  then have "\<not> wp_shutting_down (pool (ctl s))" using assms(3) by (simp add: inv_phase_def phase_ok_def)
  then show ?thesis
    using assms(4) step_destroy(1) workers_ok_broadcast
      [of "s\<lparr>ctl := (ctl s)\<lparr>pool := (pool (ctl s))\<lparr>wp_shutting_down := True\<rparr>\<rparr>, mpc := M_pool\<rparr>"
        "wp_jobs (pool (ctl s))" False]
    by (simp add: inv_workers_def)
qed (use assms(4) in \<open>simp_all add: inv_workers_def workers_ok_busy\<close>)

section \<open>Generations\<close>

abbreviation generation :: "strim_controller \<Rightarrow> nat \<Rightarrow> nat" where
  "generation c i \<equiv> unat (op_generation (stages c ! i))"

text \<open>An outstanding op is identified by its stage and the generation it was launched under.\<close>

definition op_key :: "strim_op_job \<Rightarrow> nat \<times> 64 word" where
  "op_key j = (cn_current_generation (oj_cancel j), cn_generation (oj_cancel j))"

definition job_ok :: "strim_controller \<Rightarrow> strim_op_job \<Rightarrow> bool" where
  "job_ok c j \<longleftrightarrow>
     (let i = cn_current_generation (oj_cancel j) in
      i < STRIM_STAGE_NAME_COUNT \<and> oj_stage j = int i \<and>
      unat (cn_generation (oj_cancel j)) \<le> generation c i)"

definition gen_ok :: "nat \<Rightarrow> strim_controller \<Rightarrow> strim_op_job multiset \<Rightarrow> bool" where
  "gen_ok n c M \<longleftrightarrow>
     (\<forall>i < STRIM_STAGE_NAME_COUNT. generation c i \<le> n) \<and> (\<forall>j \<in># M. job_ok c j) \<and>
     (\<forall>k. count (image_mset op_key M) k \<le> 1)"

lemma gen_ok_mono:
  assumes "gen_ok n c M" and "M' \<subseteq># M" and "n \<le> n'"
    and "\<And>i. i < STRIM_STAGE_NAME_COUNT \<Longrightarrow> generation c i \<le> generation c' i \<and> generation c' i \<le> n'"
  shows "gen_ok n' c' M'"
proof -
  have "count (image_mset op_key M') k \<le> 1" for k
    using assms(1) image_mset_subseteq_mono [OF assms(2), of op_key] mset_subset_eq_count [of "image_mset op_key M'" _ k]
    unfolding gen_ok_def by (meson le_trans)
  moreover have "job_ok c' j" if "j \<in># M'" for j
  proof -
    have "job_ok c j" using that assms(1,2) by (auto simp: gen_ok_def dest: mset_subset_eqD)
    then show ?thesis using assms(4) [of "cn_current_generation (oj_cancel j)"] by (simp add: job_ok_def Let_def)
  qed
  ultimately show ?thesis using assms(4) by (simp add: gen_ok_def)
qed

lemma unat_plus_one:
  fixes g :: "64 word"
  assumes "unat g \<le> n" and "n < 2 ^ 64 - 1"
  shows "unat (g + 1) = unat g + 1"
  using assms by (simp add: unat_word_ariths)

lemma gen_ok_fire:
  assumes "gen_ok n c M" and "n < 2 ^ 64 - 1" and "i < STRIM_STAGE_NAME_COUNT"
    and "length (stages c) = STRIM_STAGE_NAME_COUNT"
    and "op_key j = (i, op_generation (stages c ! i) + 1)" and "oj_stage j = int i"
    and "stages c' = (stages c)[i := s']" and "op_generation s' = op_generation (stages c ! i) + 1"
  shows "gen_ok (Suc n) c' (add_mset j M)"
proof -
  have g: "unat (op_generation (stages c ! i) + 1) = generation c i + 1"
    using unat_plus_one [of "op_generation (stages c ! i)" n] assms(1-3) by (simp add: gen_ok_def)
  have gens: "generation c' k = (if k = i then generation c i + 1 else generation c k)"
    if "k < STRIM_STAGE_NAME_COUNT" for k
    using that assms(3,4,7,8) g by (simp add: nth_list_update)
  have step: "gen_ok (Suc n) c' M"
    by (rule gen_ok_mono [OF assms(1)]) (use assms(1) gens in \<open>auto simp: gen_ok_def\<close>)
  have "op_key j \<notin># image_mset op_key M"
  proof
    assume "op_key j \<in># image_mset op_key M"
    then obtain j' where j': "j' \<in># M" "op_key j' = op_key j" by auto
    then have "job_ok c j'" using assms(1) by (simp add: gen_ok_def)
    then have "unat (op_generation (stages c ! i) + 1) \<le> generation c i"
      using j'(2) assms(5) by (simp add: job_ok_def op_key_def Let_def)
    then show False using g by simp
  qed
  then have "count (image_mset op_key M) (op_key j) = 0" unfolding count_eq_zero_iff .
  moreover have "count (image_mset op_key M) k \<le> 1" for k
    using step unfolding gen_ok_def by blast
  ultimately have "count (image_mset op_key (add_mset j M)) k \<le> 1" for k
    by (cases "k = op_key j") simp_all
  moreover have "job_ok c' j"
    using assms(3,5,6) gens [of i] g by (simp add: job_ok_def op_key_def)
  ultimately show ?thesis using step unfolding gen_ok_def by simp
qed

definition inv_gen :: "nat \<Rightarrow> system \<Rightarrow> bool" where
  "inv_gen n s \<longleftrightarrow> gen_ok n (ctl s) (outstanding s)"

lemma inv_gen_same:
  assumes "inv_gen n s" and "stages (ctl s') = stages (ctl s)" and "outstanding s' \<subseteq># outstanding s"
  shows "inv_gen (Suc n) s'"
  unfolding inv_gen_def
  by (rule gen_ok_mono [OF assms(1) [unfolded inv_gen_def] assms(3)])
    (use assms(1,2) in \<open>auto simp: inv_gen_def gen_ok_def intro: le_SucI\<close>)

lemma inv_gen_fire:
  assumes "inv_shape s" and "inv_gen n s" and "n < 2 ^ 64 - 1"
    and "qpc s = Q_fires act (i # is)" and "s1 = s\<lparr>ctl := reconcile_stage e i (ctl s), qpc := Q_fires act is\<rparr>"
    and "if length (wp_jobs (pool (reconcile_stage e i (ctl s)))) > length (wp_jobs (pool (ctl s)))
      then w_signal s1 s' else s' = s1"
  shows "inv_gen (Suc n) s'"
proof -
  note out = step_fire_outstanding [OF assms(1,4-6)]
  have i: "ctl_ok (ctl s)" "i < STRIM_STAGE_NAME_COUNT" "length (stages (ctl s)) = STRIM_STAGE_NAME_COUNT"
    using assms(1,4) by (simp_all add: inv_shape_def ctl_ok_def)
  have "ctl s' = reconcile_stage e i (ctl s)"
    using assms(5,6) w_signal_frame [of s1 s'] by (auto split: if_splits)
  then have st: "stages (ctl s') = (stages (ctl s))[i := reconciled_stage e i (ctl s)]"
    using reconcile_stage_jobs(3) [OF i(1,2)] by simp
  show ?thesis
  proof (cases "fires e i (ctl s)")
    case True
    then have gen: "op_generation (reconciled_stage e i (ctl s)) = op_generation (stages (ctl s) ! i) + 1"
      by (auto simp: fires_def reconciled_stage_def Let_def mark_fired_def)
    have "gen_ok (Suc n) (ctl s') (add_mset (fired_job e i (ctl s)) (outstanding s))"
      by (rule gen_ok_fire [OF assms(2) [unfolded inv_gen_def] assms(3) i(2,3) _ _ st gen])
        (simp_all add: op_key_def fired_job_def Let_def)
    then show ?thesis using out True by (simp add: inv_gen_def)
  next
    case False
    then have "op_generation (reconciled_stage e i (ctl s)) = op_generation (stages (ctl s) ! i)"
      by (auto simp: fires_def reconciled_stage_def Let_def)
    then have "generation (ctl s') k = generation (ctl s) k" for k
      unfolding st using i(2,3) by (cases "k = i") simp_all
    moreover have "generation (ctl s) k \<le> Suc n" if "k < STRIM_STAGE_NAME_COUNT" for k
      using assms(2) that by (simp add: inv_gen_def gen_ok_def le_SucI)
    moreover have "outstanding s' \<subseteq># outstanding s" using out False by simp
    ultimately show ?thesis
      unfolding inv_gen_def by (intro gen_ok_mono [OF assms(2) [unfolded inv_gen_def]]) simp_all
  qed
qed

lemma inv_gen_action:
  assumes "inv_shape s" and "inv_gen n s" and "n < 2 ^ 64 - 1"
    and "run_action penv fenv k (ctl s) = (rc, c', es)" and "k \<noteq> ACTION_RECONCILE"
    and "outstanding s' = outstanding s" and "ctl s' = c'"
  shows "inv_gen (Suc n) s'"
  unfolding inv_gen_def
proof (rule gen_ok_mono [OF assms(2) [unfolded inv_gen_def]])
  fix i :: nat
  assume i: "i < STRIM_STAGE_NAME_COUNT"
  have "generation (ctl s) i \<le> n" using assms(2) i by (simp add: inv_gen_def gen_ok_def)
  moreover from this have "unat (op_generation (stages (ctl s) ! i) + 1) = generation (ctl s) i + 1"
    using assms(3) by (rule unat_plus_one)
  moreover have "op_generation (stages c' ! i) \<in>
      {op_generation (stages (ctl s) ! i), op_generation (stages (ctl s) ! i) + 1}"
    using run_action_generation [OF _ assms(4,5) i] assms(1) by (simp add: inv_shape_def)
  ultimately show "generation (ctl s) i \<le> generation (ctl s') i \<and> generation (ctl s') i \<le> Suc n"
    using assms(7) by auto
qed (use assms(6) in simp_all)

lemma outstanding_shrinks:
  assumes "W < length (wks s)" and "wks s' = (wks s)[W := w]"
    and "wp_jobs (pool (ctl s')) = wp_jobs (pool (ctl s))" and "worker_jobs w \<subseteq># worker_jobs (wks s ! W)"
  shows "outstanding s' \<subseteq># outstanding s"
  using outstanding_update [OF assms(1-3)] assms(4)
  by (metis mset_subset_eq_mono_add_right_cancel subset_mset.add_left_mono)

lemma inv_gen_step:
  assumes "sys_step penv s s'" and "inv_shape s" and "inv_gen n s" and "n < 2 ^ 64 - 1"
  shows "inv_gen (Suc n) s'"
  using assms(1)
proof (cases rule: sys_step.cases)
  case (step_action act fenv rc c' es)
  then have "queue_view c' = queue_view (ctl s)" by (auto intro: run_action_queue)
  from queue_view_parts [OF this] step_action(1) have "outstanding s' = outstanding s"
    by (intro outstanding_cong) simp_all
  then show ?thesis by (rule inv_gen_action [OF assms(2-4) step_action(4,3)]) (simp add: step_action(1))
next
  case (step_pop act c')
  then obtain rest where "c' = (ctl s)\<lparr>queue := rest, reconcile_queued :=
      (if act_kind act = ACTION_RECONCILE then False else reconcile_queued (ctl s))\<rparr>"
    unfolding run_pop_iff by blast
  then show ?thesis
    using step_pop(1) outstanding_cong [of s' s] by (intro inv_gen_same [OF assms(3)]) simp_all
next
  case (step_fire act i "is" c' e s1)
  then show ?thesis by (intro inv_gen_fire [OF assms(2-4) step_fire(1)]) simp_all
next
  case (step_submit t k c' s1)
  then show ?thesis
    using q_signal_frame [OF step_submit(6)] outstanding_cong [of s' s]
    by (intro inv_gen_same [OF assms(3)]) (simp_all add: queue_submit_iff)
next
  case (step_teardown c' s1)
  then show ?thesis
    using q_signal_frame [OF step_teardown(4)] outstanding_cong [of s' s]
    by (intro inv_gen_same [OF assms(3)]) (simp_all add: queue_submit_iff strim_controller_teardown_def)
next
  case (step_request c' alloc)
  then have "ctl s' = c'" "wks s' = wks s"
    using q_signal_frame [of "s\<lparr>ctl := c'\<rparr>" s'] by (auto split: if_splits)
  then show ?thesis
    using step_request(2) outstanding_cong [of s' s] by (intro inv_gen_same [OF assms(3)]) simp_all
next
  case (step_clear W job c' s1)
  then have s': "ctl s' = c'" "wks s' = (wks s)[W := W_done job]"
    using q_signal_frame [of s1 s'] by (auto split: if_splits)
  then show ?thesis
    using step_clear(1-3)
    by (intro inv_gen_same [OF assms(3)] outstanding_shrinks [of W _ _ "W_done job"]) simp_all
next
  case (step_reply act r)
  then show ?thesis
    using outstanding_cong [of s' s] by (intro inv_gen_same [OF assms(3)]) (simp_all split: option.splits)
next
  case (step_take W job jobs)
  then have "outstanding s' = outstanding s" by (simp add: outstanding_def jobs_update)
  then show ?thesis using step_take by (intro inv_gen_same [OF assms(3)]) simp_all
next
  case step_destroy
  then have "outstanding s' = outstanding s" using w_broadcast_jobs by (simp add: outstanding_def)
  then show ?thesis using step_destroy by (intro inv_gen_same [OF assms(3)]) simp_all
next
  case (step_idle W)
  then show ?thesis
    by (intro inv_gen_same [OF assms(3)] outstanding_shrinks
        [of W _ _ "if wp_shutting_down (pool (ctl s)) then W_exit else W_wait"]) simp_all
next
  case (step_op W job err alloc)
  then show ?thesis
    by (intro inv_gen_same [OF assms(3)] outstanding_shrinks
        [of W _ _ "if op_needs_clear job err alloc (ctl s) then W_clear job else W_done job"]) simp_all
next
  case (step_done W job)
  then show ?thesis
    by (intro inv_gen_same [OF assms(3)] outstanding_shrinks [of W _ _ W_top]) simp_all
next
  case (step_spurious_w W)
  then show ?thesis
    by (intro inv_gen_same [OF assms(3)] outstanding_shrinks [of W _ _ W_top]) simp_all
qed (use outstanding_cong [of s' s] in \<open>(intro inv_gen_same [OF assms(3)]; simp)+\<close>)

end
