(* ===== verification/System_Props.thy ===== *)
theory System_Props
  imports System_Gen
begin

text \<open>
  What holds in every state the threads of the controller can reach, from the invariants of
  \<open>System_Frames\<close>, \<open>System_Inv\<close> and \<open>System_Gen\<close> by rule induction over \<open>reach\<close>.
\<close>

section \<open>The invariants are reached\<close>

definition sys_inv :: "system \<Rightarrow> bool" where
  "sys_inv s \<longleftrightarrow>
     inv_shape s \<and> inv_phase s \<and> inv_ops s \<and> inv_reply s \<and> inv_rq (ctl s) \<and> inv_workers s \<and>
     (mpc s = M_done \<longrightarrow> set (wks s) \<subseteq> {W_exit})"

lemma sys_inv_init:
  assumes "strim_controller_new e (Some cfg) True = (0, Some c)"
    and "length (cfg_initial_paths cfg) = STRIM_PATH_NAME_COUNT"
    and "length (cfg_stages cfg) = STRIM_STAGE_NAME_COUNT"
  shows "sys_inv (sys_init c)" "inv_gen 0 (sys_init c)"
proof -
  have n: "ctl_ok c" "queue c = []" "\<not> q_closed c" "\<not> reconcile_queued c" "\<not> shutting_down c"
      "ops_wg c = 0" "wp_jobs (pool c) = []" "\<not> wp_shutting_down (pool c)"
      "stages c = map init_stage (cfg_stages cfg)"
    using new_result_ok [OF assms] by simp_all
  have out: "outstanding (sys_init c) = {#}"
    using n(7) by (simp add: outstanding_def sys_init_def numeral_eq_Suc)
  show "sys_inv (sys_init c)"
    using n out unfolding sys_inv_def inv_shape_def inv_phase_def phase_ok_def inv_ops_def
      inv_reply_def inv_rq_def inv_workers_def workers_ok_def unanswered_def
    by (simp add: sys_init_def)
  have "op_generation (stages c ! i) = 0" if "i < STRIM_STAGE_NAME_COUNT" for i
    using n(9) assms(3) that by (simp add: init_stage_def)
  then show "inv_gen 0 (sys_init c)"
    using out by (simp add: inv_gen_def gen_ok_def) (simp add: sys_init_def)
qed

lemma exited_stays:
  assumes "sys_step penv s s'" and "inv_phase s" and "mpc s' = M_done"
    and "mpc s = M_done \<longrightarrow> set (wks s) \<subseteq> {W_exit}"
  shows "set (wks s') \<subseteq> {W_exit}"
proof (cases "mpc s = M_done")
  case True
  then have *: "wks s ! W = W_exit" if "W < length (wks s)" for W
    using assms(4) nth_mem [OF that] by auto
  have "qpc s = Q_exit" "q_closed (ctl s)" "subs s t = S_out" for t
    using assms(2) True by (simp_all add: inv_phase_def phase_ok_def)
  with assms(1) True * show ?thesis
    by (cases rule: sys_step.cases) (use assms(4) in auto)
next
  case False
  from assms(1) this assms(3) show ?thesis
    by (cases rule: sys_step.cases)
      (auto dest: q_signal_frame(3) w_signal_frame(4) split: if_splits option.splits)
qed

lemma reach_inv: "reach penv n s \<Longrightarrow> sys_inv s"
proof (induction rule: reach.induct)
  case (reach_init e cfg c)
  then show ?case by (rule sys_inv_init)
next
  case (reach_step n s s')
  then have inv: "inv_shape s" "inv_phase s" "inv_ops s" "inv_reply s" "inv_rq (ctl s)" "inv_workers s"
      "mpc s = M_done \<longrightarrow> set (wks s) \<subseteq> {W_exit}"
    by (simp_all add: sys_inv_def)
  note step = reach_step(2)
  show ?case
    unfolding sys_inv_def
    using inv_shape_step [OF step inv(1)] inv_phase_step [OF step inv(2)] inv_ops_step [OF step inv(1-3)]
      inv_reply_step [OF step inv(2,4)] inv_rq_step [OF step inv(5)]
      inv_workers_step [OF step inv(1,2,6)] exited_stays [OF step inv(2) _ inv(7)]
    by simp
qed

lemma reach_gen: "reach penv n s \<Longrightarrow> n < 2 ^ 64 \<Longrightarrow> inv_gen n s"
proof (induction rule: reach.induct)
  case (reach_init e cfg c)
  then show ?case by (intro sys_inv_init)
next
  case (reach_step n s s')
  have "inv_shape s" using reach_inv [OF reach_step(1)] by (simp add: sys_inv_def)
  then show ?case using reach_step by (intro inv_gen_step) simp_all
qed

lemma reach_invD:
  assumes "reach penv n s"
  shows "inv_shape s" "inv_phase s" "inv_ops s" "inv_reply s" "inv_rq (ctl s)" "inv_workers s"
    "mpc s = M_done \<Longrightarrow> set (wks s) \<subseteq> {W_exit}"
  using reach_inv [OF assms] by (simp_all add: sys_inv_def)

section \<open>Runs of the configured controller\<close>

lemma demo_ctl_static:
  "queue demo_ctl = []" "\<not> q_closed demo_ctl" "\<not> reconcile_queued demo_ctl" "\<not> shutting_down demo_ctl"
  "wp_jobs (pool demo_ctl) = []" "\<not> wp_shutting_down (pool demo_ctl)" "ops_wg demo_ctl = 0"
  by (simp_all add: demo_ctl_eq)

lemma demo_reach_0: "reach boot_prereqs 0 (sys_init demo_ctl)"
  by (rule reach_init [OF demo_new]) (simp_all add: boot_controller_config_def)

lemma sys_init_simps [simp]:
  "ctl (sys_init c) = c" "qpc (sys_init c) = Q_top" "subs (sys_init c) = (\<lambda>_. S_out)"
  "replies (sys_init c) = (\<lambda>_. None)" "mpc (sys_init c) = M_running"
  "wks (sys_init c) = replicate STRIM_CTRL_WORKERS W_top"
  by (simp_all add: sys_init_def)

text \<open>A client has asked for the status.\<close>

definition demo_asked :: system where
  "demo_asked = (sys_init demo_ctl)
     \<lparr>ctl := demo_ctl\<lparr>queue := [\<lparr>act_kind = ACTION_STATUS, act_owner = Some 1\<rparr>]\<rparr>,
      subs := (\<lambda>_. S_out)(1 := S_wait), replies := (\<lambda>_. None)(1 := None)\<rparr>"

lemma demo_reach_asked: "reach boot_prereqs 1 demo_asked"
proof -
  let ?c = "demo_ctl\<lparr>queue := [\<lparr>act_kind = ACTION_STATUS, act_owner = Some 1\<rparr>]\<rparr>"
  let ?s = "(sys_init demo_ctl)\<lparr>ctl := ?c, replies := (replies (sys_init demo_ctl))(1 := None)\<rparr>"
  have "q_signal ?s ?s" by (rule q_signal_none) simp_all
  then have "sys_step boot_prereqs (sys_init demo_ctl) (?s\<lparr>subs := (subs ?s)(1 := S_wait)\<rparr>)"
    by (intro sys_step.step_submit [where k = ACTION_STATUS])
      (simp_all add: queue_submit_iff demo_ctl_static client_action_def)
  from reach_step [OF demo_reach_0 this] show ?thesis by (simp add: demo_asked_def sys_init_def)
qed

text \<open>The ticker has asked for a reconcile, which has launched the first stage's op.\<close>

abbreviation demo_rec :: strim_action where
  "demo_rec \<equiv> \<lparr>act_kind = ACTION_RECONCILE, act_owner = None\<rparr>"

definition demo_ticked :: system where
  "demo_ticked = (sys_init demo_ctl)\<lparr>ctl := demo_ctl\<lparr>reconcile_queued := True, queue := [demo_rec]\<rparr>\<rparr>"

definition demo_firing :: system where
  "demo_firing = (sys_init demo_ctl)\<lparr>qpc := Q_fires demo_rec [0..<STRIM_STAGE_NAME_COUNT]\<rparr>"

definition demo_fired :: system where
  "demo_fired = (sys_init demo_ctl)
     \<lparr>ctl := reconcile_stage (demo_fire 1000 0) 0 demo_ctl, qpc := Q_fires demo_rec [1, 2, 3]\<rparr>"

lemma demo_reach_ticked: "reach boot_prereqs 1 demo_ticked"
proof -
  let ?c = "strim_controller_request_reconcile True (ctl (sys_init demo_ctl))"
  have c: "?c = demo_ctl\<lparr>reconcile_queued := True, queue := [demo_rec]\<rparr>"
    by (simp add: strim_controller_request_reconcile_def demo_ctl_static)
  then have "reconcile_queued ?c" by simp
  then have ne: "?c \<noteq> ctl (sys_init demo_ctl)" using demo_ctl_static(3) by auto
  have "q_signal demo_ticked demo_ticked" by (rule q_signal_none) (simp_all add: demo_ticked_def)
  then have "q_signal ((sys_init demo_ctl)\<lparr>ctl := ?c\<rparr>) demo_ticked" unfolding c demo_ticked_def .
  then have "sys_step boot_prereqs (sys_init demo_ctl) demo_ticked"
    using ne by (intro sys_step.step_request [OF _ refl, where alloc = True]) simp_all
  from reach_step [OF demo_reach_0 this] show ?thesis by simp
qed

lemma demo_ctl_reset: "demo_ctl\<lparr>queue := [], reconcile_queued := False\<rparr> = demo_ctl"
  by (simp add: demo_ctl_eq)

lemma demo_reach_firing: "reach boot_prereqs 3 demo_firing"
proof -
  let ?s2 = "(sys_init demo_ctl)\<lparr>qpc := Q_act demo_rec\<rparr>"
  have "run_pop (ctl demo_ticked) = Some (demo_rec, demo_ctl)"
    using demo_ctl_reset by (simp add: run_pop_def demo_ticked_def)
  then have "sys_step boot_prereqs demo_ticked (demo_ticked\<lparr>ctl := demo_ctl, qpc := Q_act demo_rec\<rparr>)"
    by (rule sys_step.step_pop [rotated]) (simp add: demo_ticked_def)
  moreover have "demo_ticked\<lparr>ctl := demo_ctl, qpc := Q_act demo_rec\<rparr> = ?s2"
    by (simp add: demo_ticked_def sys_init_def)
  ultimately have "reach boot_prereqs 2 ?s2"
    using reach_step [OF demo_reach_ticked] by (simp add: numeral_2_eq_2)
  moreover have "sys_step boot_prereqs ?s2 (?s2\<lparr>qpc := (if shutting_down (ctl ?s2) then Q_reply demo_rec 0
      else Q_fires demo_rec [0..<STRIM_STAGE_NAME_COUNT])\<rparr>)"
    by (rule sys_step.step_reconcile) simp_all
  ultimately have "reach boot_prereqs (Suc 2) (?s2\<lparr>qpc := (if shutting_down (ctl ?s2) then Q_reply demo_rec 0
      else Q_fires demo_rec [0..<STRIM_STAGE_NAME_COUNT])\<rparr>)"
    by (rule reach_step)
  then show ?thesis
    by (simp add: demo_ctl_static demo_firing_def numeral_3_eq_3 sys_init_def del: upt_rec_numeral)
qed

lemma demo_fire_step: "sys_step boot_prereqs demo_firing demo_fired"
proof -
  have q: "qpc demo_firing = Q_fires demo_rec (0 # [1, 2, 3])"
    by (simp add: demo_firing_def upt_4 del: upt_rec_numeral)
  have c: "ctl demo_firing = demo_ctl" by (simp add: demo_firing_def)
  have s: "demo_firing\<lparr>ctl := reconcile_stage (demo_fire 1000 0) 0 (ctl demo_firing),
      qpc := Q_fires demo_rec [1, 2, 3]\<rparr> = demo_fired"
    by (simp add: demo_firing_def demo_fired_def sys_init_def)
  have "w_signal demo_fired demo_fired"
    by (rule w_signal_none) (simp add: demo_fired_def)
  then show ?thesis
    by (intro sys_step.step_fire [OF q refl s [symmetric]])
      (simp_all add: c reconcile_stage_jobs(1) [OF demo_ctl_ok] demo_fires(1) demo_fire_def)
qed

lemma demo_reach_fired: "reach boot_prereqs 4 demo_fired"
  using reach_step [OF demo_reach_firing demo_fire_step] by simp

lemma demo_outstanding:
  "outstanding demo_firing = {#}" "outstanding demo_fired = {#fired_job (demo_fire 1000 0) 0 demo_ctl#}"
  by (simp_all add: outstanding_def demo_firing_def demo_fired_def numeral_eq_Suc demo_ctl_static
      reconcile_stage_jobs(1) [OF demo_ctl_ok] demo_fires(1) del: upt_rec_numeral)

text \<open>The controller is shut down before anything happened.\<close>

lemma exits_step:
  assumes "reach penv n s" and "W < length (wks s)" and "wks s ! W = W_top"
    and "wp_jobs (pool (ctl s)) = []" and "wp_shutting_down (pool (ctl s))"
  shows "reach penv (Suc n) (s\<lparr>wks := (wks s)[W := W_exit]\<rparr>)"
  using reach_step [OF assms(1) sys_step.step_idle [OF assms(2-4)]] assms(5) by simp

lemma demo_reach_done: "\<exists>s. reach boot_prereqs 11 s \<and> mpc s = M_done"
proof -
  let ?s0 = "sys_init demo_ctl"
  let ?c = "strim_controller_close demo_ctl"
  let ?p = "?c\<lparr>pool := (pool demo_ctl)\<lparr>wp_shutting_down := True\<rparr>\<rparr>"
  have "reach boot_prereqs 1 (?s0\<lparr>mpc := M_drained\<rparr>)"
    using reach_step [OF demo_reach_0 sys_step.step_join_clients] by simp
  from reach_step [OF this sys_step.step_abandon] have "reach boot_prereqs 2 (?s0\<lparr>mpc := M_torn\<rparr>)"
    by (simp add: numeral_2_eq_2)
  from reach_step [OF this sys_step.step_close] have "reach boot_prereqs 3 (?s0\<lparr>ctl := ?c, mpc := M_closed\<rparr>)"
    by (simp add: q_broadcast_def numeral_3_eq_3 sys_init_def)
  from reach_step [OF this sys_step.step_exit]
  have "reach boot_prereqs 4 (?s0\<lparr>ctl := ?c, mpc := M_closed, qpc := Q_exit\<rparr>)"
    by (simp add: demo_ctl_static)
  from reach_step [OF this sys_step.step_join_run]
  have "reach boot_prereqs 5 (?s0\<lparr>ctl := ?c, mpc := M_joined, qpc := Q_exit\<rparr>)"
    by (simp add: sys_init_def)
  from reach_step [OF this sys_step.step_destroy]
  have "reach boot_prereqs 6 (?s0\<lparr>ctl := ?p, mpc := M_pool, qpc := Q_exit\<rparr>)"
    by (simp add: w_broadcast_def sys_init_def)
  from exits_step [OF exits_step [OF exits_step [OF exits_step [OF this, of 0], of 1], of 2], of 3]
  have "reach boot_prereqs 10 (?s0\<lparr>ctl := ?p, mpc := M_pool, qpc := Q_exit, wks := [W_exit, W_exit, W_exit, W_exit]\<rparr>)"
    by (simp add: demo_ctl_static numeral_eq_Suc sys_init_def)
  from reach_step [OF this sys_step.step_join_pool]
  have "reach boot_prereqs 11 (?s0\<lparr>ctl := ?p, mpc := M_done, qpc := Q_exit, wks := [W_exit, W_exit, W_exit, W_exit]\<rparr>)"
    by (simp add: sys_init_def)
  then show ?thesis by (rule exI [where P = "\<lambda>s. reach boot_prereqs 11 s \<and> mpc s = M_done", OF conjI]) simp
qed

section \<open>Outstanding ops\<close>

text \<open>
  C18: In every state the threads can reach, the wait group counts the launched ops whose
  worker has not yet reported them done, queued or running, and while the shutdown sequence is
  past \<open>WaitForOps\<close> and before the end of its teardown there is none: no start op can race
  the teardown.
\<close>

theorem wait_group_counts_ops:
  assumes "reach penv n s"
  shows "ops_wg (ctl s) = size (outstanding s) \<and>
    (mpc s \<in> {M_waited, M_tearing} \<longrightarrow> outstanding s = {#})"
  using reach_invD(3) [OF assms] by (simp add: inv_ops_def)

theorem wait_group_counts_ops_witness:
  "reach boot_prereqs 4 demo_fired \<and> ops_wg (ctl demo_fired) = 1"
  using wait_group_counts_ops [OF demo_reach_fired] demo_reach_fired by (simp add: demo_outstanding)

lemma step_outstanding:
  assumes "sys_step penv s s'" and "inv_shape s"
  shows "outstanding s' \<subseteq># outstanding s \<or>
    (\<exists>act i is e. qpc s = Q_fires act (i # is) \<and> fires e i (ctl s) \<and>
      (now_ms (ctl s) = Default_now_ms \<longrightarrow> fe_now_plan e \<le> fe_now_fire e) \<and>
      outstanding s' = add_mset (fired_job e i (ctl s)) (outstanding s))"
  using assms(1)
proof (cases rule: sys_step.cases)
  case (step_action act fenv rc c' es)
  then have "queue_view c' = queue_view (ctl s)" by (auto intro: run_action_queue)
  from queue_view_parts [OF this] step_action(1) have "outstanding s' = outstanding s"
    by (intro outstanding_cong) simp_all
  then show ?thesis by simp
next
  case (step_pop act c')
  then obtain rest where "c' = (ctl s)\<lparr>queue := rest, reconcile_queued :=
      (if act_kind act = ACTION_RECONCILE then False else reconcile_queued (ctl s))\<rparr>"
    unfolding run_pop_iff by blast
  then show ?thesis using step_pop(1) outstanding_cong [of s' s] by simp
next
  case (step_fire act i "is" c' e s1)
  have "outstanding s' = outstanding s +
      (if fires e i (ctl s) then {#fired_job e i (ctl s)#} else {#})"
    by (rule step_fire_outstanding [OF assms(2) step_fire(1)]) (use step_fire in simp_all)
  then show ?thesis using step_fire(1,5) by (cases "fires e i (ctl s)") auto
next
  case (step_submit t k c' s1)
  then show ?thesis
    using q_signal_frame [OF step_submit(6)] outstanding_cong [of s' s] by (simp add: queue_submit_iff)
next
  case (step_teardown c' s1)
  then show ?thesis
    using q_signal_frame [OF step_teardown(4)] outstanding_cong [of s' s]
    by (simp add: queue_submit_iff strim_controller_teardown_def)
next
  case (step_request c' alloc)
  then have "ctl s' = c'" "wks s' = wks s"
    using q_signal_frame [of "s\<lparr>ctl := c'\<rparr>" s'] by (auto split: if_splits)
  then show ?thesis using step_request(2) outstanding_cong [of s' s] by simp
next
  case (step_clear W job c' s1)
  then have "ctl s' = c'" "wks s' = (wks s)[W := W_done job]"
    using q_signal_frame [of s1 s'] by (auto split: if_splits)
  then show ?thesis using outstanding_shrinks [of W s s' "W_done job"] step_clear(1-3) by simp
next
  case (step_reply act r)
  then show ?thesis using outstanding_cong [of s' s] by (simp split: option.splits)
next
  case (step_take W job jobs)
  then have "outstanding s' = outstanding s" by (simp add: outstanding_def jobs_update)
  then show ?thesis by simp
next
  case step_destroy
  then have "outstanding s' = outstanding s" using w_broadcast_jobs by (simp add: outstanding_def)
  then show ?thesis by simp
next
  case (step_idle W)
  then show ?thesis
    using outstanding_shrinks [of W s s' "if wp_shutting_down (pool (ctl s)) then W_exit else W_wait"] by simp
next
  case (step_op W job err alloc)
  then show ?thesis
    using outstanding_shrinks
      [of W s s' "if op_needs_clear job err alloc (ctl s) then W_clear job else W_done job"] by simp
next
  case (step_done W job)
  then show ?thesis using outstanding_shrinks [of W s s' W_top] by simp
next
  case (step_spurious_w W)
  then show ?thesis using outstanding_shrinks [of W s s' W_top] by simp
qed (use outstanding_cong [of s' s] in simp_all)

text \<open>
  C19: No step of any thread adds an outstanding op except the queue thread's reconcile of a
  stage whose intent differs from its status and, with the default clock, which has no op in
  flight or one launched at least the in-flight timeout before: the one op then added is the stage's
  op for the intent, with the stage's next generation and a deadline the timeout after its
  launch. Once shutdown has begun not even that step adds one, so from then on the outstanding
  ops only become fewer.
\<close>

theorem only_reconcile_launches:
  assumes "reach penv n s" and "sys_step penv s s'"
  shows "outstanding s' \<subseteq># outstanding s \<or>
    \<not> shutting_down (ctl s) \<and>
    (\<exists>act i is op now stage. qpc s = Q_fires act (i # is) \<and> stage = stages (ctl s) ! i \<and>
      desired (stg_status stage) \<noteq> actual (stg_status stage) \<and>
      (now_ms (ctl s) = Default_now_ms \<longrightarrow>
        in_flight_since stage = 0 \<or> now - in_flight_since stage \<ge> inflight_timeout_ms (ctl s)) \<and>
      stage_op_for stage (desired (stg_status stage)) = Some op \<and>
      outstanding s' = add_mset \<lparr>oj_stage = int i, oj_op = op, oj_op_ctx = op_ctx stage,
        oj_timeout_ms = inflight_timeout_ms (ctl s),
        oj_cancel = \<lparr>cn_generation = op_generation stage + 1,
          cn_deadline_ms = now + inflight_timeout_ms (ctl s), cn_current_generation = i,
          cn_now_ms = Some (now_ms (ctl s))\<rparr>\<rparr> (outstanding s))"
  using step_outstanding [OF assms(2) reach_invD(1) [OF assms(1)]]
proof (elim disjE exE conjE)
  fix act i "is" e
  assume q: "qpc s = Q_fires act (i # is)" and f: "fires e i (ctl s)"
    and clk: "now_ms (ctl s) = Default_now_ms \<longrightarrow> fe_now_plan e \<le> fe_now_fire e"
    and o: "outstanding s' = add_mset (fired_job e i (ctl s)) (outstanding s)"
  let ?stage = "stages (ctl s) ! i"
  obtain op where op: "stage_op_for ?stage (desired (stg_status ?stage)) = Some op"
    using f by (auto simp: fires_def Let_def)
  have "now_ms (ctl s) = Default_now_ms \<longrightarrow>
      in_flight_since ?stage = 0 \<or> fe_now_fire e - in_flight_since ?stage \<ge> inflight_timeout_ms (ctl s)"
    using f clk by (auto simp: fires_def reconcile_due_def Let_def)
  moreover have "\<not> shutting_down (ctl s)" "desired (stg_status ?stage) \<noteq> actual (stg_status ?stage)"
    using f by (simp_all add: fires_def Let_def)
  ultimately show ?thesis
    using o [unfolded fired_job_def Let_def op option.sel]
    by (intro disjI2 conjI exI [of _ act] exI [of _ i] exI [of _ "is"] exI [of _ op] exI [of _ "fe_now_fire e"]
        exI [of _ ?stage] q op refl)
qed simp

theorem only_reconcile_launches_witness:
  "sys_step boot_prereqs demo_firing demo_fired \<and> \<not> shutting_down (ctl demo_firing) \<and>
   \<not> outstanding demo_fired \<subseteq># outstanding demo_firing"
  using only_reconcile_launches [OF demo_reach_firing demo_fire_step] demo_fire_step
  by (simp add: demo_outstanding)

text \<open>
  C20: As long as fewer than \<open>2\<^sup>6\<^sup>4\<close> steps have been made, a stage has at most one op that is
  outstanding and not superseded.
\<close>

theorem one_live_op_per_stage:
  assumes "reach penv n s" and "n < 2 ^ 64"
  shows "size {#j \<in># outstanding s. oj_stage j = int i \<and>
      \<not> strim_stage_op_superseded (ctl s) (Some (oj_cancel j))#} \<le> 1"
proof -
  let ?live = "{#j \<in># outstanding s. oj_stage j = int i \<and>
      \<not> strim_stage_op_superseded (ctl s) (Some (oj_cancel j))#}"
  have gen: "gen_ok n (ctl s) (outstanding s)" using reach_gen [OF assms] by (simp add: inv_gen_def)
  have "op_key j = (i, op_generation (stages (ctl s) ! i))" if "j \<in># ?live" for j
  proof -
    have "job_ok (ctl s) j" using gen that by (auto simp: gen_ok_def)
    with that show ?thesis
      by (auto simp: job_ok_def op_key_def strim_stage_op_superseded_def Let_def)
  qed
  then have "image_mset op_key ?live = image_mset (\<lambda>_. (i, op_generation (stages (ctl s) ! i))) ?live"
    by (rule image_mset_cong)
  then have "size ?live = count (image_mset op_key ?live) (i, op_generation (stages (ctl s) ! i))"
    by (simp add: image_mset_const_eq)
  also have "\<dots> \<le> count (image_mset op_key (outstanding s)) (i, op_generation (stages (ctl s) ! i))"
    by (intro mset_subset_eq_count image_mset_subseteq_mono multiset_filter_subset)
  also have "\<dots> \<le> 1" using gen unfolding gen_ok_def by blast
  finally show ?thesis .
qed

theorem one_live_op_per_stage_witness:
  "reach boot_prereqs 4 demo_fired \<and> size (outstanding demo_fired) = 1 \<and>
   size {#j \<in># outstanding demo_fired. oj_stage j = int 0 \<and>
      \<not> strim_stage_op_superseded (ctl demo_fired) (Some (oj_cancel j))#} \<le> 1"
  using one_live_op_per_stage [OF demo_reach_fired, of 0] demo_reach_fired
  by (simp add: demo_outstanding)

section \<open>The action queue\<close>

text \<open>
  C22: Reconcile requests coalesce: at most one is ever queued, and \<open>reconcile_queued\<close> says
  whether one is. However often the ticker and the handlers ask, the queue does not fill up.
\<close>

theorem reconcile_requests_coalesce:
  assumes "reach penv n s"
  shows "reconciles (queue (ctl s)) = (if reconcile_queued (ctl s) then 1 else 0)"
  using reach_invD(5) [OF assms] by (simp add: inv_rq_def)

theorem reconcile_requests_coalesce_witness:
  "reach boot_prereqs 1 demo_ticked \<and> reconciles (queue (ctl demo_ticked)) = 1"
  using reconcile_requests_coalesce [OF demo_reach_ticked] demo_reach_ticked by (simp add: demo_ticked_def)

text \<open>How many steps of the queue thread an unanswered submitter has to wait at most.\<close>

definition pc_rank :: "queue_pc \<Rightarrow> nat" where
  "pc_rank q = (case q of Q_act _ \<Rightarrow> 7 | Q_fires _ is \<Rightarrow> 2 + length is | Q_reply _ _ \<Rightarrow> 1 | _ \<Rightarrow> 8)"

definition ahead :: "nat \<Rightarrow> strim_action list \<Rightarrow> nat" where
  "ahead t acts = length (takeWhile (\<lambda>a. act_owner a \<noteq> Some t) acts)"

definition wait_rank :: "nat \<Rightarrow> system \<Rightarrow> nat" where
  "wait_rank t s = 8 * ahead t (current_actions (qpc s) @ queue (ctl s)) + pc_rank (qpc s)"

lemma pc_rank_simps [simp]:
  "pc_rank Q_top = 8" "pc_rank Q_wait = 8" "pc_rank Q_exit = 8" "pc_rank (Q_act a) = 7"
  "pc_rank (Q_fires a is) = 2 + length is" "pc_rank (Q_reply a r) = 1"
  by (simp_all add: pc_rank_def)

lemma ahead_simps [simp]:
  "ahead t (a # as) = (if act_owner a = Some t then 0 else Suc (ahead t as))"
  by (simp add: ahead_def)

lemma ahead_append: "0 < owned t acts \<Longrightarrow> ahead t (acts @ bs) = ahead t acts"
  by (induction acts) (auto simp: ahead_def split: if_splits)

lemma unanswered_owned:
  "inv_reply s \<Longrightarrow> unanswered s t \<Longrightarrow> 0 < owned t (current_actions (qpc s) @ queue (ctl s))"
  using inv_replyD(1) [of s t] by simp

lemma unanswered_awake:
  assumes "inv_reply s" and "inv_phase s" and "unanswered s t"
  shows "qpc s \<noteq> Q_wait" and "qpc s \<noteq> Q_exit"
proof -
  have o: "0 < owned t (current_actions (qpc s) @ queue (ctl s))"
    by (rule unanswered_owned [OF assms(1,3)])
  show "qpc s \<noteq> Q_wait"
  proof
    assume "qpc s = Q_wait"
    with inv_replyD(3) [OF assms(1)] o show False by simp
  qed
  show "qpc s \<noteq> Q_exit"
  proof
    assume q: "qpc s = Q_exit"
    then have "queue (ctl s) = []" using assms(2) unfolding inv_phase_def phase_ok_def by blast
    with q o show False by simp
  qed
qed

text \<open>An action appended behind that of \<open>t\<close>.\<close>

lemma wait_rank_append:
  assumes "inv_reply s" and "unanswered s t"
    and "q_signal s1 s'" and "qpc s1 = qpc s" and "qpc s \<noteq> Q_wait"
    and "queue (ctl s1) = queue (ctl s) @ acts"
  shows "wait_rank t s' = wait_rank t s \<and> qpc s' = qpc s"
proof -
  have "qpc s' = qpc s" using assms(3-5) by (cases rule: q_signal.cases) simp_all
  moreover have "ctl s' = ctl s1" using q_signal_frame [OF assms(3)] by simp
  ultimately show ?thesis
    using ahead_append [OF unanswered_owned [OF assms(1,2)], of acts] assms(6)
    by (simp add: wait_rank_def)
qed

lemma wait_rank_cong:
  "qpc s' = qpc s \<Longrightarrow> queue (ctl s') = queue (ctl s) \<Longrightarrow> wait_rank t s' = wait_rank t s"
  by (simp add: wait_rank_def)

text \<open>One step, seen by the unanswered thread \<open>t\<close>.\<close>

definition advances :: "nat \<Rightarrow> system \<Rightarrow> system \<Rightarrow> bool" where
  "advances t s s' \<longleftrightarrow>
     (if unanswered s' t
      then wait_rank t s' < wait_rank t s \<or> wait_rank t s' = wait_rank t s \<and> qpc s' = qpc s
      else replies s' t \<noteq> None \<and> (\<exists>act. current_actions (qpc s) = [act] \<and> act_owner act = Some t))"

lemma advances_queue:
  assumes "unanswered s' t" and "wait_rank t s' < wait_rank t s"
  shows "advances t s s'"
  using assms by (simp add: advances_def)

lemma advances_other:
  assumes "unanswered s' t" and "queue (ctl s') = queue (ctl s)" and "qpc s' = qpc s"
  shows "advances t s s'"
  using assms wait_rank_cong [of s' s t] by (simp add: advances_def)

lemma advances_subs [simp]:
  "u \<noteq> t \<Longrightarrow> advances t s (s1\<lparr>subs := (subs s1)(u := v)\<rparr>) = advances t s s1"
  "u \<noteq> t \<Longrightarrow> advances t s (s1\<lparr>subs := (subs s1)(u := v), mpc := m\<rparr>) = advances t s s1"
  by (simp_all add: advances_def unanswered_def wait_rank_def)

lemma unanswered_signal:
  assumes "q_signal s1 s'" and "subs s1 t \<noteq> S_out" and "replies s1 t = None"
  shows "unanswered s' t"
  using assms(2,3) q_signal_out(2) [OF assms(1), of t] q_signal_frame(4) [OF assms(1)]
  by (simp add: unanswered_def)

lemma advances_append:
  assumes "inv_reply s" and "inv_phase s" and "unanswered s t"
    and "q_signal s1 s'" and "qpc s1 = qpc s" and "queue (ctl s1) = queue (ctl s) @ acts"
    and "subs s1 t \<noteq> S_out" and "replies s1 t = None"
  shows "advances t s s'"
  using wait_rank_append [OF assms(1,3-5) _ assms(6)] unanswered_awake(1) [OF assms(1-3)]
    unanswered_signal [OF assms(4,7,8)]
  by (simp add: advances_def)

lemma advances_reply:
  assumes "unanswered s t" and "inv_reply s" and "qpc s = Q_reply act r"
    and "s' = (case act_owner act of
            None \<Rightarrow> s\<lparr>qpc := Q_top\<rparr>
          | Some t \<Rightarrow> q_broadcast (s\<lparr>qpc := Q_top, replies := (replies s)(t := Some r)\<rparr>))"
  shows "advances t s s'"
proof (cases "act_owner act = Some t")
  case True
  then have "replies s' t = Some r" using assms(4) by simp
  then show ?thesis using assms(3) True by (simp add: advances_def unanswered_def)
next
  case False
  then have "ctl s' = ctl s" "qpc s' = Q_top" "replies s' t = replies s t" "(subs s' t = S_out) = (subs s t = S_out)"
    using assms(4) by (auto simp: q_broadcast_def split: option.split)
  then show ?thesis
    using False assms(1,3) by (intro advances_queue) (simp_all add: unanswered_def wait_rank_def)
qed

lemma step_advances:
  assumes "sys_step penv s s'" and "inv_phase s" and "inv_reply s" and "unanswered s t"
  shows "advances t s s'"
  using assms(1)
proof (cases rule: sys_step.cases)
  case (step_pop act c')
  then obtain rest where "queue (ctl s) = act # rest" "queue c' = rest" unfolding run_pop_iff by auto
  then show ?thesis
    using step_pop(1,2) assms(4) by (intro advances_queue) (simp_all add: unanswered_def wait_rank_def)
next
  case step_sleep
  then show ?thesis using unanswered_owned [OF assms(3,4)] by simp
next
  case step_exit
  then show ?thesis using unanswered_owned [OF assms(3,4)] by simp
next
  case (step_action act fenv rc c' es)
  then have "queue_view c' = queue_view (ctl s)" by (auto intro: run_action_queue)
  from queue_view_parts(1) [OF this] show ?thesis
    using step_action(1,2) assms(4) by (intro advances_queue) (simp_all add: unanswered_def wait_rank_def)
next
  case (step_reconcile act)
  then show ?thesis
    using assms(4) by (intro advances_queue) (simp_all add: unanswered_def wait_rank_def)
next
  case (step_fire act i "is" c' e s1)
  then have "ctl s' = reconcile_stage e i (ctl s)" "qpc s' = Q_fires act is" "subs s' = subs s"
    "replies s' = replies s"
    using w_signal_frame [of s1 s'] by (auto split: if_splits)
  then show ?thesis
    using step_fire(1) assms(4) by (intro advances_queue) (simp_all add: unanswered_def wait_rank_def)
next
  case (step_fired act)
  then show ?thesis
    using assms(4) by (intro advances_queue) (simp_all add: unanswered_def wait_rank_def)
next
  case (step_reply act r)
  then show ?thesis using advances_reply [OF assms(4,3)] by blast
next
  case (step_submit u k c' s1)
  have "u \<noteq> t" using step_submit(4) assms(4) by (auto simp: unanswered_def)
  moreover have "advances t s s1"
    by (rule advances_append [OF assms(3,2,4) step_submit(6)])
      (use step_submit(5) \<open>u \<noteq> t\<close> assms(4) in \<open>simp_all add: queue_submit_iff unanswered_def\<close>)
  ultimately show ?thesis using step_submit(1) by simp
next
  case (step_teardown c' s1)
  have "main_tid \<noteq> t"
    using step_teardown(2) assms(2,4) by (auto simp: unanswered_def inv_phase_def phase_ok_def)
  moreover have "advances t s s1"
    by (rule advances_append [OF assms(3,2,4) step_teardown(4)])
      (use step_teardown(3) \<open>main_tid \<noteq> t\<close> assms(4) in
        \<open>simp_all add: strim_controller_teardown_def queue_submit_iff unanswered_def\<close>)
  ultimately show ?thesis using step_teardown(1) by simp
next
  case (step_return u)
  then show ?thesis
    using assms(4) by (intro advances_other) (auto simp: unanswered_def)
next
  case (step_request c' alloc)
  show ?thesis
  proof (cases "c' = ctl s")
    case True
    then show ?thesis using step_request(3) assms(4) by (intro advances_other) simp_all
  next
    case False
    then have sig: "q_signal (s\<lparr>ctl := c'\<rparr>) s'" using step_request(3) by simp
    have "queue c' = queue (ctl s) @ [\<lparr>act_kind = ACTION_RECONCILE, act_owner = None\<rparr>]"
      using False step_request(2) by (simp add: strim_controller_request_reconcile_def split: if_splits)
    then show ?thesis
      using assms(4) by (intro advances_append [OF assms(3,2,4) sig]) (simp_all add: unanswered_def)
  qed
next
  case (step_clear W job c' s1)
  show ?thesis
  proof (cases "q_closed (ctl s)")
    case True
    then show ?thesis
      using step_clear assms(4) by (intro advances_other) (simp_all add: unanswered_def enqueue_clear_def)
  next
    case False
    then have sig: "q_signal s1 s'" using step_clear by simp
    show ?thesis
      using False step_clear(3,4) assms(4)
      by (intro advances_append [OF assms(3,2,4) sig]) (simp_all add: unanswered_def enqueue_clear_def)
  qed
next
  case step_spurious_q
  then show ?thesis using unanswered_awake(1) [OF assms(3,2,4)] by simp
next
  case step_close
  then have "subs s t = S_out" using assms(2) by (simp add: inv_phase_def phase_ok_def)
  then show ?thesis using assms(4) by (simp add: unanswered_def)
qed (use assms(4) in \<open>(intro advances_other; simp add: unanswered_def)+\<close>)

text \<open>The queue thread can always move while somebody waits for an answer.\<close>

lemma w_signal_exists: "\<exists>s'. w_signal s s'"
proof (cases "W_wait \<in> set (wks s)")
  case True
  then obtain w where "w < length (wks s)" "wks s ! w = W_wait" by (auto simp: in_set_conv_nth)
  then show ?thesis using w_signal_one by blast
qed (use w_signal_none in blast)

lemma moves: "sys_step penv s s' \<Longrightarrow> qpc s' \<noteq> qpc s \<Longrightarrow> \<exists>s'. sys_step penv s s' \<and> qpc s' \<noteq> qpc s"
  by blast

lemma queue_enabled:
  assumes "inv_phase s" and "inv_reply s" and "unanswered s t"
  shows "\<exists>s'. sys_step penv s s' \<and> qpc s' \<noteq> qpc s"
proof (cases "qpc s")
  case Q_top
  then have "0 < owned t (queue (ctl s))" using unanswered_owned [OF assms(2,3)] by simp
  then obtain act rest where "queue (ctl s) = act # rest" by (cases "queue (ctl s)") auto
  then obtain c' where pop: "run_pop (ctl s) = Some (act, c')" unfolding run_pop_iff by auto
  show ?thesis by (rule moves [OF sys_step.step_pop [OF Q_top pop]]) (simp add: Q_top)
next
  case Q_wait
  then show ?thesis using unanswered_awake(1) [OF assms(2,1,3)] by simp
next
  case (Q_act act)
  show ?thesis
  proof (cases "act_kind act = ACTION_RECONCILE")
    case True
    show ?thesis by (rule moves [OF sys_step.step_reconcile [OF Q_act True]]) (simp add: Q_act)
  next
    case False
    obtain rc c' es where r: "run_action penv (\<lambda>_. undefined) (act_kind act) (ctl s) = (rc, c', es)"
      by (metis prod_cases3)
    show ?thesis by (rule moves [OF sys_step.step_action [OF Q_act False r]]) (simp add: Q_act)
  qed
next
  case (Q_fires act "is")
  show ?thesis
  proof (cases "is")
    case Nil
    show ?thesis by (rule moves [OF sys_step.step_fired [OF Q_fires [unfolded Nil]]]) (simp add: Q_fires)
  next
    case (Cons i js)
    let ?e = "\<lparr>fe_now_plan = 0, fe_now_fire = 0, fe_job_alloc = True, fe_node_alloc = True\<rparr>"
    let ?c = "reconcile_stage ?e i (ctl s)"
    let ?s1 = "s\<lparr>ctl := ?c, qpc := Q_fires act js\<rparr>"
    obtain s' where s': "if length (wp_jobs (pool ?c)) > length (wp_jobs (pool (ctl s)))
        then w_signal ?s1 s' else s' = ?s1"
      using w_signal_exists [of ?s1] by metis
    then have "qpc s' = Q_fires act js" using w_signal_frame [of ?s1 s'] by (auto split: if_splits)
    moreover have "sys_step penv s s'"
      by (rule sys_step.step_fire [OF Q_fires [unfolded Cons] refl refl s']) simp
    ultimately show ?thesis using Q_fires Cons by auto
  qed
next
  case (Q_reply act r)
  show ?thesis
    by (rule moves [OF sys_step.step_reply [OF Q_reply refl]])
      (simp add: Q_reply q_broadcast_def split: option.split)
next
  case Q_exit
  then show ?thesis using unanswered_awake(2) [OF assms(2,1,3)] by simp
qed

text \<open>
  C21: Every submitter is answered, by its own action and in queue order. While a thread's
  request is unanswered exactly one action of its own is running or queued, the queue thread is
  neither asleep nor gone and can make a step; every such step brings the thread nearer to
  its answer, which comes from that action, and no step of another thread, however many
  requests they add, takes it further away.
\<close>

theorem submitters_are_answered:
  assumes "reach penv n s" and "unanswered s t"
  shows "owned t (current_actions (qpc s) @ queue (ctl s)) = 1 \<and> qpc s \<noteq> Q_wait \<and> qpc s \<noteq> Q_exit \<and>
    (\<exists>s'. sys_step penv s s' \<and> qpc s' \<noteq> qpc s) \<and>
    (\<forall>s'. sys_step penv s s' \<longrightarrow> advances t s s')"
  using inv_replyD(1) [OF reach_invD(4) [OF assms(1)], of t] assms(2)
    unanswered_awake [OF reach_invD(4,2) [OF assms(1)] assms(2)]
    queue_enabled [OF reach_invD(2,4) [OF assms(1)] assms(2)]
    step_advances [OF _ reach_invD(2,4) [OF assms(1)] assms(2)]
  by simp

theorem submitters_are_answered_witness:
  "reach boot_prereqs 1 demo_asked \<and> unanswered demo_asked 1 \<and>
   (\<exists>s'. sys_step boot_prereqs demo_asked s' \<and> qpc s' \<noteq> qpc demo_asked \<and> advances 1 demo_asked s')"
proof -
  have "unanswered demo_asked 1" by (simp add: unanswered_def demo_asked_def)
  then show ?thesis
    using submitters_are_answered [OF demo_reach_asked] demo_reach_asked by blast
qed

section \<open>Workers and the end\<close>

text \<open>
  C23: No wake-up of a worker is lost: while a worker sleeps there are at least as many workers on
  their way to the job list as there are jobs in it. A worker returns only after the
  pool was shut down and the job list is empty.
\<close>

theorem no_idle_worker_beside_jobs:
  assumes "reach penv n s"
  shows "(W_wait \<in> set (wks s) \<longrightarrow> length (wp_jobs (pool (ctl s))) \<le> tops (wks s)) \<and>
    (W_exit \<in> set (wks s) \<longrightarrow> wp_shutting_down (pool (ctl s)) \<and> wp_jobs (pool (ctl s)) = []) \<and>
    length (wks s) = STRIM_CTRL_WORKERS"
  using reach_invD(6,1) [OF assms] by (simp add: inv_workers_def workers_ok_def inv_shape_def)

theorem no_idle_worker_beside_jobs_witness:
  "(\<exists>s. reach boot_prereqs 1 s \<and> W_wait \<in> set (wks s) \<and> length (wp_jobs (pool (ctl s))) \<le> tops (wks s)) \<and>
   (\<exists>s. reach boot_prereqs 11 s \<and> W_exit \<in> set (wks s) \<and> wp_shutting_down (pool (ctl s)))"
proof -
  let ?s = "(sys_init demo_ctl)\<lparr>wks := (wks (sys_init demo_ctl))[0 := W_wait]\<rparr>"
  have "sys_step boot_prereqs (sys_init demo_ctl)
      ((sys_init demo_ctl)\<lparr>wks := (wks (sys_init demo_ctl))[0 := (if wp_shutting_down (pool (ctl (sys_init demo_ctl))) then W_exit else W_wait)]\<rparr>)"
    by (rule sys_step.step_idle) (simp_all add: demo_ctl_static)
  from reach_step [OF demo_reach_0 this] have asleep: "reach boot_prereqs 1 ?s" by (simp add: demo_ctl_static)
  moreover have "W_wait \<in> set (wks ?s)" by (simp add: numeral_eq_Suc)
  moreover obtain s where s: "reach boot_prereqs 11 s" "mpc s = M_done" using demo_reach_done by blast
  moreover have "wks s \<noteq> []" using reach_invD(1) [OF s(1)] by (auto simp: inv_shape_def)
  then have "W_exit \<in> set (wks s)" using reach_invD(7) [OF s] by (cases "wks s") auto
  ultimately show ?thesis
    using no_idle_worker_beside_jobs [OF asleep] no_idle_worker_beside_jobs [OF s(1)] by blast
qed

text \<open>
  C24: When the shutdown sequence has ended nothing refers to the controller any more: the queue
  thread and all workers have returned, no thread is inside a call, no action or job is left and
  every launched op was accounted for. So freeing it is safe.
\<close>

theorem shutdown_leaves_nothing:
  assumes "reach penv n s" and "mpc s = M_done"
  shows "qpc s = Q_exit \<and> set (wks s) = {W_exit} \<and> (\<forall>t. subs s t = S_out) \<and> queue (ctl s) = [] \<and>
    outstanding s = {#} \<and> ops_wg (ctl s) = 0"
proof -
  have ph: "qpc s = Q_exit" "\<forall>t. subs s t = S_out" "queue (ctl s) = []"
    using reach_invD(2) [OF assms(1)] assms(2) by (simp_all add: inv_phase_def phase_ok_def)
  have "length (wks s) = STRIM_CTRL_WORKERS" using reach_invD(1) [OF assms(1)] by (simp add: inv_shape_def)
  then have ne: "wks s \<noteq> []" by auto
  then have w: "set (wks s) = {W_exit}" using reach_invD(7) [OF assms] by (cases "wks s") auto
  then have "wp_jobs (pool (ctl s)) = []"
    using reach_invD(6) [OF assms(1)] by (simp add: inv_workers_def workers_ok_def)
  moreover have "sum_list (map worker_jobs ws) = {#}" if "set ws \<subseteq> {W_exit}" for ws
    using that by (induction ws) auto
  ultimately have "outstanding s = {#}" using w by (simp add: outstanding_def)
  then show ?thesis using ph w reach_invD(3) [OF assms(1)] by (simp add: inv_ops_def)
qed

theorem shutdown_leaves_nothing_witness:
  "\<exists>s. reach boot_prereqs 11 s \<and> mpc s = M_done \<and> set (wks s) = {W_exit} \<and> outstanding s = {#}"
proof -
  obtain s where s: "reach boot_prereqs 11 s" "mpc s = M_done" using demo_reach_done by blast
  with shutdown_leaves_nothing [OF s] show ?thesis by blast
qed

end
