(* ===== verification/Oci_Spec.thy ===== *)
theory Oci_Spec
  imports Wire
begin

text \<open>
  \<open>core/spec.c\<close> and \<open>spec.h\<close>: the host layout, the bind-mount lists of the two kinds of
  container and the launch arguments of an ffmpeg stage. Strings written into fixed
  buffers are cut as \<open>snprintf\<close> cuts them.
\<close>

definition STRIM_SPEC_PATH_MAX :: nat where "STRIM_SPEC_PATH_MAX = 4096"
definition STRIM_SPEC_MAX_MOUNTS :: nat where "STRIM_SPEC_MAX_MOUNTS = 256"

abbreviation (input) STRIM_SPEC_ERR_BADARG :: int where "STRIM_SPEC_ERR_BADARG \<equiv> -1"
abbreviation (input) STRIM_SPEC_ERR_TOOSMALL :: int where "STRIM_SPEC_ERR_TOOSMALL \<equiv> -2"

definition STRIM_CTR_ENV :: string where "STRIM_CTR_ENV = ''/strimserver.env''"
definition STRIM_CTR_TRANSCODE :: string where "STRIM_CTR_TRANSCODE = ''/transcode.sh''"
definition STRIM_CTR_NOTIFY :: string where "STRIM_CTR_NOTIFY = ''/notify''"
definition STRIM_CTR_MEDIAMTX_TMPL :: string where "STRIM_CTR_MEDIAMTX_TMPL = ''/mediamtx.yaml.template''"
definition STRIM_CTR_SRT_SECRET :: string where "STRIM_CTR_SRT_SECRET = ''/run/secrets/srt-passphrase''"
definition STRIM_CTR_VIDEO_DIR :: string where "STRIM_CTR_VIDEO_DIR = ''/video-files''"
definition STRIM_CTR_RESOLV_CONF :: string where "STRIM_CTR_RESOLV_CONF = ''/etc/resolv.conf''"
definition STRIM_CTR_TMP :: string where "STRIM_CTR_TMP = ''/tmp''"

lemmas ctr_paths = STRIM_CTR_ENV_def STRIM_CTR_TRANSCODE_def STRIM_CTR_NOTIFY_def
  STRIM_CTR_MEDIAMTX_TMPL_def STRIM_CTR_SRT_SECRET_def STRIM_CTR_VIDEO_DIR_def
  STRIM_CTR_RESOLV_CONF_def STRIM_CTR_TMP_def

definition strim_default_unix_env :: "string list" where
  "strim_default_unix_env = [''PATH=/usr/local/sbin:/usr/local/bin:/usr/sbin:/usr/bin:/sbin:/bin'']"

definition strim_spec_added_capabilities :: "string list" where
  "strim_spec_added_capabilities = [''CAP_SYS_NICE'']"

section \<open>Layout\<close>

record strim_layout =
  ly_env :: c_str
  ly_transcode :: c_str
  ly_notify :: c_str
  ly_mediamtx_tmpl :: c_str
  ly_srt_pass :: c_str
  ly_video_dir :: c_str
  ly_resolv_conf :: c_str
  ly_tmp :: c_str

text \<open>What \<open>snprintf\<close> leaves in a buffer of \<open>cap\<close> bytes.\<close>

definition snprintf_str :: "nat \<Rightarrow> string \<Rightarrow> string" where
  "snprintf_str cap s = take (cap - 1) s"

definition join_path :: "nat \<Rightarrow> string \<Rightarrow> string \<Rightarrow> string" where
  "join_path cap base suffix =
     (if base = ''/'' then snprintf_str cap suffix else snprintf_str cap (base @ ''/'' @ suffix))"

text \<open>The loop that removes trailing slashes but keeps the first character.\<close>

function strip_slashes :: "string \<Rightarrow> string" where
  "strip_slashes root =
     (if length root > 1 \<and> last root = CHR ''/'' then strip_slashes (butlast root) else root)"
  by pat_completeness auto
termination by (relation "measure length") auto

declare strip_slashes.simps [simp del]

definition layout_root :: "c_str \<Rightarrow> string" where
  "layout_root host_root =
     (let r = (case host_root of None \<Rightarrow> ''/mnt/nvme'' | Some [] \<Rightarrow> ''/mnt/nvme'' | Some s \<Rightarrow> s)
      in strip_slashes (snprintf_str STRIM_SPEC_PATH_MAX r))"

definition strim_default_layout :: "c_str \<Rightarrow> strim_layout" where
  "strim_default_layout host_root =
     (let root = layout_root host_root; j = join_path STRIM_SPEC_PATH_MAX root in
      \<lparr>ly_env = Some (j ''config/strimserver.env''), ly_transcode = Some (j ''bin/transcode.sh''),
       ly_notify = Some (j ''bin/notify''), ly_mediamtx_tmpl = Some (j ''config/mediamtx.yaml.template''),
       ly_srt_pass = Some (j ''srt-passphrase''), ly_video_dir = Some (j ''video-files''),
       ly_resolv_conf = Some ''/run/systemd/resolve/resolv.conf'', ly_tmp = Some ''/tmp''\<rparr>)"

section \<open>Mounts\<close>

record strim_mount =
  mt_source :: c_str
  mt_destination :: string
  mt_read_write :: bool

abbreviation (input) mount :: "c_str \<Rightarrow> string \<Rightarrow> bool \<Rightarrow> strim_mount" where
  "mount src dst rw \<equiv> \<lparr>mt_source = src, mt_destination = dst, mt_read_write = rw\<rparr>"

text \<open>The returned count or error, and the entries written.\<close>

definition strim_ffmpeg_mounts :: "strim_layout option \<Rightarrow> bool \<Rightarrow> nat \<Rightarrow> int \<times> strim_mount list" where
  "strim_ffmpeg_mounts layout mounts_ok cap =
     (case layout of
        None \<Rightarrow> (STRIM_SPEC_ERR_BADARG, [])
      | Some l \<Rightarrow>
          if \<not> mounts_ok then (STRIM_SPEC_ERR_BADARG, [])
          else if ly_env l = None \<or> ly_transcode l = None \<or> ly_resolv_conf l = None \<or> ly_tmp l = None
            then (STRIM_SPEC_ERR_BADARG, [])
          else if cap < 4 then (STRIM_SPEC_ERR_TOOSMALL, [])
          else (4, [mount (ly_env l) STRIM_CTR_ENV False,
                    mount (ly_transcode l) STRIM_CTR_TRANSCODE False,
                    mount (ly_resolv_conf l) STRIM_CTR_RESOLV_CONF False,
                    mount (ly_tmp l) STRIM_CTR_TMP True]))"

definition strim_mediamtx_mounts :: "strim_layout option \<Rightarrow> bool \<Rightarrow> nat \<Rightarrow> int \<times> strim_mount list" where
  "strim_mediamtx_mounts layout mounts_ok cap =
     (case layout of
        None \<Rightarrow> (STRIM_SPEC_ERR_BADARG, [])
      | Some l \<Rightarrow>
          if \<not> mounts_ok then (STRIM_SPEC_ERR_BADARG, [])
          else if ly_env l = None \<or> ly_mediamtx_tmpl l = None \<or> ly_notify l = None \<or>
                  ly_srt_pass l = None \<or> ly_video_dir l = None \<or> ly_tmp l = None
            then (STRIM_SPEC_ERR_BADARG, [])
          else if cap < 6 then (STRIM_SPEC_ERR_TOOSMALL, [])
          else (6, [mount (ly_env l) STRIM_CTR_ENV False,
                    mount (ly_mediamtx_tmpl l) STRIM_CTR_MEDIAMTX_TMPL False,
                    mount (ly_notify l) STRIM_CTR_NOTIFY False,
                    mount (ly_srt_pass l) STRIM_CTR_SRT_SECRET False,
                    mount (ly_video_dir l) STRIM_CTR_VIDEO_DIR True,
                    mount (ly_tmp l) STRIM_CTR_TMP True]))"

section \<open>Stage arguments\<close>

record strim_stage_table_entry =
  te_container_id :: c_str
  te_stage :: c_enum

text \<open>The table walk: the first entry of that container id decides.\<close>

fun stage_str :: "strim_stage_table_entry list \<Rightarrow> string \<Rightarrow> string" where
  "stage_str [] cid = cid"
| "stage_str (e # es) cid =
     (if te_container_id e = Some cid
      then (case strim_stage_name_to_string (te_stage e) of None \<Rightarrow> cid | Some wire \<Rightarrow> wire)
      else stage_str es cid)"

text \<open>
  The buffers are given by their sizes, \<open>None\<close> for \<open>NULL\<close>; the result is the return code and the
  two strings when it is 0. When only the second buffer is too small the first one has
  already been written.
\<close>

definition strim_stage_argv ::
  "strim_stage_table_entry list option \<Rightarrow> nat \<Rightarrow> c_str \<Rightarrow> nat option \<Rightarrow> nat option
   \<Rightarrow> int \<times> string option \<times> string option" where
  "strim_stage_argv table n_table container_id argv0 argv1 =
     (case (container_id, argv0, argv1) of
        (Some cid, Some cap0, Some cap1) \<Rightarrow>
          if cap0 = 0 \<or> cap1 = 0 then (STRIM_SPEC_ERR_BADARG, None, None)
          else if n_table > 0 \<and> table = None then (STRIM_SPEC_ERR_BADARG, None, None)
          else if cap0 \<le> length STRIM_CTR_TRANSCODE then (STRIM_SPEC_ERR_TOOSMALL, None, None)
          else let s = stage_str (take n_table (case table of None \<Rightarrow> [] | Some t \<Rightarrow> t)) cid
               in if cap1 \<le> length s then (STRIM_SPEC_ERR_TOOSMALL, Some STRIM_CTR_TRANSCODE, None)
                  else (0, Some STRIM_CTR_TRANSCODE, Some s)
      | _ \<Rightarrow> (STRIM_SPEC_ERR_BADARG, None, None))"

section \<open>Properties\<close>

text \<open>What the trailing-slash loop leaves.\<close>

lemma strip_step: "length r > 1 \<Longrightarrow> last r = CHR ''/'' \<Longrightarrow> strip_slashes r = strip_slashes (butlast r)"
  by (subst strip_slashes.simps) simp

lemma strip_stop: "\<not> (length r > 1 \<and> last r = CHR ''/'') \<Longrightarrow> strip_slashes r = r"
  by (subst strip_slashes.simps) auto

lemma strip_slashes_spec:
  "(length (strip_slashes r) > 1 \<longrightarrow> last (strip_slashes r) \<noteq> CHR ''/'') \<and>
   (r \<noteq> [] \<longrightarrow> strip_slashes r \<noteq> []) \<and> (\<exists>n. r = strip_slashes r @ replicate n (CHR ''/''))"
proof (induction r rule: strip_slashes.induct)
  case (1 r)
  show ?case
  proof (cases "length r > 1 \<and> last r = CHR ''/''")
    case True
    then have step: "strip_slashes r = strip_slashes (butlast r)" by (intro strip_step) simp_all
    have "r \<noteq> []" using True by auto
    then have r: "r = butlast r @ [CHR ''/'']" using True by (metis append_butlast_last_id)
    have "length (butlast r) \<noteq> 0" using True by simp
    then have "butlast r \<noteq> []" by blast
    moreover obtain n where "butlast r = strip_slashes (butlast r) @ replicate n (CHR ''/'')"
      using 1 True by blast
    then have "r = strip_slashes (butlast r) @ replicate (Suc n) (CHR ''/'')"
      using r by (metis append_assoc replicate_Suc replicate_append_same)
    ultimately show ?thesis using 1 True unfolding step by blast
  next
    case False
    then have "r = strip_slashes r @ replicate 0 (CHR ''/'')" by (simp add: strip_stop)
    then have "\<exists>n. r = strip_slashes r @ replicate n (CHR ''/'')" by blast
    with False show ?thesis by (simp add: strip_stop)
  qed
qed

text \<open>
  For an absolute host root other than a row of slashes, and short enough for the buffers, the
  layout consists of the fixed paths below that root, written out in full and
  absolute; the root is the given one without its trailing slashes.
\<close>

lemma layout_below_host_root:
  assumes "host_root = Some root" and "root = CHR ''/'' # rest" and "length root < 4000"
    and "\<exists>c \<in> set root. c \<noteq> CHR ''/''"
  defines "l \<equiv> strim_default_layout host_root" and "r \<equiv> layout_root host_root"
  shows "(\<exists>n. root = r @ replicate n (CHR ''/'')) \<and> last r \<noteq> CHR ''/'' \<and> hd r = CHR ''/'' \<and>
    ly_env l = Some (r @ ''/config/strimserver.env'') \<and> ly_transcode l = Some (r @ ''/bin/transcode.sh'') \<and>
    ly_notify l = Some (r @ ''/bin/notify'') \<and>
    ly_mediamtx_tmpl l = Some (r @ ''/config/mediamtx.yaml.template'') \<and>
    ly_srt_pass l = Some (r @ ''/srt-passphrase'') \<and> ly_video_dir l = Some (r @ ''/video-files'')"
proof -
  have r: "r = strip_slashes root"
    using assms(1-3) by (simp add: r_def layout_root_def snprintf_str_def STRIM_SPEC_PATH_MAX_def)
  obtain n where n: "root = r @ replicate n (CHR ''/'')" and ne: "r \<noteq> []"
    and lst: "length r > 1 \<longrightarrow> last r \<noteq> CHR ''/''"
    using strip_slashes_spec [of root] assms(2) unfolding r by auto
  have hd: "hd r = CHR ''/''" using n ne assms(2) by (metis hd_append2 list.sel(1))
  have "r \<noteq> ''/''"
  proof
    assume "r = ''/''"
    then have "set root \<subseteq> {CHR ''/''}" using n by auto
    then show False using assms(4) by blast
  qed
  moreover have "length r \<noteq> 1"
  proof
    assume "length r = 1"
    then obtain c where "r = [c]" by (metis One_nat_def length_0_conv length_Suc_conv)
    then show False using hd \<open>r \<noteq> ''/''\<close> by simp
  qed
  moreover have "length r < 4000" using n assms(3) by simp
  ultimately have "last r \<noteq> CHR ''/''" and long: "r \<noteq> ''/''" "length r < 4000"
    using lst ne by (cases r; simp)+
  then show ?thesis
    using n hd unfolding l_def
    by (auto simp: strim_default_layout_def r_def [symmetric] join_path_def snprintf_str_def
        STRIM_SPEC_PATH_MAX_def Let_def)
qed

lemma layout_below_host_root_witness:
  "ly_env (strim_default_layout (Some ''/data//'')) =
     Some (layout_root (Some ''/data//'') @ ''/config/strimserver.env'') \<and>
   last (layout_root (Some ''/data//'')) \<noteq> CHR ''/''"
  using layout_below_host_root [of "Some ''/data//''" "''/data//''" "''data//''"] by simp

text \<open>The host root \<open>/\<close> yields relative paths: the separator is dropped with the base.\<close>

lemma root_layout_relative: "ly_env (strim_default_layout (Some ''/'')) = Some ''config/strimserver.env''"
  by (simp add: strim_default_layout_def layout_root_def snprintf_str_def STRIM_SPEC_PATH_MAX_def
      strip_stop join_path_def Let_def)

definition writable :: "strim_mount list \<Rightarrow> string set" where
  "writable ms = set (map mt_destination (filter mt_read_write ms))"

lemma writable_simps [simp]:
  "writable [] = {}"
  "writable (m # ms) = (if mt_read_write m then insert (mt_destination m) (writable ms) else writable ms)"
  by (simp_all add: writable_def)

text \<open>
  Each mount list is complete or absent: a count equals the number of entries written and fits the
  caller's array, an error writes nothing. For a default layout both lists are built, their
  destinations are distinct, and the only writable ones are \<open>/tmp\<close> and, for mediamtx,
  \<open>/video-files\<close>; in particular the environment file and the SRT secret are
  read-only.
\<close>

lemma mount_lists_exact:
  "(\<forall>layout ok cap. \<forall>(n, ms) \<in> {strim_ffmpeg_mounts layout ok cap, strim_mediamtx_mounts layout ok cap}.
      (0 \<le> n \<and> n = int (length ms) \<and> length ms \<le> cap) \<or> (n < 0 \<and> ms = [])) \<and>
   (case strim_ffmpeg_mounts (Some (strim_default_layout hr)) True STRIM_SPEC_MAX_MOUNTS of
      (n, ms) \<Rightarrow> n = 4 \<and> distinct (map mt_destination ms) \<and> writable ms = {STRIM_CTR_TMP}) \<and>
   (case strim_mediamtx_mounts (Some (strim_default_layout hr)) True STRIM_SPEC_MAX_MOUNTS of
      (n, ms) \<Rightarrow> n = 6 \<and> distinct (map mt_destination ms) \<and>
        writable ms = {STRIM_CTR_VIDEO_DIR, STRIM_CTR_TMP} \<and>
        mt_source (ms ! 3) = ly_srt_pass (strim_default_layout hr))"
  by (auto simp: strim_ffmpeg_mounts_def strim_mediamtx_mounts_def strim_default_layout_def
      STRIM_SPEC_MAX_MOUNTS_def ctr_paths Let_def split: option.splits if_splits)

lemma mount_lists_exact_witness:
  "writable (snd (strim_ffmpeg_mounts (Some (strim_default_layout None)) True STRIM_SPEC_MAX_MOUNTS)) =
     {''/tmp''} \<and>
   fst (strim_mediamtx_mounts (Some (strim_default_layout None)) True STRIM_SPEC_MAX_MOUNTS) = 6"
  using mount_lists_exact [of None] by (auto simp: STRIM_CTR_TMP_def)

text \<open>
  The launch arguments of a stage are \<open>/transcode.sh\<close> and the wire name of the stage the first
  table entry of its container id names, or the container id itself when there is none;
  they are produced exactly when both fit their buffers with a NUL.
\<close>

lemma stage_argv_exact:
  fixes table :: "strim_stage_table_entry list" and cid :: string
  assumes "cap0 > 0" and "cap1 > 0"
  defines "s \<equiv> stage_str table cid"
  shows "strim_stage_argv (Some table) (length table) (Some cid) (Some cap0) (Some cap1) =
      (if length STRIM_CTR_TRANSCODE < cap0 \<and> length s < cap1 then (0, Some STRIM_CTR_TRANSCODE, Some s)
       else if length STRIM_CTR_TRANSCODE < cap0 then (STRIM_SPEC_ERR_TOOSMALL, Some STRIM_CTR_TRANSCODE, None)
       else (STRIM_SPEC_ERR_TOOSMALL, None, None)) \<and>
    (\<forall>e. List.find (\<lambda>e. te_container_id e = Some cid) table = Some e \<longrightarrow>
      0 \<le> te_stage e \<and> te_stage e < int (length k_stage_name_strs) \<longrightarrow>
      s = k_stage_name_strs ! nat (te_stage e)) \<and>
    (List.find (\<lambda>e. te_container_id e = Some cid) table = None \<longrightarrow> s = cid)"
proof -
  have "(\<forall>e. List.find (\<lambda>e. te_container_id e = Some cid) t = Some e \<longrightarrow>
      0 \<le> te_stage e \<and> te_stage e < int (length k_stage_name_strs) \<longrightarrow>
      stage_str t cid = k_stage_name_strs ! nat (te_stage e)) \<and>
    (List.find (\<lambda>e. te_container_id e = Some cid) t = None \<longrightarrow> stage_str t cid = cid)" for t
    by (induction t)
      (auto simp: strim_stage_name_to_string_def enum_to_string_def as_unsigned_def k_stage_name_strs_def)
  then show ?thesis using assms by (auto simp: strim_stage_argv_def Let_def)
qed

lemma stage_argv_exact_witness:
  "strim_stage_argv (Some [\<lparr>te_container_id = Some ''scale-and-egress'', te_stage = STRIM_STAGE_SCALE_AND_EGRESS\<rparr>]) 1
     (Some ''scale-and-egress'') (Some 64) (Some 64) =
   (0, Some ''/transcode.sh'', Some ''scale_and_egress'')"
  using stage_argv_exact [of 64 64 "[\<lparr>te_container_id = Some ''scale-and-egress'',
      te_stage = STRIM_STAGE_SCALE_AND_EGRESS\<rparr>]" "''scale-and-egress''"]
  by (simp add: STRIM_CTR_TRANSCODE_def k_stage_name_strs_def)

end
