(* ===== verification/Stage_Ops.thy ===== *)
theory Stage_Ops
  imports Oci_Spec Boot
begin

text \<open>
  The stage operations of \<open>main.c\<close>: the start and stop ops a worker runs for a stage. They
  call the containerd client and the CDI module, whose return codes, like the clock, the
  thread creation and the controller state other threads leave at each safe point, are
  arguments. An op yields its return code and the events it produced in order: the
  supersession checks and the client calls. All theorems hold for every choice of the
  return codes.
\<close>

abbreviation (input) STRIM_CTRD_ERR_NOTFOUND :: int where "STRIM_CTRD_ERR_NOTFOUND \<equiv> -3"
abbreviation (input) STRIM_CTRD_ERR_TIMEOUT :: int where "STRIM_CTRD_ERR_TIMEOUT \<equiv> -4"
abbreviation (input) STRIM_CTRD_KILL_SIGTERM :: int where "STRIM_CTRD_KILL_SIGTERM \<equiv> 15"

section \<open>Op contexts\<close>

record strim_stage_ops =
  so_client :: bool
  so_container_id :: string
  so_snapshot_id :: string
  so_image_name :: string
  so_logfile :: string
  so_stage :: c_enum
  so_ffmpeg :: bool
  so_layout :: strim_layout
  so_stage_table :: "strim_stage_table_entry list"
  so_stage_stop_timeout_ms :: int

text \<open>\<open>strncpy\<close> into a zeroed buffer of \<open>cap\<close> bytes, at most \<open>cap - 1\<close> of them.\<close>

definition strncpy_str :: "nat \<Rightarrow> string \<Rightarrow> string" where
  "strncpy_str cap s = take (cap - 1) s"

definition init_stage_ops ::
  "bool \<Rightarrow> strim_container_config \<Rightarrow> c_enum \<Rightarrow> bool \<Rightarrow> strim_layout \<Rightarrow> strim_stage_table_entry list
   \<Rightarrow> int \<Rightarrow> strim_stage_ops" where
  "init_stage_ops client cfg stage ffmpeg layout table stop_timeout_ms =
     \<lparr>so_client = client, so_container_id = strncpy_str STRIM_CFG_ID_MAX (container_id cfg),
      so_snapshot_id = strncpy_str STRIM_CFG_SNAP_MAX (snapshot_id cfg),
      so_image_name = strncpy_str STRIM_CFG_IMAGE_MAX (image_name cfg),
      so_logfile = strncpy_str STRIM_CFG_PATH_MAX (logfile cfg), so_stage = stage,
      so_ffmpeg = ffmpeg, so_layout = layout, so_stage_table = table,
      so_stage_stop_timeout_ms = stop_timeout_ms\<rparr>"

text \<open>The part of the spec the controller fills in; env, cwd and hooks stay empty.\<close>

record strim_spec =
  sp_args :: "string list"
  sp_capabilities :: "string list"
  sp_mounts :: "strim_mount list"
  sp_host_network :: bool
  sp_cgroups_path :: c_str

section \<open>The environment of an op\<close>

datatype safe_point =
    Stop_entry | Stop_loaded | Stop_task | Stop_waiting | Stop_joined | Stop_delete
  | Start_entry | Start_clean | Start_create | Start_created | Start_task

record op_env =
  oe_ctl :: "safe_point \<Rightarrow> strim_controller"
  oe_now_start :: int
  oe_now_stop :: int
  oe_load_container :: int
  oe_load_task :: int
  oe_thread :: bool
  oe_wait_at :: nat
  oe_kill :: int
  oe_wait :: int
  oe_task_delete :: int
  oe_delete_container :: int
  oe_cdi_ref :: int
  oe_cdi_scan :: int
  oe_cdi_resolve :: int
  oe_cdi_merge :: int
  oe_new_container :: int
  oe_new_task :: int
  oe_task_start :: int

datatype op_event =
    Check safe_point bool
  | Load_container string
  | Load_task
  | Waiter_created
  | Task_wait int
  | Kill int
  | Waiter_joined
  | Task_delete bool
  | Delete_container bool
  | Cdi_staged
  | New_container string string string strim_spec
  | New_task string
  | Task_start

type_synonym op_result = "int \<times> op_event list"

definition emit :: "op_event \<Rightarrow> op_result \<Rightarrow> op_result" where
  "emit ev r = (fst r, ev # snd r)"

section \<open>Operations\<close>

definition op_rpc_budget :: "strim_stage_op_cancel option \<Rightarrow> int \<Rightarrow> int \<Rightarrow> int" where
  "op_rpc_budget cancel now timeout_ms =
     (let remaining = strim_stage_op_remaining_ms cancel now
      in if remaining < 0 then timeout_ms else if remaining < timeout_ms then remaining else timeout_ms)"

text \<open>A safe point: the check is recorded; a superseded op ends there with 0.\<close>

definition op_superseded_abort ::
  "op_env \<Rightarrow> strim_stage_op_cancel option \<Rightarrow> safe_point \<Rightarrow> op_result \<Rightarrow> op_result" where
  "op_superseded_abort e cancel p continue =
     (let s = strim_stage_op_superseded (oe_ctl e p) cancel
      in emit (Check p s) (if s then (0, []) else continue))"

definition stop_grace :: "strim_stage_ops \<Rightarrow> int \<Rightarrow> int" where
  "stop_grace ops budget =
     (if budget > 0 \<and> budget < so_stage_stop_timeout_ms ops then budget else so_stage_stop_timeout_ms ops)"

text \<open>The end of the stop op: the container goes with its snapshot.\<close>

definition stop_delete :: "op_env \<Rightarrow> op_result" where
  "stop_delete e = emit (Delete_container True) (oe_delete_container e, [])"

text \<open>After the waiter was joined: reap the task according to how the wait ended.\<close>

definition stop_reap :: "op_env \<Rightarrow> strim_stage_op_cancel option \<Rightarrow> op_result" where
  "stop_reap e cancel =
     (if oe_wait e = 0 then
        emit (Task_delete False)
          (if oe_task_delete e \<noteq> 0 then (oe_task_delete e, [])
           else op_superseded_abort e cancel Stop_delete (stop_delete e))
      else if oe_wait e = STRIM_CTRD_ERR_TIMEOUT then
        emit (Task_delete True)
          (if oe_task_delete e \<noteq> 0 then (oe_task_delete e, [])
           else op_superseded_abort e cancel Stop_delete (stop_delete e))
      else if oe_wait e = STRIM_CTRD_ERR_NOTFOUND then
        op_superseded_abort e cancel Stop_delete (stop_delete e)
      else (oe_wait e, []))"

text \<open>
  From the creation of the waiter thread on. The thread issues the wait on a connection of its own
  (\<open>task_wait_thread\<close>), at any point between its creation and the join: \<open>oe_wait_at\<close> says how many
  of the op's own events come before it.
\<close>

definition task_wait_thread :: "nat \<Rightarrow> int \<Rightarrow> op_event list \<Rightarrow> op_event list" where
  "task_wait_thread n wait_ms own = take n own @ Task_wait wait_ms # drop n own"

definition stop_signal :: "op_env \<Rightarrow> strim_stage_op_cancel option \<Rightarrow> int \<Rightarrow> op_result" where
  "stop_signal e cancel wait_ms =
     (if \<not> oe_thread e then (-1, [])
      else let s = strim_stage_op_superseded (oe_ctl e Stop_waiting) cancel;
               own = Check Stop_waiting s # (if s then [] else [Kill STRIM_CTRD_KILL_SIGTERM]);
               r = (if s then (0, [])
                    else if oe_kill e \<noteq> 0 then (oe_kill e, [])
                    else op_superseded_abort e cancel Stop_joined (stop_reap e cancel))
           in (fst r, Waiter_created # task_wait_thread (oe_wait_at e) wait_ms own @ Waiter_joined # snd r))"

definition stage_stop_op ::
  "op_env \<Rightarrow> strim_stage_ops option \<Rightarrow> int \<Rightarrow> strim_stage_op_cancel option \<Rightarrow> op_result" where
  "stage_stop_op e octx timeout_ms cancel =
     (case octx of
        None \<Rightarrow> (-1, [])
      | Some ops \<Rightarrow>
          if \<not> so_client ops then (-1, [])
          else op_superseded_abort e cancel Stop_entry
            (let budget_ms = op_rpc_budget cancel (oe_now_stop e) timeout_ms
             in if budget_ms \<le> 0 then (-1, [])
                else emit (Load_container (so_container_id ops))
                  (if oe_load_container e = STRIM_CTRD_ERR_NOTFOUND then (0, [])
                   else if oe_load_container e \<noteq> 0 then (oe_load_container e, [])
                   else op_superseded_abort e cancel Stop_loaded
                     (emit Load_task
                       (if oe_load_task e = STRIM_CTRD_ERR_NOTFOUND then stop_delete e
                        else if oe_load_task e \<noteq> 0 then (oe_load_task e, [])
                        else op_superseded_abort e cancel Stop_task
                               (stop_signal e cancel (stop_grace ops budget_ms)))))))"

definition prepare_ffmpeg_cdi :: "op_env \<Rightarrow> int" where
  "prepare_ffmpeg_cdi e =
     (if oe_cdi_ref e \<noteq> 0 then -1 else if oe_cdi_scan e \<noteq> 0 then -1
      else if oe_cdi_resolve e \<noteq> 0 then -1 else oe_cdi_merge e)"

text \<open>The spec of the new container, or the code the op fails with.\<close>

definition build_spec :: "op_env \<Rightarrow> strim_stage_ops \<Rightarrow> int + strim_spec" where
  "build_spec e ops =
     (let spec = \<lambda>args ms. \<lparr>sp_args = args, sp_capabilities = strim_spec_added_capabilities,
            sp_mounts = ms, sp_host_network = True, sp_cgroups_path = None\<rparr>
      in if so_ffmpeg ops then
           (let av = strim_stage_argv (Some (so_stage_table ops)) (length (so_stage_table ops))
                       (Some (so_container_id ops)) (Some 64) (Some 64);
                mn = strim_ffmpeg_mounts (Some (so_layout ops)) True STRIM_SPEC_MAX_MOUNTS
            in if fst av \<noteq> 0 then Inl (-1)
               else if prepare_ffmpeg_cdi e \<noteq> 0 then Inl (-1)
               else if fst mn < 0 then Inl (fst mn)
               else Inr (spec [the (fst (snd av)), the (snd (snd av))] (snd mn)))
         else
           (let mn = strim_mediamtx_mounts (Some (so_layout ops)) True STRIM_SPEC_MAX_MOUNTS
            in if fst mn < 0 then Inl (fst mn) else Inr (spec [] (snd mn))))"

definition start_create :: "op_env \<Rightarrow> strim_stage_ops \<Rightarrow> strim_stage_op_cancel option \<Rightarrow> strim_spec \<Rightarrow> op_result" where
  "start_create e ops cancel spec =
     op_superseded_abort e cancel Start_create
       (emit (New_container (so_container_id ops) (so_snapshot_id ops) (so_image_name ops) spec)
         (if oe_new_container e \<noteq> 0 then (oe_new_container e, [])
          else op_superseded_abort e cancel Start_created
            (emit (New_task (so_logfile ops))
              (if oe_new_task e \<noteq> 0 then (oe_new_task e, [])
               else op_superseded_abort e cancel Start_task
                 (emit Task_start (if oe_task_start e \<noteq> 0 then (oe_task_start e, []) else (0, [])))))))"

text \<open>From the cleaned-up state on.\<close>

definition start_build :: "op_env \<Rightarrow> strim_stage_ops \<Rightarrow> strim_stage_op_cancel option \<Rightarrow> op_result" where
  "start_build e ops cancel =
     (case build_spec e ops of
        Inl rc \<Rightarrow> (rc, [])
      | Inr spec \<Rightarrow>
          (if so_ffmpeg ops then emit Cdi_staged (start_create e ops cancel spec)
           else start_create e ops cancel spec))"

definition stage_start_op ::
  "op_env \<Rightarrow> strim_stage_ops option \<Rightarrow> int \<Rightarrow> strim_stage_op_cancel option \<Rightarrow> op_result" where
  "stage_start_op e octx timeout_ms cancel =
     (case octx of
        None \<Rightarrow> (-1, [])
      | Some ops \<Rightarrow>
          if \<not> so_client ops then (-1, [])
          else op_superseded_abort e cancel Start_entry
            (let budget_ms = op_rpc_budget cancel (oe_now_start e) timeout_ms
             in if budget_ms \<le> 0 then (-1, [])
                else let stop = stage_stop_op e octx budget_ms cancel
                     in (\<lambda>r. (fst r, snd stop @ snd r))
                       (if fst stop \<noteq> 0 then (fst stop, [])
                        else op_superseded_abort e cancel Start_clean (start_build e ops cancel))))"

section \<open>Superseded ops keep their hands off\<close>

text \<open>Whether an event changes a container or task.\<close>

fun mutating :: "op_event \<Rightarrow> bool" where
  "mutating (Kill _) = True"
| "mutating (Task_delete _) = True"
| "mutating (Delete_container _) = True"
| "mutating (New_container _ _ _ _) = True"
| "mutating (New_task _) = True"
| "mutating Task_start = True"
| "mutating _ = False"

text \<open>
  Every mutating call comes after a safe point that found the op live, with no other mutating call
  in between.
\<close>

fun guarded :: "bool \<Rightarrow> op_event list \<Rightarrow> bool" where
  "guarded live [] = True"
| "guarded live (ev # evs) =
     (case ev of
        Check _ s \<Rightarrow> guarded (\<not> s) evs
      | _ \<Rightarrow> (mutating ev \<longrightarrow> live) \<and> guarded (live \<and> \<not> mutating ev) evs)"

lemma guarded_False: "guarded False evs \<Longrightarrow> guarded b evs"
  by (induction evs arbitrary: b) (auto split: op_event.splits)

lemma guarded_append: "guarded b xs \<Longrightarrow> guarded False ys \<Longrightarrow> guarded b (xs @ ys)"
  by (induction xs arbitrary: b) (auto intro: guarded_False split: op_event.splits)

lemma emit_sel [simp]: "fst (emit ev r) = fst r" "snd (emit ev r) = ev # snd r"
  by (simp_all add: emit_def)

lemma abort_sel [simp]:
  "fst (op_superseded_abort e cancel p k) =
     (if strim_stage_op_superseded (oe_ctl e p) cancel then 0 else fst k)"
  "snd (op_superseded_abort e cancel p k) =
     Check p (strim_stage_op_superseded (oe_ctl e p) cancel) #
     (if strim_stage_op_superseded (oe_ctl e p) cancel then [] else snd k)"
  by (simp_all add: op_superseded_abort_def Let_def)

text \<open>The three parts of the stop op, one after the other.\<close>

lemma reap_guarded: "guarded True (snd (stop_reap e cancel))"
  by (simp add: stop_reap_def stop_delete_def)

lemma set_task_wait_thread [simp]: "set (task_wait_thread n w own) = insert (Task_wait w) (set own)"
  by (metis append_take_drop_id list.simps(15) set_append task_wait_thread_def Un_insert_right)

lemma task_wait_thread_simps [simp]:
  "task_wait_thread 0 w own = Task_wait w # own" "task_wait_thread n w [] = [Task_wait w]"
  "task_wait_thread (Suc n) w (ev # own) = ev # task_wait_thread n w own"
  by (simp_all add: task_wait_thread_def)

lemma guarded_task_wait [simp]: "guarded b (task_wait_thread n w own @ evs) = guarded b (own @ evs)"
proof (induction own arbitrary: n b)
  case (Cons ev own)
  then show ?case by (cases n) (simp_all split: op_event.splits)
qed simp

lemma signal_guarded: "guarded b (snd (stop_signal e cancel w))"
  using reap_guarded by (simp add: stop_signal_def Let_def)

lemma stop_guarded: "guarded b (snd (stage_stop_op e octx timeout_ms cancel))"
  using signal_guarded by (cases octx) (simp_all add: stage_stop_op_def stop_delete_def Let_def)

lemma start_create_guarded: "guarded b (snd (start_create e ops cancel spec))"
  by (simp add: start_create_def)

lemma start_build_guarded: "guarded b (snd (start_build e ops cancel))"
  using start_create_guarded by (cases "build_spec e ops") (simp_all add: start_build_def)

lemma start_guarded: "guarded b (snd (stage_start_op e octx timeout_ms cancel))"
  by (cases octx)
    (simp_all add: stage_start_op_def Let_def guarded_append stop_guarded start_build_guarded)

text \<open>Where the op stopped because it was superseded.\<close>

definition aborted :: "op_event list \<Rightarrow> bool" where
  "aborted evs \<longleftrightarrow> (\<exists>p. Check p True \<in> set evs)"

lemma aborted_simps [simp]:
  "\<not> aborted []" "aborted (ev # evs) \<longleftrightarrow> (\<exists>p. ev = Check p True) \<or> aborted evs"
  "aborted (xs @ ys) \<longleftrightarrow> aborted xs \<or> aborted ys"
  by (auto simp: aborted_def)

lemma aborted_task_wait [simp]: "aborted (task_wait_thread n w own) = aborted own"
  by (auto simp: aborted_def)

lemma reap_aborted: "aborted (snd (stop_reap e cancel)) \<Longrightarrow> fst (stop_reap e cancel) = 0"
  by (simp add: stop_reap_def stop_delete_def split: if_splits)

lemma signal_aborted: "aborted (snd (stop_signal e cancel w)) \<Longrightarrow> fst (stop_signal e cancel w) = 0"
  using reap_aborted by (auto simp: stop_signal_def Let_def split: if_splits)

lemma stop_aborted_zero:
  assumes "aborted (snd (stage_stop_op e octx timeout_ms cancel))"
  shows "fst (stage_stop_op e octx timeout_ms cancel) = 0"
proof (cases octx)
  case (Some ops)
  show ?thesis
    using assms signal_aborted unfolding Some
    by (auto simp: stage_stop_op_def stop_delete_def Let_def split: if_splits)
qed (use assms in \<open>simp add: stage_stop_op_def\<close>)

text \<open>
  C25: An op that was superseded by a newer launch keeps its hands off the stage: in every run of a
  start or stop op, whatever the containerd client answers, each call that changes a
  container or a task comes after a safe point that found the op live, with no other such
  call between the two; and a stop op that finds itself superseded reports success, so that its
  end cannot clear the newer op's in-flight mark.
\<close>

theorem superseded_ops_keep_off:
  "guarded False (snd (stage_stop_op e octx timeout_ms cancel)) \<and>
   guarded False (snd (stage_start_op e octx timeout_ms cancel)) \<and>
   (aborted (snd (stage_stop_op e octx timeout_ms cancel)) \<longrightarrow>
     fst (stage_stop_op e octx timeout_ms cancel) = 0)"
  using stop_guarded start_guarded stop_aborted_zero by blast

section \<open>The stop op\<close>

definition stopped_cleanly :: "op_env \<Rightarrow> op_event list \<Rightarrow> bool" where
  "stopped_cleanly e evs \<longleftrightarrow>
     oe_load_task e = STRIM_CTRD_ERR_NOTFOUND \<or> oe_wait e = STRIM_CTRD_ERR_NOTFOUND \<or>
     oe_task_delete e = 0 \<and> Task_delete (oe_wait e = STRIM_CTRD_ERR_TIMEOUT) \<in> set evs"

text \<open>
  The waiter along the events of an op: not created, created, waiting. It is created at most once at a
  time, issues one wait before it is joined, and is joined before the op ends and before anything is
  deleted; the signal is sent while it exists.
\<close>

datatype waiter = No_waiter | Created | Waiting

fun awaited :: "waiter \<Rightarrow> op_event list \<Rightarrow> bool" where
  "awaited w [] \<longleftrightarrow> w = No_waiter"
| "awaited w (Waiter_created # evs) \<longleftrightarrow> w = No_waiter \<and> awaited Created evs"
| "awaited w (Task_wait _ # evs) \<longleftrightarrow> w = Created \<and> awaited Waiting evs"
| "awaited w (Kill _ # evs) \<longleftrightarrow> w \<noteq> No_waiter \<and> awaited w evs"
| "awaited w (Waiter_joined # evs) \<longleftrightarrow> w = Waiting \<and> awaited No_waiter evs"
| "awaited w (Task_delete _ # evs) \<longleftrightarrow> w = No_waiter \<and> awaited w evs"
| "awaited w (Delete_container _ # evs) \<longleftrightarrow> w = No_waiter \<and> awaited w evs"
| "awaited w (_ # evs) \<longleftrightarrow> awaited w evs"

lemma reap_delete:
  "Delete_container b \<in> set (snd (stop_reap e cancel)) \<Longrightarrow>
     b \<and> (oe_wait e = STRIM_CTRD_ERR_NOTFOUND \<or>
       oe_task_delete e = 0 \<and> Task_delete (oe_wait e = STRIM_CTRD_ERR_TIMEOUT) \<in> set (snd (stop_reap e cancel)))"
  by (auto simp: stop_reap_def stop_delete_def split: if_splits)

lemma signal_delete:
  "Delete_container b \<in> set (snd (stop_signal e cancel w)) \<Longrightarrow>
     b \<and> (oe_wait e = STRIM_CTRD_ERR_NOTFOUND \<or>
       oe_task_delete e = 0 \<and> Task_delete (oe_wait e = STRIM_CTRD_ERR_TIMEOUT) \<in> set (snd (stop_signal e cancel w)))"
  using reap_delete [of b e cancel] by (auto simp: stop_signal_def Let_def split: if_splits)

lemma stop_delete_clean:
  assumes "Delete_container b \<in> set (snd (stage_stop_op e (Some ops) timeout_ms cancel))"
  shows "b \<and> stopped_cleanly e (snd (stage_stop_op e (Some ops) timeout_ms cancel))"
  using assms signal_delete [of b e cancel]
  by (auto simp: stage_stop_op_def stop_delete_def stopped_cleanly_def Let_def split: if_splits)

lemma reap_awaited: "awaited No_waiter (snd (stop_reap e cancel))"
  by (simp add: stop_reap_def stop_delete_def)

lemma signal_awaited: "awaited No_waiter (snd (stop_signal e cancel w))"
  using reap_awaited by (cases "oe_wait_at e"; cases "oe_wait_at e - 1") (simp_all add: stop_signal_def Let_def)

lemma stop_awaited: "awaited No_waiter (snd (stage_stop_op e (Some ops) timeout_ms cancel))"
  using signal_awaited by (simp add: stage_stop_op_def stop_delete_def Let_def)

lemma reap_no_wait: "Task_wait w \<notin> set (snd (stop_reap e cancel))"
  by (simp add: stop_reap_def stop_delete_def)

lemma signal_wait: "Task_wait w \<in> set (snd (stop_signal e cancel g)) \<Longrightarrow> w = g"
  using reap_no_wait [of w] by (simp add: stop_signal_def Let_def split: if_splits)

lemma stop_grace_bound:
  assumes "Task_wait w \<in> set (snd (stage_stop_op e (Some ops) timeout_ms cancel))"
  shows "w = min (op_rpc_budget cancel (oe_now_stop e) timeout_ms) (so_stage_stop_timeout_ms ops)"
  using assms signal_wait [of w]
  by (auto simp: stage_stop_op_def stop_delete_def stop_grace_def Let_def split: if_splits)

lemma reap_zero_iff:
  "fst (stop_reap e cancel) = 0 \<longleftrightarrow> aborted (snd (stop_reap e cancel)) \<or>
    Delete_container True \<in> set (snd (stop_reap e cancel)) \<and> oe_delete_container e = 0"
  by (simp add: stop_reap_def stop_delete_def)

lemma signal_zero_iff:
  "fst (stop_signal e cancel w) = 0 \<longleftrightarrow> aborted (snd (stop_signal e cancel w)) \<or>
    Delete_container True \<in> set (snd (stop_signal e cancel w)) \<and> oe_delete_container e = 0"
  by (simp add: stop_signal_def Let_def reap_zero_iff)

lemma stop_zero_iff:
  assumes "so_client ops" and "op_rpc_budget cancel (oe_now_stop e) timeout_ms > 0"
  shows "fst (stage_stop_op e (Some ops) timeout_ms cancel) = 0 \<longleftrightarrow>
    aborted (snd (stage_stop_op e (Some ops) timeout_ms cancel)) \<or>
    oe_load_container e = STRIM_CTRD_ERR_NOTFOUND \<or>
    Delete_container True \<in> set (snd (stage_stop_op e (Some ops) timeout_ms cancel)) \<and> oe_delete_container e = 0"
  using assms by (simp add: stage_stop_op_def stop_delete_def Let_def signal_zero_iff)

text \<open>
  C26: The stop op removes a container only when its task is gone: there was none, or it exited or
  was killed and has been reaped, by force exactly when it had not exited in time. The signal is
  sent only once the thread that waits for the exit has been created; that thread issues one
  wait, of at most the stage's stop timeout and the op's budget, at whatever point it is scheduled,
  and is always joined before anything is deleted and before the op ends. The op reports
  success exactly when it was superseded, the container did not exist, or the container was deleted.
\<close>

theorem stop_op_correct:
  assumes "so_client ops" and "op_rpc_budget cancel (oe_now_stop e) timeout_ms > 0"
  defines "r \<equiv> stage_stop_op e (Some ops) timeout_ms cancel"
  shows "(\<forall>b. Delete_container b \<in> set (snd r) \<longrightarrow> b \<and> stopped_cleanly e (snd r)) \<and>
    awaited No_waiter (snd r) \<and>
    (\<forall>w. Task_wait w \<in> set (snd r) \<longrightarrow>
      w = min (op_rpc_budget cancel (oe_now_stop e) timeout_ms) (so_stage_stop_timeout_ms ops)) \<and>
    (fst r = 0 \<longleftrightarrow> aborted (snd r) \<or> oe_load_container e = STRIM_CTRD_ERR_NOTFOUND \<or>
      Delete_container True \<in> set (snd r) \<and> oe_delete_container e = 0)"
  unfolding r_def
  using stop_delete_clean stop_awaited stop_grace_bound stop_zero_iff [OF assms(1,2)] by blast

text \<open>A concrete op: the normalize stage of a configured controller, all calls succeeding.\<close>

definition demo_ops :: strim_stage_ops where
  "demo_ops = init_stage_ops True
     \<lparr>container_id = ''normalize'', snapshot_id = ''normalize-snap'', image_name = ''ffmpeg:1'', logfile = ''/log''\<rparr>
     STRIM_STAGE_NORMALIZE True (strim_default_layout None)
     [\<lparr>te_container_id = Some ''normalize'', te_stage = STRIM_STAGE_NORMALIZE\<rparr>] 5000"

definition demo_env :: op_env where
  "demo_env = \<lparr>oe_ctl = (\<lambda>_. demo_ctl), oe_now_start = 0, oe_now_stop = 0, oe_load_container = 0,
     oe_load_task = 0, oe_thread = True, oe_wait_at = 1, oe_kill = 0, oe_wait = 0, oe_task_delete = 0,
     oe_delete_container = 0, oe_cdi_ref = 0, oe_cdi_scan = 0, oe_cdi_resolve = 0,
     oe_cdi_merge = 0, oe_new_container = 0, oe_new_task = 0, oe_task_start = 0\<rparr>"

lemma demo_env_sel [simp]:
  "oe_load_container demo_env = 0" "oe_load_task demo_env = 0" "oe_thread demo_env" "oe_kill demo_env = 0"
  "oe_wait demo_env = 0" "oe_task_delete demo_env = 0" "oe_delete_container demo_env = 0"
  "prepare_ffmpeg_cdi demo_env = 0" "oe_new_container demo_env = 0" "oe_new_task demo_env = 0"
  "oe_task_start demo_env = 0"
  by (simp_all add: demo_env_def prepare_ffmpeg_cdi_def)

lemma demo_wait_at: "oe_wait_at demo_env = 1"
  by (simp add: demo_env_def)

lemma demo_ops_sel [simp]:
  "so_client demo_ops" "so_ffmpeg demo_ops" "so_container_id demo_ops = ''normalize''"
  "so_stage_table demo_ops = [\<lparr>te_container_id = Some ''normalize'', te_stage = STRIM_STAGE_NORMALIZE\<rparr>]"
  "so_layout demo_ops = strim_default_layout None" "so_stage_stop_timeout_ms demo_ops = 5000"
  by (simp_all add: demo_ops_def init_stage_ops_def strncpy_str_def)

lemma superseded_None [simp]: "\<not> strim_stage_op_superseded c None"
  by (simp add: strim_stage_op_superseded_def)

lemma budget_None [simp]: "op_rpc_budget None now timeout_ms = timeout_ms"
  by (simp add: op_rpc_budget_def strim_stage_op_remaining_ms_def)

text \<open>
  The exit is not necessarily awaited before the signal, as the comment of the op says: nothing
  orders the waiter's call and the signal.
\<close>

lemma signal_may_precede_wait:
  "snd (stop_signal (demo_env\<lparr>oe_wait_at := 2, oe_wait := -1\<rparr>) None 5000) =
     [Waiter_created, Check Stop_waiting False, Kill 15, Task_wait 5000, Waiter_joined, Check Stop_joined False]"
  by (simp add: stop_signal_def stop_reap_def Let_def task_wait_thread_def)

theorem superseded_ops_keep_off_witness:
  "fst (stage_stop_op demo_env (Some demo_ops) 30000
     (Some \<lparr>cn_generation = op_generation (stages demo_ctl ! 0) + 1, cn_deadline_ms = 100,
        cn_current_generation = 0, cn_now_ms = None\<rparr>)) = 0"
proof -
  let ?k = "\<lparr>cn_generation = op_generation (stages demo_ctl ! 0) + 1, cn_deadline_ms = 100,
    cn_current_generation = 0, cn_now_ms = None\<rparr>"
  have "Check Stop_entry True \<in> set (snd (stage_stop_op demo_env (Some demo_ops) 30000 (Some ?k)))"
    by (simp add: stage_stop_op_def op_superseded_abort_def strim_stage_op_superseded_def demo_env_def emit_def)
  then have "aborted (snd (stage_stop_op demo_env (Some demo_ops) 30000 (Some ?k)))"
    unfolding aborted_def by blast
  then show ?thesis using superseded_ops_keep_off by blast
qed

theorem stop_op_correct_witness:
  "fst (stage_stop_op demo_env (Some demo_ops) 30000 None) = 0 \<and>
   Task_wait 5000 \<in> set (snd (stage_stop_op demo_env (Some demo_ops) 30000 None)) \<and>
   stopped_cleanly demo_env (snd (stage_stop_op demo_env (Some demo_ops) 30000 None))"
proof -
  have "Delete_container True \<in> set (snd (stage_stop_op demo_env (Some demo_ops) 30000 None)) \<and>
      Task_wait 5000 \<in> set (snd (stage_stop_op demo_env (Some demo_ops) 30000 None))"
    by (simp add: stage_stop_op_def stop_signal_def stop_reap_def stop_delete_def stop_grace_def Let_def)
  then show ?thesis using stop_op_correct [of demo_ops None demo_env 30000] by auto
qed

section \<open>The start op\<close>

lemma stop_no_create:
  "New_container i sn im sp \<notin> set (snd (stage_stop_op e octx timeout_ms cancel))"
  "New_task l \<notin> set (snd (stage_stop_op e octx timeout_ms cancel))"
  "Task_start \<notin> set (snd (stage_stop_op e octx timeout_ms cancel))"
proof -
  have reap: "New_container i sn im sp \<notin> set (snd (stop_reap e cancel))"
    "New_task l \<notin> set (snd (stop_reap e cancel))" "Task_start \<notin> set (snd (stop_reap e cancel))"
    by (simp_all add: stop_reap_def stop_delete_def)
  have sig: "New_container i sn im sp \<notin> set (snd (stop_signal e cancel w))"
    "New_task l \<notin> set (snd (stop_signal e cancel w))" "Task_start \<notin> set (snd (stop_signal e cancel w))" for w
    using reap by (simp_all add: stop_signal_def Let_def)
  show "New_container i sn im sp \<notin> set (snd (stage_stop_op e octx timeout_ms cancel))"
    "New_task l \<notin> set (snd (stage_stop_op e octx timeout_ms cancel))"
    "Task_start \<notin> set (snd (stage_stop_op e octx timeout_ms cancel))"
    using sig by (cases octx; simp add: stage_stop_op_def stop_delete_def Let_def)+
qed

text \<open>What the launch of a stage looks like, in which the checks have been left out.\<close>

definition launch :: "strim_stage_ops \<Rightarrow> strim_spec \<Rightarrow> op_event list" where
  "launch ops spec =
     [New_container (so_container_id ops) (so_snapshot_id ops) (so_image_name ops) spec,
      New_task (so_logfile ops), Task_start]"

definition calls :: "op_event list \<Rightarrow> op_event list" where
  "calls evs = filter mutating evs"

lemma calls_simps [simp]:
  "calls [] = []" "calls (ev # evs) = (if mutating ev then ev # calls evs else calls evs)"
  "calls (xs @ ys) = calls xs @ calls ys"
  by (simp_all add: calls_def)

lemma create_zero_iff:
  "\<not> aborted (snd (start_create e ops cancel spec)) \<Longrightarrow>
     (fst (start_create e ops cancel spec) = 0 \<longleftrightarrow>
       oe_new_container e = 0 \<and> oe_new_task e = 0 \<and> oe_task_start e = 0) \<and>
     (fst (start_create e ops cancel spec) = 0 \<longrightarrow> calls (snd (start_create e ops cancel spec)) = launch ops spec)"
  by (simp add: start_create_def launch_def split: if_splits)

lemma build_zero_iff:
  assumes "\<not> aborted (snd (start_build e ops cancel))"
  shows "fst (start_build e ops cancel) = 0 \<longleftrightarrow>
    (\<exists>spec. build_spec e ops = Inr spec \<and> oe_new_container e = 0 \<and> oe_new_task e = 0 \<and> oe_task_start e = 0)"
    and "build_spec e ops = Inr spec \<Longrightarrow> fst (start_build e ops cancel) = 0 \<Longrightarrow>
      calls (snd (start_build e ops cancel)) = launch ops spec"
proof -
  have nz: "build_spec e ops = Inl rc \<Longrightarrow> rc \<noteq> 0" for rc
    by (auto simp: build_spec_def Let_def split: if_splits)
  show "fst (start_build e ops cancel) = 0 \<longleftrightarrow>
    (\<exists>spec. build_spec e ops = Inr spec \<and> oe_new_container e = 0 \<and> oe_new_task e = 0 \<and> oe_task_start e = 0)"
    using assms nz create_zero_iff [of e ops cancel]
    by (cases "build_spec e ops") (auto simp: start_build_def split: if_splits)
  show "build_spec e ops = Inr spec \<Longrightarrow> fst (start_build e ops cancel) = 0 \<Longrightarrow>
      calls (snd (start_build e ops cancel)) = launch ops spec"
    using assms create_zero_iff [of e ops cancel spec] by (simp add: start_build_def split: if_splits)
qed

lemma ffmpeg_mounts_count:
  "0 \<le> fst (strim_ffmpeg_mounts (Some l) True cap) \<Longrightarrow> fst (strim_ffmpeg_mounts (Some l) True cap) = 4"
  by (simp add: strim_ffmpeg_mounts_def split: if_splits)

lemma mediamtx_mounts_count:
  "0 \<le> fst (strim_mediamtx_mounts (Some l) True cap) \<Longrightarrow> fst (strim_mediamtx_mounts (Some l) True cap) = 6"
  by (simp add: strim_mediamtx_mounts_def split: if_splits)

lemma stage_argv_strings:
  "fst (strim_stage_argv (Some t) (length t) (Some cid) (Some 64) (Some 64)) = 0 \<Longrightarrow>
     snd (strim_stage_argv (Some t) (length t) (Some cid) (Some 64) (Some 64)) =
       (Some STRIM_CTR_TRANSCODE, Some (stage_str t cid))"
  by (simp add: strim_stage_argv_def STRIM_CTR_TRANSCODE_def Let_def split: if_splits)

text \<open>What the container of a stage is created with.\<close>

definition spec_for :: "op_env \<Rightarrow> strim_stage_ops \<Rightarrow> strim_spec \<Rightarrow> bool" where
  "spec_for e ops spec \<longleftrightarrow>
    sp_host_network spec \<and> sp_capabilities spec = [''CAP_SYS_NICE''] \<and>
    (if so_ffmpeg ops
     then prepare_ffmpeg_cdi e = 0 \<and>
       sp_args spec = [STRIM_CTR_TRANSCODE, stage_str (so_stage_table ops) (so_container_id ops)] \<and>
       (4, sp_mounts spec) = strim_ffmpeg_mounts (Some (so_layout ops)) True STRIM_SPEC_MAX_MOUNTS
     else sp_args spec = [] \<and>
       (6, sp_mounts spec) = strim_mediamtx_mounts (Some (so_layout ops)) True STRIM_SPEC_MAX_MOUNTS)"

lemma build_spec_content:
  assumes "build_spec e ops = Inr spec"
  shows "spec_for e ops spec"
proof (cases "so_ffmpeg ops")
  case True
  define av where "av = strim_stage_argv (Some (so_stage_table ops)) (length (so_stage_table ops))
    (Some (so_container_id ops)) (Some 64) (Some 64)"
  define mn where "mn = strim_ffmpeg_mounts (Some (so_layout ops)) True STRIM_SPEC_MAX_MOUNTS"
  have f: "fst av = 0" "prepare_ffmpeg_cdi e = 0" "\<not> fst mn < 0"
      "spec = \<lparr>sp_args = [the (fst (snd av)), the (snd (snd av))],
        sp_capabilities = strim_spec_added_capabilities, sp_mounts = snd mn, sp_host_network = True,
        sp_cgroups_path = None\<rparr>"
    using assms True unfolding build_spec_def Let_def av_def [symmetric] mn_def [symmetric]
    by (simp_all split: if_splits)
  have "snd av = (Some STRIM_CTR_TRANSCODE, Some (stage_str (so_stage_table ops) (so_container_id ops)))"
    unfolding av_def by (rule stage_argv_strings) (use f(1) av_def in simp)
  moreover have "fst mn = 4"
    unfolding mn_def by (rule ffmpeg_mounts_count) (use f(3) mn_def in simp)
  then have "(4, snd mn) = mn" by (metis prod.collapse)
  ultimately show ?thesis
    using True f unfolding spec_for_def mn_def [symmetric] by (simp add: strim_spec_added_capabilities_def)
next
  case False
  define mn where "mn = strim_mediamtx_mounts (Some (so_layout ops)) True STRIM_SPEC_MAX_MOUNTS"
  have f: "\<not> fst mn < 0" "spec = \<lparr>sp_args = [], sp_capabilities = strim_spec_added_capabilities,
      sp_mounts = snd mn, sp_host_network = True, sp_cgroups_path = None\<rparr>"
    using assms False unfolding build_spec_def Let_def mn_def [symmetric] by (simp_all split: if_splits)
  have "fst mn = 6"
    unfolding mn_def by (rule mediamtx_mounts_count) (use f(1) mn_def in simp)
  then have "(6, snd mn) = mn" by (metis prod.collapse)
  then show ?thesis
    using False f unfolding spec_for_def mn_def [symmetric] by (simp add: strim_spec_added_capabilities_def)
qed

text \<open>
  C27: A start op that is not superseded succeeds exactly when the cleanup succeeds, the spec can be
  built (for an ffmpeg stage: the CDI device is staged and the arguments fit) and the
  three launch calls succeed; its calls are then those of the cleanup followed by the creation of
  the container, of its task and the start, each once. The container gets host networking,
  \<open>CAP_SYS_NICE\<close>, the mount list of its kind and, for ffmpeg, the script and the stage's
  wire name as arguments.
\<close>

theorem start_op_correct:
  assumes "so_client ops" and "op_rpc_budget cancel (oe_now_start e) timeout_ms = budget" and "budget > 0"
    and "\<not> aborted (snd (stage_start_op e (Some ops) timeout_ms cancel))"
  defines "r \<equiv> stage_start_op e (Some ops) timeout_ms cancel"
    and "stop \<equiv> stage_stop_op e (Some ops) budget cancel"
  shows "(fst r = 0 \<longleftrightarrow> fst stop = 0 \<and>
      (\<exists>spec. build_spec e ops = Inr spec \<and> oe_new_container e = 0 \<and> oe_new_task e = 0 \<and> oe_task_start e = 0)) \<and>
    (fst r = 0 \<longrightarrow> (\<exists>spec. calls (snd r) = calls (snd stop) @ launch ops spec \<and>
      spec_for e ops spec))"
proof -
  have live: "\<not> strim_stage_op_superseded (oe_ctl e Start_entry) cancel"
    using assms(1,4) by (auto simp: stage_start_op_def)
  have r: "r = (fst (if fst stop \<noteq> 0 then (fst stop, [])
        else op_superseded_abort e cancel Start_clean (start_build e ops cancel)),
      Check Start_entry False # snd stop @ snd (if fst stop \<noteq> 0 then (fst stop, [])
        else op_superseded_abort e cancel Start_clean (start_build e ops cancel)))"
    using assms(1-3) live
    by (simp add: r_def stop_def stage_start_op_def op_superseded_abort_def emit_def Let_def)
  show ?thesis
  proof (cases "fst stop = 0")
    case True
    then have clean: "\<not> strim_stage_op_superseded (oe_ctl e Start_clean) cancel"
      and nb: "\<not> aborted (snd (start_build e ops cancel))"
      using assms(4) [folded r_def] unfolding r by (auto split: if_splits)
    then have fr: "fst r = fst (start_build e ops cancel)"
      and sr: "calls (snd r) = calls (snd stop) @ calls (snd (start_build e ops cancel))"
      unfolding r using True by simp_all
    have "fst r = 0 \<Longrightarrow> \<exists>spec. build_spec e ops = Inr spec \<and> calls (snd r) = calls (snd stop) @ launch ops spec"
      using build_zero_iff [OF nb] fr sr by auto
    then show ?thesis
      using True build_zero_iff(1) [OF nb] fr build_spec_content by auto
  next
    case False
    then show ?thesis unfolding r by simp
  qed
qed

theorem start_op_correct_witness:
  "fst (stage_start_op demo_env (Some demo_ops) 30000 None) = 0 \<and>
   (\<exists>spec. launch demo_ops spec = drop 3 (calls (snd (stage_start_op demo_env (Some demo_ops) 30000 None))) \<and>
      sp_args spec = [''/transcode.sh'', ''normalize''])"
proof -
  let ?r = "stage_start_op demo_env (Some demo_ops) 30000 None"
  let ?stop = "stage_stop_op demo_env (Some demo_ops) 30000 None"
  have stop: "calls (snd ?stop) = [Kill 15, Task_delete False, Delete_container True]" "fst ?stop = 0"
    by (simp_all add: demo_wait_at task_wait_thread_def stage_stop_op_def stop_signal_def stop_reap_def stop_delete_def Let_def)
  have wire: "stage_str (so_stage_table demo_ops) (so_container_id demo_ops) = ''normalize''"
    by (simp add: strim_stage_name_to_string_def enum_to_string_def as_unsigned_def k_stage_name_strs_def)
  have "build_spec demo_env demo_ops \<noteq> Inl rc" for rc
    using wire
    by (simp add: build_spec_def strim_stage_argv_def strim_ffmpeg_mounts_def
        STRIM_CTR_TRANSCODE_def STRIM_SPEC_MAX_MOUNTS_def strim_default_layout_def Let_def)
  then obtain spec where spec: "build_spec demo_env demo_ops = Inr spec"
    by (cases "build_spec demo_env demo_ops") auto
  have nab: "\<not> aborted (snd ?r)"
    using stop(2) spec
    by (simp add: stage_start_op_def stage_stop_op_def stop_signal_def stop_reap_def stop_delete_def
        start_build_def start_create_def Let_def)
  note c = start_op_correct [OF demo_ops_sel(1) budget_None _ nab]
  have z: "fst ?r = 0" using c stop(2) spec by simp
  then obtain spec' where "calls (snd ?r) = calls (snd ?stop) @ launch demo_ops spec'"
      "sp_args spec' = [STRIM_CTR_TRANSCODE, stage_str (so_stage_table demo_ops) (so_container_id demo_ops)]"
    using c by (auto simp: spec_for_def)
  then show ?thesis using z stop(1) wire by (intro conjI exI [of _ spec']) (simp_all add: STRIM_CTR_TRANSCODE_def)
qed

section \<open>Deadlines\<close>

lemma op_rpc_budget_exact:
  "op_rpc_budget cancel now timeout_ms = (case cancel of
        None \<Rightarrow> timeout_ms
      | Some k \<Rightarrow> if cn_now_ms k = None \<or> cn_deadline_ms k < now then timeout_ms
                 else min (cn_deadline_ms k - now) timeout_ms)"
  by (auto simp: op_rpc_budget_def strim_stage_op_remaining_ms_def Let_def split: option.splits)

lemma op_rpc_budget_le: "op_rpc_budget cancel now timeout_ms \<le> timeout_ms"
  by (simp add: op_rpc_budget_def Let_def)

lemma stop_wait_budget:
  "Task_wait w \<in> set (snd (stage_stop_op e (Some ops) timeout_ms cancel)) \<Longrightarrow>
     w \<le> op_rpc_budget cancel (oe_now_stop e) timeout_ms"
  using stop_grace_bound [of w e ops timeout_ms cancel] by simp

lemma build_no_wait: "Task_wait w \<notin> set (snd (start_build e ops cancel))"
  by (cases "build_spec e ops") (simp_all add: start_build_def start_create_def)

lemma start_wait_budget:
  assumes "Task_wait w \<in> set (snd (stage_start_op e (Some ops) timeout_ms cancel))"
  shows "w \<le> op_rpc_budget cancel (oe_now_start e) timeout_ms"
proof -
  let ?b = "op_rpc_budget cancel (oe_now_start e) timeout_ms"
  have "Task_wait w \<in> set (snd (stage_stop_op e (Some ops) ?b cancel))"
    using assms build_no_wait by (auto simp: stage_start_op_def Let_def split: if_splits)
  then have "w \<le> op_rpc_budget cancel (oe_now_stop e) ?b" by (rule stop_wait_budget)
  also have "\<dots> \<le> ?b" by (rule op_rpc_budget_le)
  finally show ?thesis .
qed

text \<open>
  C28: The budget of an op is its timeout without a deadline, the smaller of the timeout and what is
  left up to the deadline, and, once the deadline has passed, the whole timeout again. With no
  budget left (at the deadline, or with a timeout of 0 or less) a start or stop op makes no
  containerd call at all: it ends after its entry check, with -1, or 0 if that found it superseded.
  Every wait of a start or stop op is within the budget the op began with.
\<close>

theorem deadline_bounds_op:
  fixes cancel :: "strim_stage_op_cancel option" and timeout_ms :: int and e :: op_env
  assumes "so_client ops"
  defines "b \<equiv> \<lambda>now. op_rpc_budget cancel now timeout_ms"
    and "stop \<equiv> stage_stop_op e (Some ops) timeout_ms cancel"
    and "start \<equiv> stage_start_op e (Some ops) timeout_ms cancel"
  shows "b now = (case cancel of
        None \<Rightarrow> timeout_ms
      | Some k \<Rightarrow> if cn_now_ms k = None \<or> cn_deadline_ms k < now then timeout_ms
                 else min (cn_deadline_ms k - now) timeout_ms) \<and>
    (b (oe_now_stop e) \<le> 0 \<longrightarrow>
      (\<exists>s. stop = (if s then 0 else -1, [Check Stop_entry s]))) \<and>
    (b (oe_now_start e) \<le> 0 \<longrightarrow>
      (\<exists>s. start = (if s then 0 else -1, [Check Start_entry s]))) \<and>
    (\<forall>w. Task_wait w \<in> set (snd stop) \<longrightarrow> w \<le> b (oe_now_stop e)) \<and>
    (\<forall>w. Task_wait w \<in> set (snd start) \<longrightarrow> w \<le> b (oe_now_start e))"
proof -
  have "b now = (case cancel of
        None \<Rightarrow> timeout_ms
      | Some k \<Rightarrow> if cn_now_ms k = None \<or> cn_deadline_ms k < now then timeout_ms
                 else min (cn_deadline_ms k - now) timeout_ms)"
    unfolding b_def by (rule op_rpc_budget_exact)
  moreover have "\<exists>s. stop = (if s then 0 else -1, [Check Stop_entry s])" if "b (oe_now_stop e) \<le> 0"
    using that assms(1) unfolding b_def stop_def by (simp add: stage_stop_op_def op_superseded_abort_def emit_def Let_def)
  moreover have "\<exists>s. start = (if s then 0 else -1, [Check Start_entry s])" if "b (oe_now_start e) \<le> 0"
    using that assms(1) unfolding b_def start_def by (simp add: stage_start_op_def op_superseded_abort_def emit_def Let_def)
  ultimately show ?thesis
    unfolding b_def stop_def start_def using stop_wait_budget start_wait_budget by blast
qed

theorem deadline_bounds_op_witness:
  "stage_stop_op (demo_env\<lparr>oe_now_stop := 100\<rparr>) (Some demo_ops) 50 (Some \<lparr>cn_generation = op_generation (stages demo_ctl ! 0),
     cn_deadline_ms = 100, cn_current_generation = 0, cn_now_ms = Some Default_now_ms\<rparr>) = (-1, [Check Stop_entry False])"
proof -
  let ?k = "\<lparr>cn_generation = op_generation (stages demo_ctl ! 0), cn_deadline_ms = 100, cn_current_generation = 0,
    cn_now_ms = Some Default_now_ms\<rparr>"
  have live: "\<not> strim_stage_op_superseded demo_ctl (Some ?k)" by (simp add: strim_stage_op_superseded_def)
  have "op_rpc_budget (Some ?k) 100 50 \<le> 0"
    using deadline_bounds_op [OF demo_ops_sel(1), of "Some ?k" 100 50 demo_env] by simp
  then obtain s where "stage_stop_op (demo_env\<lparr>oe_now_stop := 100\<rparr>) (Some demo_ops) 50 (Some ?k) =
      (if s then 0 else -1, [Check Stop_entry s])"
    using deadline_bounds_op [OF demo_ops_sel(1), of "Some ?k" 100 50 "demo_env\<lparr>oe_now_stop := 100\<rparr>"] by auto
  moreover have "hd (snd (stage_stop_op (demo_env\<lparr>oe_now_stop := 100\<rparr>) (Some demo_ops) 50 (Some ?k))) = Check Stop_entry False"
    using live by (simp add: stage_stop_op_def demo_env_def)
  ultimately show ?thesis by (cases s) simp_all
qed

text \<open>
  Past the deadline the budget is the whole timeout again: the negative remainder is read as "no
  deadline", where the comment of \<open>op_rpc_budget\<close> wants the op to abort.
\<close>

lemma expired_deadline_ignored:
  "cn_now_ms k \<noteq> None \<Longrightarrow> cn_deadline_ms k < now \<Longrightarrow> op_rpc_budget (Some k) now timeout_ms = timeout_ms"
  by (simp add: op_rpc_budget_def strim_stage_op_remaining_ms_def)

end
