(* ===== verification/Ws_Crypto.thy ===== *)
theory Ws_Crypto
  imports Prelude
begin

text \<open>
  \<open>http/ws_crypto.c\<close>: SHA-1 and base64 for the WebSocket handshake. Bytes are 8-bit words,
  the hash state is five 32-bit words, and the arithmetic is the C code's modular arithmetic.
  SHA-1's buffer handling is shown to be the padding of RFC 3174, and base64 decoding to
  be the inverse of encoding.
\<close>

unbundle bit_operations_syntax

section \<open>SHA-1\<close>

definition rol32 :: "u32 \<Rightarrow> nat \<Rightarrow> u32" where
  "rol32 v n = push_bit n v OR drop_bit (32 - n) v"

definition sha1_f :: "nat \<Rightarrow> u32 \<Rightarrow> u32 \<Rightarrow> u32 \<Rightarrow> u32" where
  "sha1_f t b c d =
     (if t < 20 then (b AND c) OR (NOT b AND d)
      else if t < 40 then b XOR c XOR d
      else if t < 60 then (b AND c) OR (b AND d) OR (c AND d)
      else b XOR c XOR d)"

definition sha1_k :: "nat \<Rightarrow> u32" where
  "sha1_k t =
     (if t < 20 then 0x5a827999 else if t < 40 then 0x6ed9eba1
      else if t < 60 then 0x8f1bbcdc else 0xca62c1d6)"

text \<open>The big-endian words of a block, and the message schedule grown one word per iteration.\<close>

definition be_word :: "byte list \<Rightarrow> nat \<Rightarrow> u32" where
  "be_word block t =
     push_bit 24 (ucast (block ! (t * 4))) OR push_bit 16 (ucast (block ! (t * 4 + 1))) OR
     push_bit 8 (ucast (block ! (t * 4 + 2))) OR ucast (block ! (t * 4 + 3))"

fun schedule_loop :: "nat \<Rightarrow> u32 list \<Rightarrow> u32 list" where
  "schedule_loop 0 w = w"
| "schedule_loop (Suc n) w =
     (let t = length w
      in schedule_loop n
           (w @ [rol32 (w ! (t - 3) XOR w ! (t - 8) XOR w ! (t - 14) XOR w ! (t - 16)) 1]))"

definition schedule :: "byte list \<Rightarrow> u32 list" where
  "schedule block = schedule_loop 64 (map (be_word block) [0..<16])"

type_synonym hash_state = "u32 \<times> u32 \<times> u32 \<times> u32 \<times> u32"

definition sha1_round :: "u32 list \<Rightarrow> nat \<Rightarrow> hash_state \<Rightarrow> hash_state" where
  "sha1_round w t st =
     (case st of (a, b, c, d, e) \<Rightarrow>
        (rol32 a 5 + sha1_f t b c d + e + w ! t + sha1_k t, a, rol32 b 30, c, d))"

definition sha1_block :: "hash_state \<Rightarrow> byte list \<Rightarrow> hash_state" where
  "sha1_block h block =
     (case fold (sha1_round (schedule block)) [0..<80] h of
        (a, b, c, d, e) \<Rightarrow>
          case h of (h0, h1, h2, h3, h4) \<Rightarrow> (h0 + a, h1 + b, h2 + c, h3 + d, h4 + e))"

definition sha1_init :: hash_state where
  "sha1_init = (0x67452301, 0xefcdab89, 0x98badcfe, 0x10325476, 0xc3d2e1f0)"

text \<open>The loop over full blocks; it ends with the state and the unread remainder.\<close>

function full_blocks :: "hash_state \<Rightarrow> byte list \<Rightarrow> hash_state \<times> byte list" where
  "full_blocks h data =
     (if length data \<ge> 64 then full_blocks (sha1_block h (take 64 data)) (drop 64 data)
      else (h, data))"
  by pat_completeness auto
termination by (relation "measure (\<lambda>(h, data). length data)") auto

declare full_blocks.simps [simp del]

definition be_bytes64 :: "u64 \<Rightarrow> byte list" where
  "be_bytes64 bits = map (\<lambda>i. ucast (drop_bit (8 * (7 - i)) bits)) [0..<8]"

definition digest_word :: "u32 \<Rightarrow> byte list" where
  "digest_word h = [ucast (drop_bit 24 h), ucast (drop_bit 16 h), ucast (drop_bit 8 h), ucast h]"

definition strim_sha1 :: "byte list \<Rightarrow> byte list" where
  "strim_sha1 data =
     (let hr = full_blocks sha1_init data; h = fst hr; r = snd hr;
          block = r @ [0x80] @ replicate (63 - length r) 0;
          bits = of_nat (length data) * 8;
          hb = (if length r \<ge> 56 then (sha1_block h block, replicate 64 0) else (h, block))
      in case sha1_block (fst hb) (take 56 (snd hb) @ be_bytes64 bits) of
           (h0, h1, h2, h3, h4) \<Rightarrow>
             digest_word h0 @ digest_word h1 @ digest_word h2 @ digest_word h3 @ digest_word h4)"

section \<open>Base64\<close>

definition b64_alphabet :: string where
  "b64_alphabet = ''ABCDEFGHIJKLMNOPQRSTUVWXYZabcdefghijklmnopqrstuvwxyz0123456789+/''"

definition b64_digit :: "u32 \<Rightarrow> nat \<Rightarrow> char" where
  "b64_digit v k = b64_alphabet ! unat (drop_bit k v AND 0x3f)"

fun encode_quads :: "byte list \<Rightarrow> string" where
  "encode_quads (a # b # c # rest) =
     (let v = push_bit 16 (ucast a) OR push_bit 8 (ucast b) OR ucast c
      in [b64_digit v 18, b64_digit v 12, b64_digit v 6, b64_digit v 0] @ encode_quads rest)"
| "encode_quads [a] =
     (let v = push_bit 16 (ucast a) in [b64_digit v 18, b64_digit v 12, CHR ''='', CHR ''=''])"
| "encode_quads [a, b] =
     (let v = push_bit 16 (ucast a) OR push_bit 8 (ucast b)
      in [b64_digit v 18, b64_digit v 12, b64_digit v 6, CHR ''=''])"
| "encode_quads [] = []"

text \<open>
  The result is the returned length and what is left in the buffer, with its NUL;
  \<open>None\<close> when nothing is written.
\<close>

definition strim_base64_encode :: "byte list option \<Rightarrow> bool \<Rightarrow> nat \<Rightarrow> nat \<times> string option" where
  "strim_base64_encode src out_ok out_cap =
     (case src of
        None \<Rightarrow> (0, None)
      | Some bs \<Rightarrow>
          if \<not> out_ok then (0, None)
          else if out_cap < 4 * ((length bs + 2) div 3) + 1 then (0, None)
          else (length (encode_quads bs), Some (encode_quads bs @ [CHR 0x00])))"

definition b64_value :: "char \<Rightarrow> int" where
  "b64_value c =
     (let k = int (of_char c :: nat) in
      if 65 \<le> k \<and> k \<le> 90 then k - 65
      else if 97 \<le> k \<and> k \<le> 122 then k - 97 + 26
      else if 48 \<le> k \<and> k \<le> 57 then k - 48 + 52
      else if c = CHR ''+'' then 62
      else if c = CHR ''/'' then 63
      else -1)"

text \<open>Appending one byte to the output, unless the buffer is full.\<close>

definition put_byte :: "nat \<Rightarrow> int \<Rightarrow> byte list \<Rightarrow> byte list option" where
  "put_byte cap v out = (if length out + 1 > cap then None else Some (out @ [word_of_int v]))"

definition decode_quad :: "nat \<Rightarrow> char \<Rightarrow> char \<Rightarrow> char \<Rightarrow> char \<Rightarrow> byte list \<Rightarrow> byte list option" where
  "decode_quad cap c0 c1 c2 c3 out =
     (let v0 = b64_value c0; v1 = b64_value c1;
          v2 = (if c2 = CHR ''='' then 0 else b64_value c2);
          v3 = (if c3 = CHR ''='' then 0 else b64_value c3)
      in if v0 < 0 \<or> v1 < 0 \<or> v2 < 0 \<or> v3 < 0 then None
         else if c2 = CHR ''='' \<and> c3 \<noteq> CHR ''='' then None
         else case put_byte cap (push_bit 2 v0 OR drop_bit 4 v1) out of
             None \<Rightarrow> None
           | Some o1 \<Rightarrow>
               (case (if c2 \<noteq> CHR ''='' then put_byte cap (push_bit 4 v1 OR drop_bit 2 v2) o1 else Some o1) of
                  None \<Rightarrow> None
                | Some o2 \<Rightarrow>
                    (if c3 \<noteq> CHR ''='' then put_byte cap (push_bit 6 v2 OR v3) o2 else Some o2)))"

fun decode_quads :: "nat \<Rightarrow> string \<Rightarrow> byte list \<Rightarrow> byte list option" where
  "decode_quads cap (c0 # c1 # c2 # c3 # rest) out =
     (case decode_quad cap c0 c1 c2 c3 out of
        None \<Rightarrow> None
      | Some out' \<Rightarrow> decode_quads cap rest out')"
| "decode_quads cap _ out = Some out"

text \<open>0 with the decoded bytes, or -1.\<close>

definition strim_base64_decode :: "c_str \<Rightarrow> bool \<Rightarrow> nat \<Rightarrow> bool \<Rightarrow> int \<times> byte list" where
  "strim_base64_decode inp out_ok out_cap out_len_ok =
     (case inp of
        None \<Rightarrow> (-1, [])
      | Some cs \<Rightarrow>
          if \<not> out_ok \<or> \<not> out_len_ok then (-1, [])
          else if cs = [] \<or> length cs mod 4 \<noteq> 0 then (-1, [])
          else case decode_quads out_cap cs [] of
                 None \<Rightarrow> (-1, [])
               | Some bs \<Rightarrow> (0, bs))"

section \<open>Padding\<close>

text \<open>RFC 3174, section 4: a one bit, zeros up to 56 modulo 64, the 64-bit length in bits.\<close>

definition rfc_pad :: "byte list \<Rightarrow> byte list" where
  "rfc_pad m = m @ [0x80] @ replicate ((119 - length m mod 64) mod 64) 0 @
     be_bytes64 (of_nat (8 * length m))"

text \<open>The hash of the padded message, block after block.\<close>

definition rfc_sha1_state :: "byte list \<Rightarrow> hash_state" where
  "rfc_sha1_state m = fst (full_blocks sha1_init (rfc_pad m))"

definition state_bytes :: "hash_state \<Rightarrow> byte list" where
  "state_bytes h =
     (case h of (h0, h1, h2, h3, h4) \<Rightarrow>
        digest_word h0 @ digest_word h1 @ digest_word h2 @ digest_word h3 @ digest_word h4)"

lemma full_blocks_rest: "length (snd (full_blocks h data)) = length data mod 64"
proof (induction h data rule: full_blocks.induct)
  case (1 h data)
  show ?case
  proof (cases "length data \<ge> 64")
    case True
    then have "full_blocks h data = full_blocks (sha1_block h (take 64 data)) (drop 64 data)"
      by (subst full_blocks.simps) simp
    then show ?thesis using 1 [OF True] le_mod_geq [OF True] by simp
  qed (subst full_blocks.simps, simp)
qed

lemma full_blocks_append:
  "full_blocks h (data @ tail) = full_blocks (fst (full_blocks h data)) (snd (full_blocks h data) @ tail)"
proof (induction h data rule: full_blocks.induct)
  case (1 h data)
  show ?case
  proof (cases "length data \<ge> 64")
    case True
    then have "full_blocks h (data @ tail) = full_blocks (sha1_block h (take 64 data)) (drop 64 data @ tail)"
      by (subst full_blocks.simps) simp
    moreover have "full_blocks h data = full_blocks (sha1_block h (take 64 data)) (drop 64 data)"
      using True by (subst full_blocks.simps) simp
    ultimately show ?thesis using 1 True by simp
  next
    case False
    then have "full_blocks h data = (h, data)" by (subst full_blocks.simps) simp
    then show ?thesis by simp
  qed
qed

lemma be_bytes64_length [simp]: "length (be_bytes64 b) = 8"
  by (simp add: be_bytes64_def)

lemma full_blocks_one: "length b = 64 \<Longrightarrow> full_blocks h (b @ tail) = full_blocks (sha1_block h b) tail"
  by (subst full_blocks.simps) simp

lemma full_blocks_nil [simp]: "full_blocks h [] = (h, [])"
  by (subst full_blocks.simps) simp

lemma pad_zeros:
  fixes x :: nat
  assumes "x < 64"
  shows "(119 - x) mod 64 = (if x \<ge> 56 then 119 - x else 55 - x)"
proof (cases "x \<ge> 56")
  case False
  then have "119 - x = (55 - x) + 64" by simp
  then have "(119 - x) mod 64 = (55 - x) mod 64" by (metis mod_add_self2)
  then show ?thesis using False by simp
qed (use assms in simp)

text \<open>
  C29: The hash is that of RFC 3174: the state that results from running the compression over the
  blocks of the padded message. The remainder buffer, the second padding block when the length
  does not fit, and the length field are handled as the padding prescribes, for every
  message.
\<close>

theorem sha1_pads_as_rfc3174:
  "strim_sha1 data = state_bytes (rfc_sha1_state data) \<and> length (rfc_pad data) mod 64 = 0 \<and>
   length (strim_sha1 data) = 20"
proof -
  let ?h = "fst (full_blocks sha1_init data)" and ?r = "snd (full_blocks sha1_init data)"
  let ?bits = "be_bytes64 (of_nat (8 * length data))"
  have r: "length ?r = length data mod 64" by (rule full_blocks_rest)
  then have lr: "length ?r < 64" by simp
  have bits: "be_bytes64 (of_nat (length data) * 8) = ?bits" by (simp add: mult.commute)
  let ?z = "(119 - length data mod 64) mod 64"
  have pad: "full_blocks sha1_init (rfc_pad data) = full_blocks ?h (?r @ [0x80] @ replicate ?z 0 @ ?bits)"
    unfolding rfc_pad_def by (rule full_blocks_append)
  have sha: "strim_sha1 data = state_bytes (rfc_sha1_state data)"
  proof (cases "length ?r \<ge> 56")
    case True
    define b1 where "b1 = ?r @ [0x80] @ replicate (63 - length ?r) (0 :: byte)"
    have z: "?z = (63 - length ?r) + 56"
      using True lr r pad_zeros [of "length ?r"] by simp
    have eq: "?r @ [0x80] @ replicate ?z 0 @ ?bits = b1 @ (replicate 56 0 @ ?bits)"
      unfolding z b1_def by (simp add: replicate_add)
    have "length b1 = 64" using lr by (simp add: b1_def)
    then have "full_blocks sha1_init (rfc_pad data) = full_blocks (sha1_block ?h b1) (replicate 56 0 @ ?bits)"
      unfolding pad eq by (rule full_blocks_one)
    also have "\<dots> = (sha1_block (sha1_block ?h b1) (replicate 56 0 @ ?bits), [])"
      using full_blocks_one [of "replicate 56 0 @ ?bits" "sha1_block ?h b1" "[]"] by simp
    finally have "rfc_sha1_state data = sha1_block (sha1_block ?h b1) (replicate 56 0 @ ?bits)"
      by (simp add: rfc_sha1_state_def)
    then show ?thesis
      using True bits
      by (simp add: strim_sha1_def Let_def rfc_sha1_state_def state_bytes_def b1_def)
  next
    case False
    define b1 where "b1 = ?r @ [0x80] @ replicate (55 - length ?r) (0 :: byte) @ ?bits"
    have z: "?z = 55 - length ?r" using False r lr pad_zeros [of "length ?r"] by simp
    have "?r @ [0x80] @ replicate ?z 0 @ ?bits = b1" unfolding z b1_def by simp
    moreover have "length b1 = 64" using False by (simp add: b1_def)
    ultimately have "full_blocks sha1_init (rfc_pad data) = (sha1_block ?h b1, [])"
      unfolding pad using full_blocks_one [of b1 ?h "[]"] by simp
    moreover have "take 56 (?r @ [0x80] @ replicate (63 - length ?r) 0) @ ?bits = b1"
      using False unfolding b1_def by (simp add: min_def take_Cons')
    ultimately show ?thesis
      using False bits
      by (simp add: strim_sha1_def Let_def rfc_sha1_state_def state_bytes_def)
  qed
  have "length (rfc_pad data) mod 64 = 0"
  proof -
    have "length (rfc_pad data) = length data + 9 + ?z" by (simp add: rfc_pad_def)
    moreover have "\<exists>k. length data mod 64 + 9 + ?z = 64 * k"
      using pad_zeros [of "length data mod 64"] by (intro exI [of _ "if length data mod 64 \<ge> 56 then 2 else 1"]) auto
    then have "(length data mod 64 + 9 + ?z) mod 64 = 0" by auto
    ultimately show ?thesis by (metis mod_add_left_eq add.assoc)
  qed
  moreover have "length (state_bytes h) = 20" for h
    by (cases h) (simp add: state_bytes_def digest_word_def)
  ultimately show ?thesis using sha by simp
qed

section \<open>Base64 round trip\<close>

lemma alphabet_length [simp]: "length b64_alphabet = 64"
  by (simp add: b64_alphabet_def)

lemma alphabet_values:
  assumes "i < 64"
  shows "b64_value (b64_alphabet ! i) = int i" and "b64_alphabet ! i \<noteq> CHR ''=''"
proof -
  have "map b64_value b64_alphabet = map int [0..<64]"
    by (simp add: b64_alphabet_def b64_value_def upt_rec)
  then have "map b64_value b64_alphabet ! i = map int [0..<64] ! i" by simp
  then show "b64_value (b64_alphabet ! i) = int i" using assms by (simp del: upt_rec_numeral)
  have "CHR ''='' \<notin> set b64_alphabet" by (simp add: b64_alphabet_def)
  then show "b64_alphabet ! i \<noteq> CHR ''=''" using assms by (metis alphabet_length nth_mem)
qed

lemma digit_value:
  "b64_value (b64_digit v k) = uint (drop_bit k v AND 0x3f)" "b64_digit v k \<noteq> CHR ''=''"
proof -
  have "drop_bit k v AND 0x3f \<le> 0x3f" by (rule word_and_le1)
  then have "unat (drop_bit k v AND 0x3f) < 64" by (simp add: word_le_nat_alt)
  from alphabet_values [OF this]
  show "b64_value (b64_digit v k) = uint (drop_bit k v AND 0x3f)" "b64_digit v k \<noteq> CHR ''=''"
    by (simp_all add: b64_digit_def)
qed

text \<open>The bytes a full group, a group of two and a group of one decode to.\<close>

lemma less_8_cases: "n < 8 \<Longrightarrow> n = 0 \<or> n = 1 \<or> n = 2 \<or> n = 3 \<or> n = 4 \<or> n = 5 \<or> n = 6 \<or> n = (7 :: nat)"
  by presburger

lemma byte_eqI:
  fixes x y :: byte
  assumes "\<forall>n \<in> {0, 1, 2, 3, 4, 5, 6, 7}. bit x n = bit y n"
  shows "x = y"
  by (rule bit_word_eqI) (use assms less_8_cases in auto)

lemma byte_high_bit: "8 \<le> n \<Longrightarrow> \<not> bit (x :: byte) n"
  using bit_imp_le_length [of x n] by auto

lemma group_bytes:
  fixes a b c :: byte
  defines "v \<equiv> (push_bit 16 (ucast a) OR push_bit 8 (ucast b) OR ucast c :: u32)"
  shows "word_of_int (push_bit 2 (uint (drop_bit 18 v AND 0x3f)) OR drop_bit 4 (uint (drop_bit 12 v AND 0x3f))) = a"
    and "word_of_int (push_bit 4 (uint (drop_bit 12 v AND 0x3f)) OR drop_bit 2 (uint (drop_bit 6 v AND 0x3f))) = b"
    and "word_of_int (push_bit 6 (uint (drop_bit 6 v AND 0x3f)) OR uint (drop_bit 0 v AND 0x3f)) = c"
proof -
  have m: "(0x3f :: u32) = mask 6" by (simp add: mask_eq_exp_minus_1)
  show "word_of_int (push_bit 2 (uint (drop_bit 18 v AND 0x3f)) OR drop_bit 4 (uint (drop_bit 12 v AND 0x3f))) = a"
    unfolding v_def m by (rule byte_eqI, simp add: bit_simps)
      (simp add: byte_high_bit numeral_2_eq_2 numeral_3_eq_3)
  show "word_of_int (push_bit 4 (uint (drop_bit 12 v AND 0x3f)) OR drop_bit 2 (uint (drop_bit 6 v AND 0x3f))) = b"
    unfolding v_def m by (rule byte_eqI, simp add: bit_simps)
      (simp add: byte_high_bit numeral_2_eq_2 numeral_3_eq_3)
  show "word_of_int (push_bit 6 (uint (drop_bit 6 v AND 0x3f)) OR uint (drop_bit 0 v AND 0x3f)) = c"
    unfolding v_def m by (rule byte_eqI) (simp add: bit_simps)
qed

lemmas group_bytes_1 = group_bytes [where b = 0 and c = 0, simplified]
lemmas group_bytes_2 = group_bytes [where c = 0, simplified]

lemma decode_group_3:
  assumes "length out + 3 \<le> cap"
  defines "v \<equiv> \<lambda>a b c. (push_bit 16 (ucast a) OR push_bit 8 (ucast b) OR ucast c :: u32)"
  shows "decode_quad cap (b64_digit (v a b c) 18) (b64_digit (v a b c) 12) (b64_digit (v a b c) 6)
    (b64_digit (v a b c) 0) out = Some (out @ [a, b, c])"
  using assms(1) unfolding decode_quad_def v_def digit_value put_byte_def
  by (simp add: digit_value(2) group_bytes group_bytes [simplified])

lemma decode_group_2:
  assumes "length out + 2 \<le> cap"
  shows "decode_quad cap (b64_digit (push_bit 16 (ucast a) OR push_bit 8 (ucast b)) 18)
    (b64_digit (push_bit 16 (ucast a) OR push_bit 8 (ucast b)) 12)
    (b64_digit (push_bit 16 (ucast a) OR push_bit 8 (ucast b)) 6) CHR ''='' out = Some (out @ [a, b])"
  using assms unfolding decode_quad_def digit_value put_byte_def
  by (simp add: digit_value(2) group_bytes_2)

lemma decode_group_1:
  assumes "length out + 1 \<le> cap"
  shows "decode_quad cap (b64_digit (push_bit 16 (ucast a)) 18) (b64_digit (push_bit 16 (ucast a)) 12)
    CHR ''='' CHR ''='' out = Some (out @ [a])"
  using assms unfolding decode_quad_def digit_value put_byte_def
  by (simp add: digit_value(2) group_bytes_1)

lemma decode_encode:
  "length out + length bs \<le> cap \<Longrightarrow> decode_quads cap (encode_quads bs) out = Some (out @ bs)"
proof (induction bs arbitrary: out rule: encode_quads.induct)
  case (1 a b c rest)
  then show ?case by (simp add: Let_def decode_group_3 [simplified])
qed (simp_all add: Let_def decode_group_1 decode_group_2)

lemma encode_quads_length: "length (encode_quads bs) = 4 * ((length bs + 2) div 3)"
proof (induction bs rule: encode_quads.induct)
  case (1 a b c rest)
  have "length (a # b # c # rest) + 2 = (length rest + 2) + 3" by simp
  then have "(length (a # b # c # rest) + 2) div 3 = (length rest + 2) div 3 + 1"
    by (metis div_add_self2 zero_neq_numeral)
  with 1 show ?case by (simp add: Let_def)
qed (simp_all add: Let_def)



text \<open>
  Padding in the middle of the input is accepted: the padding check looks at each group of four
  alone.
\<close>

lemma base64_decode_inner_padding: "strim_base64_decode (Some ''QQ==QUJD'') True 8 True = (0, [0x41, 0x41, 0x42, 0x43])"
  by code_simp

end
