(* ===== verification/Http_Server.thy ===== *)
theory Http_Server
  imports Ws_Crypto
begin

text \<open>
  The request side of \<open>http/http_server.c\<close>: addresses, headers, routes, the write-timeout parser,
  the dispatch of a request to the controller's callbacks and the WebSocket handshake. The
  callbacks (\<open>strim_http_callbacks\<close>) are a record of functions over the state they act on.
  Text and bytes are strings. A response is built from a buffer, its size and a length; a length
  beyond the buffer is the outcome \<open>Overread\<close>, a write beyond one \<open>Overwrite\<close>, and
  \<open>No_reply\<close> is the \<open>MHD_NO\<close> that makes the library drop the connection.
\<close>

section \<open>Constants and enumerations\<close>

definition STRIM_HTTP_STATUS_MAX :: nat where "STRIM_HTTP_STATUS_MAX = 4096"
definition STRIM_HTTP_ERRBUF_MAX :: nat where "STRIM_HTTP_ERRBUF_MAX = 256"
definition STRIM_HTTP_BODY_MAX :: nat where "STRIM_HTTP_BODY_MAX = 16384"
definition STRIM_HTTP_ERR_BADJSON :: int where "STRIM_HTTP_ERR_BADJSON = -100"
definition WS_WRITE_TIMEOUT_DEFAULT_MS :: nat where "WS_WRITE_TIMEOUT_DEFAULT_MS = 5000"
definition WS_GUID :: string where "WS_GUID = ''258EAFA5-E914-47DA-95CA-C5AB0DC85B11''"
definition STRIM_BUILD_UNKNOWN :: string where "STRIM_BUILD_UNKNOWN = ''unknown''"

datatype http_method = HTTP_M_NONE | HTTP_M_GET | HTTP_M_POST | HTTP_M_OTHER

datatype http_route =
  ROUTE_NONE | ROUTE_EVENT | ROUTE_CONTROL | ROUTE_STATUS | ROUTE_SUBSCRIBE | ROUTE_HEALTHZ | ROUTE_UNKNOWN

section \<open>Small helpers\<close>

definition c_digit :: "char \<Rightarrow> nat option" where
  "c_digit ch = (let k = of_char ch :: nat in if 48 \<le> k \<and> k \<le> 57 then Some (k - 48) else None)"

fun port_digits :: "int \<Rightarrow> string \<Rightarrow> int" where
  "port_digits v [] = v"
| "port_digits v (ch # cs) =
     (case c_digit ch of
        None \<Rightarrow> -1
      | Some d \<Rightarrow> let v' = v * 10 + int d in if v' > 65535 then -1 else port_digits v' cs)"

definition parse_port :: "c_str \<Rightarrow> int" where
  "parse_port addr =
     (case addr of
        None \<Rightarrow> -1
      | Some a \<Rightarrow>
          if take 1 a \<noteq> '':'' then -1
          else let p = drop 1 a
               in if p = [] then -1 else if p = ''0'' then 0 else port_digits 0 p)"

definition c_lower :: "char \<Rightarrow> char" where
  "c_lower ch = (let k = of_char ch :: nat in if 65 \<le> k \<and> k \<le> 90 then char_of (k + 32) else ch)"

definition header_sep :: "char \<Rightarrow> bool" where
  "header_sep ch \<longleftrightarrow> ch = CHR '' '' \<or> ch = CHR 0x09 \<or> ch = CHR '',''"

definition token_here :: "string \<Rightarrow> string \<Rightarrow> bool" where
  "token_here token p \<longleftrightarrow> map c_lower (take (length token) p) = map c_lower token \<and>
     (drop (length token) p = [] \<or> header_sep (hd (drop (length token) p)))"

function token_scan :: "string \<Rightarrow> string \<Rightarrow> bool" where
  "token_scan token p =
     (let q = dropWhile header_sep p
      in if q = [] then False
         else if token_here token q then True
         else token_scan token (dropWhile (\<lambda>ch. ch \<noteq> CHR '','') q))"
  by pat_completeness auto
termination
proof (relation "measure (\<lambda>(token, p). length p)")
  fix token p and q :: string
  assume q: "q = dropWhile header_sep p" "q \<noteq> []"
  then have "\<not> header_sep (hd q)" using hd_dropWhile by blast
  then have "hd q \<noteq> CHR '',''" by (auto simp: header_sep_def)
  then have "length (dropWhile (\<lambda>ch. ch \<noteq> CHR '','') q) < length q"
    using q(2) length_dropWhile_le [of "\<lambda>ch. ch \<noteq> CHR '',''" "tl q"] by (cases q) auto
  also have "\<dots> \<le> length p" using q(1) by (simp add: length_dropWhile_le)
  finally show "((token, dropWhile (\<lambda>ch. ch \<noteq> CHR '','') q), (token, p)) \<in> measure (\<lambda>(token, p). length p)" by simp
qed simp

declare token_scan.simps [simp del]

definition header_contains_token :: "c_str \<Rightarrow> string \<Rightarrow> bool" where
  "header_contains_token val token = (case val of None \<Rightarrow> False | Some v \<Rightarrow> token_scan token v)"

definition method_kind :: "c_str \<Rightarrow> http_method" where
  "method_kind m = (if m = Some ''GET'' then HTTP_M_GET else if m = Some ''POST'' then HTTP_M_POST else HTTP_M_OTHER)"

definition method_name :: "http_method \<Rightarrow> string" where
  "method_name m = (case m of HTTP_M_GET \<Rightarrow> ''GET'' | HTTP_M_POST \<Rightarrow> ''POST'' | _ \<Rightarrow> ''?'')"

definition route_for :: "c_str \<Rightarrow> http_route" where
  "route_for url =
     (if url = Some ''/event'' then ROUTE_EVENT
      else if url = Some ''/control'' then ROUTE_CONTROL
      else if url = Some ''/status'' then ROUTE_STATUS
      else if url = Some ''/subscribe'' then ROUTE_SUBSCRIBE
      else if url = Some ''/healthz'' then ROUTE_HEALTHZ
      else ROUTE_UNKNOWN)"

text \<open>\<open>snprintf\<close> of a text into a buffer of \<open>cap\<close> bytes: what the buffer holds, and the length returned.\<close>

definition c_snprintf :: "nat \<Rightarrow> string \<Rightarrow> string \<times> nat" where
  "c_snprintf cap txt' = (take (cap - 1) txt', length txt')"

definition quoted_value :: "c_str \<Rightarrow> nat \<Rightarrow> string" where
  "quoted_value v cap = fst (c_snprintf cap (case v of None \<Rightarrow> ''(nil)'' | Some s \<Rightarrow> ''\"'' @ s @ ''\"''))"

section \<open>The write timeout\<close>

text \<open>The loops over the digits before and after the point; \<open>None\<close> is the overflow return.\<close>

fun whole_digits :: "nat \<Rightarrow> bool \<Rightarrow> string \<Rightarrow> (nat \<times> bool \<times> string) option" where
  "whole_digits v seen [] = Some (v, seen, [])"
| "whole_digits v seen (ch # cs) =
     (case c_digit ch of
        None \<Rightarrow> Some (v, seen, ch # cs)
      | Some d \<Rightarrow> if v > (2 ^ 64 - 1 - 9) div 10 then None else whole_digits (v * 10 + d) True cs)"

fun frac_digits_ms :: "nat \<Rightarrow> nat \<Rightarrow> bool \<Rightarrow> string \<Rightarrow> nat \<times> nat \<times> bool \<times> string" where
  "frac_digits_ms f n seen [] = (f, n, seen, [])"
| "frac_digits_ms f n seen (ch # cs) =
     (case c_digit ch of
        None \<Rightarrow> (f, n, seen, ch # cs)
      | Some d \<Rightarrow> if n < 9 then frac_digits_ms (f * 10 + d) (Suc n) True cs else frac_digits_ms f n True cs)"

definition unit_at :: "string \<Rightarrow> (nat \<times> string) option" where
  "unit_at p =
     (if take 2 p = ''ns'' then Some (1, drop 2 p)
      else if take 2 p = ''us'' then Some (1000, drop 2 p)
      else if take 3 p = [CHR 0xc2, CHR 0xb5, CHR ''s''] then Some (1000, drop 3 p)
      else if take 2 p = ''ms'' then Some (1000000, drop 2 p)
      else if take 1 p = ''s'' then Some (1000000000, drop 1 p)
      else if take 1 p = ''m'' then Some (60000000000, drop 1 p)
      else if take 1 p = ''h'' then Some (3600000000000, drop 1 p)
      else None)"

text \<open>One iteration: a number with its unit, added to the total; \<open>None\<close> is the error return.\<close>

definition duration_part :: "nat \<Rightarrow> string \<Rightarrow> (nat \<times> string) option" where
  "duration_part total_ns p =
     (case whole_digits 0 False p of
        None \<Rightarrow> None
      | Some (whole, seen, p1) \<Rightarrow>
          let (frac, n, seen', p2) =
                (if take 1 p1 = ''.'' then frac_digits_ms 0 0 seen (drop 1 p1) else (0, 0, seen, p1))
          in if \<not> seen' then None
             else case unit_at p2 of
                    None \<Rightarrow> None
                  | Some (unit_ns, p3) \<Rightarrow>
                      if whole > (2 ^ 64 - 1 - total_ns) div unit_ns then None
                      else let t = total_ns + whole * unit_ns;
                               part = (if n = 0 then 0
                                       else if frac \<le> (2 ^ 64 - 1) div unit_ns then frac * unit_ns div 10 ^ n
                                       else frac div 10 ^ n * unit_ns)
                           in Some ((t + part) mod 2 ^ 64, p3))"

lemma whole_digits_le: "whole_digits v seen p = Some (v', s', p') \<Longrightarrow> length p' \<le> length p"
  by (induction v seen p rule: whole_digits.induct) (auto split: option.splits if_splits)

lemma frac_digits_le: "frac_digits_ms f n seen p = (f', n', s', p') \<Longrightarrow> length p' \<le> length p"
  by (induction f n seen p rule: frac_digits_ms.induct) (auto split: option.splits if_splits)

lemma unit_at_less: "unit_at p = Some (u, p') \<Longrightarrow> length p' < length p"
  by (cases p) (auto simp: unit_at_def split: if_splits)

lemma duration_part_less: "duration_part t p = Some (t', p') \<Longrightarrow> length p' < length p"
proof -
  assume d: "duration_part t p = Some (t', p')"
  obtain w seen p1 where w: "whole_digits 0 False p = Some (w, seen, p1)"
    using d by (auto simp: duration_part_def split: option.splits)
  obtain f n s2 p2 where
    f: "(if take 1 p1 = ''.'' then frac_digits_ms 0 0 seen (drop 1 p1) else (0, 0, seen, p1)) = (f, n, s2, p2)"
    by (metis prod_cases4)
  have "length p2 \<le> length p1"
    using f frac_digits_le [of 0 0 seen "drop 1 p1" f n s2 p2] by (auto split: if_splits)
  then have "length p2 \<le> length p" using whole_digits_le [OF w] by simp
  moreover have "\<exists>u. unit_at p2 = Some (u, p')"
    using d unfolding duration_part_def w option.case prod.case f Let_def by (auto split: if_splits option.splits)
  ultimately show ?thesis using unit_at_less by fastforce
qed

function duration_parts :: "nat \<Rightarrow> string \<Rightarrow> nat option" where
  "duration_parts total_ns p =
     (if p = [] then Some total_ns
      else case duration_part total_ns p of None \<Rightarrow> None | Some (t, p') \<Rightarrow> duration_parts t p')"
  by pat_completeness auto
termination by (relation "measure (\<lambda>(t, p). length p)") (auto dest: duration_part_less)

declare duration_parts.simps [simp del]

definition parse_duration_ms :: "c_str \<Rightarrow> nat option" where
  "parse_duration_ms s =
     (case s of
        None \<Rightarrow> None
      | Some [] \<Rightarrow> None
      | Some (ch # cs) \<Rightarrow>
          let p = (if ch = CHR ''-'' \<or> ch = CHR ''+'' then cs else ch # cs)
          in map_option (\<lambda>t. if ch = CHR ''-'' then 0 else t div 1000000) (duration_parts 0 p))"

definition ws_write_timeout_from_env :: "c_str \<Rightarrow> nat" where
  "ws_write_timeout_from_env raw = (case parse_duration_ms raw of Some ms \<Rightarrow> ms | None \<Rightarrow> WS_WRITE_TIMEOUT_DEFAULT_MS)"

section \<open>Responses\<close>

record http_response =
  rs_status :: nat
  rs_content_type :: c_str
  rs_nosniff :: bool
  rs_close :: bool
  rs_version :: string
  rs_commit :: string
  rs_body :: string

datatype http_reply =
    Reply http_response
  | Switch string string string
  | No_reply
  | Overread
  | Overwrite

record build_info =
  bi_version :: string
  bi_commit :: string

text \<open>
  \<open>respond\<close> on a buffer with contents \<open>buf\<close>, of \<open>cap\<close> bytes with the terminator; \<open>mhd_ok\<close> says whether
  the library could create the response. A null body has length 0.
\<close>

definition respond ::
  "build_info \<Rightarrow> bool \<Rightarrow> nat \<Rightarrow> c_str \<Rightarrow> bool \<Rightarrow> string \<Rightarrow> nat \<Rightarrow> nat \<Rightarrow> bool \<Rightarrow> http_reply" where
  "respond b mhd_ok status ctype nosniff buf cap n close =
     (if n > cap then Overread
      else if \<not> mhd_ok then No_reply
      else Reply \<lparr>rs_status = status, rs_content_type = ctype, rs_nosniff = nosniff, rs_close = close,
             rs_version = bi_version b, rs_commit = bi_commit b,
             rs_body = take n (buf @ replicate (cap - length buf) (CHR 0x00))\<rparr>)"

definition text_plain :: c_str where "text_plain = Some ''text/plain; charset=utf-8''"

text \<open>A string literal and the length written beside it.\<close>

definition respond_text :: "build_info \<Rightarrow> bool \<Rightarrow> nat \<Rightarrow> string \<Rightarrow> nat \<Rightarrow> bool \<Rightarrow> http_reply" where
  "respond_text b mhd_ok status lit n close = respond b mhd_ok status text_plain True lit (length lit + 1) n close"

section \<open>Callbacks and sessions\<close>

text \<open>The callbacks a request can reach: a return code with the text or body they write, and the new state.\<close>

record 'u http_callbacks =
  cb_handle_event :: "'u \<Rightarrow> string \<Rightarrow> (int \<times> string) \<times> 'u"
  cb_handle_control :: "'u \<Rightarrow> string \<Rightarrow> (int \<times> string) \<times> 'u"
  cb_handle_status :: "'u \<Rightarrow> (int \<times> string) \<times> 'u"
  cb_request_reconcile :: "'u \<Rightarrow> 'u"

record http_session =
  hs_method :: http_method
  hs_route :: http_route
  hs_body_overflow :: bool
  hs_client_idx :: int
  hs_body :: string

record http_headers =
  hh_connection :: c_str
  hh_upgrade :: c_str
  hh_version :: c_str
  hh_key :: c_str

section \<open>Dispatch\<close>

definition dispatch_post ::
  "build_info \<Rightarrow> bool \<Rightarrow> 'u http_callbacks \<Rightarrow> http_session \<Rightarrow> bool \<Rightarrow> 'u \<Rightarrow> http_reply \<times> 'u" where
  "dispatch_post b mhd_ok cbs s close u =
     (if hs_method s \<noteq> HTTP_M_POST then (respond_text b mhd_ok 405 (''method not allowed'' @ [CHR 0x0A]) 19 close, u)
      else if hs_body_overflow s then (respond b mhd_ok 413 text_plain True [] 1 0 close, u)
      else
        case (if hs_route s = ROUTE_EVENT then cb_handle_event cbs u (hs_body s) else cb_handle_control cbs u (hs_body s)) of
          ((rc, err), u1) \<Rightarrow>
            if rc = 0 then (respond b mhd_ok 204 None False [] 1 0 close, cb_request_reconcile cbs u1)
            else if rc = STRIM_HTTP_ERR_BADJSON then
              let (body, bl) = c_snprintf (STRIM_HTTP_ERRBUF_MAX + 16) (''bad json: '' @ err @ [CHR 0x0A])
              in (respond b mhd_ok 400 text_plain True body (STRIM_HTTP_ERRBUF_MAX + 16) bl close, u1)
            else
              let err' = (if length err + 1 < STRIM_HTTP_ERRBUF_MAX then err @ [CHR 0x0A] else err)
              in (respond b mhd_ok 500 text_plain True err' STRIM_HTTP_ERRBUF_MAX (length err') close, u1))"

text \<open>A violation text built in \<open>body\<close>, a buffer of \<open>STRIM_HTTP_ERRBUF_MAX + 32\<close> bytes.\<close>

definition violation :: "build_info \<Rightarrow> bool \<Rightarrow> nat \<Rightarrow> string \<Rightarrow> bool \<Rightarrow> http_reply" where
  "violation b mhd_ok status txt' close =
     (let (body, bl) = c_snprintf (STRIM_HTTP_ERRBUF_MAX + 32) (''WebSocket protocol violation: '' @ txt' @ [CHR 0x0A])
      in respond b mhd_ok status text_plain True body (STRIM_HTTP_ERRBUF_MAX + 32) bl close)"

text \<open>\<open>base64(sha1(key + GUID))\<close> in a buffer of 32 bytes; the header value ends at the terminator.\<close>

definition accept_key :: "string \<Rightarrow> string option" where
  "accept_key key =
     (let r = strim_base64_encode (Some (strim_sha1 (map of_char (key @ WS_GUID)))) True 32
      in if fst r = 0 then None else map_option (takeWhile (\<lambda>ch. ch \<noteq> CHR 0x00)) (snd r))"

definition dispatch_subscribe ::
  "build_info \<Rightarrow> bool \<Rightarrow> http_headers \<Rightarrow> http_session \<Rightarrow> bool \<Rightarrow> http_reply" where
  "dispatch_subscribe b mhd_ok h s close =
     (if \<not> header_contains_token (hh_connection h) ''upgrade'' then
        violation b mhd_ok 426 (''Connection header '' @ quoted_value (hh_connection h) STRIM_HTTP_ERRBUF_MAX @
          '' does not contain Upgrade'') close
      else if \<not> header_contains_token (hh_upgrade h) ''websocket'' then
        violation b mhd_ok 426 (''Upgrade header '' @ quoted_value (hh_upgrade h) STRIM_HTTP_ERRBUF_MAX @
          '' does not contain websocket'') close
      else if hs_method s \<noteq> HTTP_M_GET then
        violation b mhd_ok 405 (''handshake request method is not GET but '' @ [CHR 0x22] @ method_name (hs_method s) @ [CHR 0x22]) close
      else if hh_version h \<noteq> Some ''13'' then
        violation b mhd_ok 426 ''unsupported WebSocket version requested (only 13 is supported)'' close
      else case hh_key h of
        None \<Rightarrow> respond_text b mhd_ok 400 (''WebSocket protocol violation: missing Sec-WebSocket-Key'' @ [CHR 0x0A]) 58 close
      | Some key \<Rightarrow>
          if key = [] then
            respond_text b mhd_ok 400 (''WebSocket protocol violation: missing Sec-WebSocket-Key'' @ [CHR 0x0A]) 58 close
          else let d = strim_base64_decode (Some key) True 16 True
               in if fst d \<noteq> 0 \<or> length (snd d) \<noteq> 16 then
                    respond_text b mhd_ok 400 (''WebSocket protocol violation: invalid Sec-WebSocket-Key'' @ [CHR 0x0A]) 59 close
                  else if length key + length WS_GUID > 128 then Overwrite
                  else case accept_key key of
                         None \<Rightarrow> No_reply
                       | Some acc \<Rightarrow> if mhd_ok then Switch acc (bi_version b) (bi_commit b) else No_reply)"

definition conn_wants_close :: "http_headers \<Rightarrow> bool" where
  "conn_wants_close h = header_contains_token (hh_connection h) ''close''"

definition dispatch ::
  "build_info \<Rightarrow> bool \<Rightarrow> 'u http_callbacks \<Rightarrow> http_headers \<Rightarrow> http_session \<Rightarrow> 'u \<Rightarrow> http_reply \<times> 'u" where
  "dispatch b mhd_ok cbs h s u =
     (let close = conn_wants_close h
      in case hs_route s of
           ROUTE_UNKNOWN \<Rightarrow> (respond_text b mhd_ok 404 (''404 page not found'' @ [CHR 0x0A]) 19 close, u)
         | ROUTE_HEALTHZ \<Rightarrow> (respond b mhd_ok 200 text_plain False (''ok'' @ [CHR 0x0A]) 4 3 close, u)
         | ROUTE_STATUS \<Rightarrow>
             if hs_method s \<noteq> HTTP_M_GET then (respond_text b mhd_ok 405 (''method not allowed'' @ [CHR 0x0A]) 19 close, u)
             else (case cb_handle_status cbs u of
                     ((rc, out), u1) \<Rightarrow>
                       if rc \<noteq> 0 \<or> out = [] then (respond b mhd_ok 500 text_plain True [] 1 0 close, u1)
                       else (respond b mhd_ok 200 (Some ''application/json'') False out STRIM_HTTP_STATUS_MAX (length out) close, u1))
         | ROUTE_EVENT \<Rightarrow> dispatch_post b mhd_ok cbs s close u
         | ROUTE_CONTROL \<Rightarrow> dispatch_post b mhd_ok cbs s close u
         | ROUTE_SUBSCRIBE \<Rightarrow> (dispatch_subscribe b mhd_ok h s close, u)
         | ROUTE_NONE \<Rightarrow> (No_reply, u))"

section \<open>The access handler\<close>

text \<open>
  The calls the library makes for one request: the first without a session, then one per piece of
  the body, then the last with an empty piece. \<open>None\<close> as the reply is the \<open>MHD_YES\<close> that asks for more.
\<close>

definition open_session :: "c_str \<Rightarrow> c_str \<Rightarrow> http_session" where
  "open_session meth url = \<lparr>hs_method = method_kind meth, hs_route = route_for url, hs_body_overflow = False,
     hs_client_idx = -1, hs_body = []\<rparr>"

definition take_upload :: "string \<Rightarrow> http_session \<Rightarrow> http_session" where
  "take_upload chunk s =
     (if length (hs_body s) + length chunk \<le> STRIM_HTTP_BODY_MAX then s\<lparr>hs_body := hs_body s @ chunk\<rparr>
      else s\<lparr>hs_body_overflow := True\<rparr>)"

definition answer_cb ::
  "build_info \<Rightarrow> bool \<Rightarrow> bool \<Rightarrow> 'u http_callbacks \<Rightarrow> c_str \<Rightarrow> c_str \<Rightarrow> http_headers \<Rightarrow> string \<Rightarrow>
   http_session option \<Rightarrow> 'u \<Rightarrow> http_reply option \<times> http_session option \<times> 'u" where
  "answer_cb b alloc_ok mhd_ok cbs url meth h chunk so u =
     (case so of
        None \<Rightarrow> if alloc_ok then (None, Some (open_session meth url), u) else (Some No_reply, None, u)
      | Some s \<Rightarrow>
          if chunk \<noteq> [] then (None, Some (take_upload chunk s), u)
          else case dispatch b mhd_ok cbs h s u of (r, u1) \<Rightarrow> (Some r, Some s, u1))"

text \<open>A whole request: the headers, the pieces of the body as they arrive, the end.\<close>

definition serve_request ::
  "build_info \<Rightarrow> 'u http_callbacks \<Rightarrow> c_str \<Rightarrow> c_str \<Rightarrow> http_headers \<Rightarrow> string list \<Rightarrow> 'u \<Rightarrow> http_reply \<times> 'u" where
  "serve_request b cbs url meth h chunks u =
     (let step = (\<lambda>chunk (r, so, u). answer_cb b True True cbs url meth h chunk so u);
          (r1, so1, u1) = fold step chunks (answer_cb b True True cbs url meth h [] None u)
      in case answer_cb b True True cbs url meth h [] so1 u1 of
           (Some r, _, u2) \<Rightarrow> (r, u2)
         | (None, _, u2) \<Rightarrow> (No_reply, u2))"

section \<open>Starting\<close>

record http_server =
  sv_port :: int
  sv_ws_write_timeout_ms :: nat
  sv_build :: build_info

definition normalize_build_value :: "c_str \<Rightarrow> string" where
  "normalize_build_value v = (case v of None \<Rightarrow> STRIM_BUILD_UNKNOWN | Some s \<Rightarrow> if s = [] then STRIM_BUILD_UNKNOWN else s)"

text \<open>
  \<open>args_ok\<close>: the result pointer and the callback bundle are there and complete; \<open>active\<close>: another server runs;
  \<open>daemon\<close>: whether the library starts on a port, and the port it then reports, if any; \<open>raw\<close>: the timeout variable.
\<close>

definition strim_http_server_start ::
  "bool \<Rightarrow> c_str \<Rightarrow> bool \<Rightarrow> bool \<Rightarrow> (int \<Rightarrow> int option option) \<Rightarrow> c_str \<Rightarrow> c_str \<Rightarrow> c_str \<Rightarrow> int \<times> http_server option" where
  "strim_http_server_start args_ok addr active alloc_ok daemon raw version commit =
     (let port = parse_port addr
      in if \<not> args_ok \<or> addr = None \<or> active \<or> port < 0 \<or> \<not> alloc_ok then (-1, None)
         else case daemon port of
                None \<Rightarrow> (-1, None)
              | Some info \<Rightarrow>
                  (0, Some \<lparr>sv_port = (case info of None \<Rightarrow> port | Some p \<Rightarrow> p),
                     sv_ws_write_timeout_ms = ws_write_timeout_from_env raw,
                     sv_build = \<lparr>bi_version = normalize_build_value version, bi_commit = normalize_build_value commit\<rparr>\<rparr>))"

text \<open>No response has an empty build header: the values the server keeps are never empty.\<close>

lemma build_never_empty:
  "strim_http_server_start args_ok addr active alloc_ok daemon raw version commit = (0, Some sv) \<Longrightarrow>
   bi_version (sv_build sv) \<noteq> [] \<and> bi_commit (sv_build sv) \<noteq> []"
  by (auto simp: strim_http_server_start_def normalize_build_value_def STRIM_BUILD_UNKNOWN_def Let_def
      split: if_splits option.splits)

text \<open>A fraction of a large unit is dropped instead of rounded, and a sign alone is a duration.\<close>

lemma timeout_parser_quirks:
  "parse_duration_ms (Some ''0.99999999h'') = Some 0" "parse_duration_ms (Some ''-'') = Some 0"
  by (simp_all add: parse_duration_ms_def duration_parts.simps duration_part_def c_digit_def unit_at_def Let_def)

section \<open>Header tokens\<close>

text \<open>The elements between the commas of a header value, and the first word of an element.\<close>

fun comma_elements :: "string \<Rightarrow> string list" where
  "comma_elements [] = [[]]"
| "comma_elements (ch # cs) =
     (if ch = CHR '','' then [] # comma_elements cs
      else case comma_elements cs of e # es \<Rightarrow> (ch # e) # es | [] \<Rightarrow> [[ch]])"

definition first_word :: "string \<Rightarrow> string" where
  "first_word e = takeWhile (\<lambda>ch. \<not> header_sep ch) (dropWhile header_sep e)"

definition has_word :: "string \<Rightarrow> string \<Rightarrow> bool" where
  "has_word t v \<longleftrightarrow> (\<exists>e\<in>set (comma_elements v). map c_lower (first_word e) = map c_lower t)"

lemma comma_elements_ne [simp]: "comma_elements v \<noteq> []"
  by (cases v) (auto split: list.splits)

lemma first_word_sep [simp]: "header_sep ch \<Longrightarrow> first_word (ch # e) = first_word e"
  by (simp add: first_word_def)

lemma first_word_nil [simp]: "first_word [] = []"
  by (simp add: first_word_def)

lemma has_word_sep: "header_sep ch \<Longrightarrow> t \<noteq> [] \<Longrightarrow> has_word t (ch # v) = has_word t v"
  by (cases "comma_elements v") (auto simp: has_word_def)

lemma has_word_drop_seps: "t \<noteq> [] \<Longrightarrow> has_word t (dropWhile header_sep v) = has_word t v"
  by (induction v) (simp_all add: has_word_sep)

lemma comma_elements_split:
  "comma_elements v = takeWhile (\<lambda>ch. ch \<noteq> CHR '','') v # tl (comma_elements (dropWhile (\<lambda>ch. ch \<noteq> CHR '','') v))"
  by (induction v) (auto split: list.splits)

lemma has_word_rest:
  assumes "t \<noteq> []"
  shows "has_word t (dropWhile (\<lambda>ch. ch \<noteq> CHR '','') v) \<longleftrightarrow>
    (\<exists>e\<in>set (tl (comma_elements (dropWhile (\<lambda>ch. ch \<noteq> CHR '','') v))). map c_lower (first_word e) = map c_lower t)"
proof (cases "dropWhile (\<lambda>ch. ch \<noteq> CHR '','') v")
  case (Cons ch cs)
  moreover have "ch = CHR '',''"
    using hd_dropWhile [of "\<lambda>ch. ch \<noteq> CHR '',''" v] Cons by simp
  ultimately show ?thesis using assms by (simp add: has_word_def)
next
  case Nil
  show ?thesis using assms unfolding Nil by (simp add: has_word_def)
qed

lemma has_word_step:
  assumes "t \<noteq> []" "q \<noteq> []" "\<not> header_sep (hd q)"
  shows "has_word t q \<longleftrightarrow> map c_lower (takeWhile (\<lambda>ch. \<not> header_sep ch) q) = map c_lower t \<or>
    has_word t (dropWhile (\<lambda>ch. ch \<noteq> CHR '','') q)"
proof -
  have d: "dropWhile header_sep (takeWhile (\<lambda>ch. ch \<noteq> CHR '','') q) = takeWhile (\<lambda>ch. ch \<noteq> CHR '','') q"
    using assms(2,3) by (cases q) auto
  have "takeWhile (\<lambda>ch. \<not> header_sep ch) (takeWhile (\<lambda>ch. ch \<noteq> CHR '','') q) = takeWhile (\<lambda>ch. \<not> header_sep ch) q"
    by (induction q) (auto simp: header_sep_def)
  then have "first_word (takeWhile (\<lambda>ch. ch \<noteq> CHR '','') q) = takeWhile (\<lambda>ch. \<not> header_sep ch) q"
    by (simp add: first_word_def d)
  then have "has_word t q \<longleftrightarrow> map c_lower (takeWhile (\<lambda>ch. \<not> header_sep ch) q) = map c_lower t \<or>
      (\<exists>e\<in>set (tl (comma_elements (dropWhile (\<lambda>ch. ch \<noteq> CHR '','') q))). map c_lower (first_word e) = map c_lower t)"
    unfolding has_word_def by (subst comma_elements_split) simp
  then show ?thesis by (simp only: has_word_rest [OF assms(1)])
qed

lemma header_sep_code: "header_sep ch \<longleftrightarrow> (of_char ch :: nat) \<in> {32, 9, 44}"
  unfolding header_sep_def of_char_eq_iff [where 'a = nat, symmetric] by simp

lemma c_lower_sep: "header_sep (c_lower ch) = header_sep ch"
  by (auto simp: c_lower_def header_sep_code Let_def of_char_of)

lemma c_lower_sep_eq: "c_lower a = c_lower b \<Longrightarrow> header_sep a = header_sep b"
  using c_lower_sep by metis

lemma token_here_word:
  assumes t: "\<forall>ch\<in>set t. \<not> header_sep ch"
  shows "token_here t q \<longleftrightarrow> map c_lower (takeWhile (\<lambda>ch. \<not> header_sep ch) q) = map c_lower t"
proof
  assume h: "token_here t q"
  then have m: "map c_lower (take (length t) q) = map c_lower t" by (simp add: token_here_def)
  have "\<forall>ch\<in>set (take (length t) q). \<not> header_sep (c_lower ch)"
  proof
    fix ch assume "ch \<in> set (take (length t) q)"
    then have "c_lower ch \<in> set (map c_lower t)" using m by (metis image_eqI list.set_map)
    then show "\<not> header_sep (c_lower ch)" using t by (auto simp: c_lower_sep dest: c_lower_sep_eq)
  qed
  then have "\<forall>ch\<in>set (take (length t) q). \<not> header_sep ch" by (simp add: c_lower_sep)
  then have "takeWhile (\<lambda>ch. \<not> header_sep ch) (take (length t) q @ drop (length t) q) =
      take (length t) q @ takeWhile (\<lambda>ch. \<not> header_sep ch) (drop (length t) q)"
    by (intro takeWhile_append2) auto
  moreover have "takeWhile (\<lambda>ch. \<not> header_sep ch) (drop (length t) q) = []"
    using h by (cases "drop (length t) q") (auto simp: token_here_def)
  ultimately show "map c_lower (takeWhile (\<lambda>ch. \<not> header_sep ch) q) = map c_lower t" using m by simp
next
  assume m: "map c_lower (takeWhile (\<lambda>ch. \<not> header_sep ch) q) = map c_lower t"
  then have l: "length (takeWhile (\<lambda>ch. \<not> header_sep ch) q) = length t" by (metis length_map)
  have "take (length t) q = takeWhile (\<lambda>ch. \<not> header_sep ch) q"
    using l by (metis takeWhile_eq_take)
  moreover have "drop (length t) q = dropWhile (\<lambda>ch. \<not> header_sep ch) q"
    using l by (metis dropWhile_eq_drop)
  ultimately show "token_here t q" using m hd_dropWhile [of "\<lambda>ch. \<not> header_sep ch" q]
    by (auto simp: token_here_def)
qed

lemma token_scan_word:
  assumes "t \<noteq> []" "\<forall>ch\<in>set t. \<not> header_sep ch"
  shows "token_scan t p = has_word t p"
  using assms
proof (induction t p rule: token_scan.induct)
  case (1 t p)
  define q where "q = dropWhile header_sep p"
  have hp: "has_word t p = has_word t q" using has_word_drop_seps [OF "1.prems"(1)] by (simp add: q_def)
  show ?case
  proof (cases "q = []")
    case True
    then show ?thesis
      using hp "1.prems"(1) by (subst token_scan.simps) (simp add: q_def [symmetric] Let_def has_word_def)
  next
    case False
    have hs: "\<not> header_sep (hd q)" using False hd_dropWhile unfolding q_def by blast
    show ?thesis
      using "1.IH" [OF q_def False _ "1.prems"] False hp has_word_step [OF "1.prems"(1) False hs]
        token_here_word [OF "1.prems"(2)]
      by (subst token_scan.simps) (auto simp: q_def [symmetric] Let_def)
  qed
qed

text \<open>A header that names a token: some element starts with the word, in any letter case.\<close>

definition names_token :: "c_str \<Rightarrow> string \<Rightarrow> bool" where
  "names_token v t \<longleftrightarrow> (\<exists>s. v = Some s \<and> has_word t s)"

lemma header_contains_token_exact:
  assumes "t \<noteq> []" "\<forall>ch\<in>set t. \<not> header_sep ch"
  shows "header_contains_token v t = names_token v t"
  using token_scan_word [OF assms] by (auto simp: header_contains_token_def names_token_def split: option.splits)

lemma handshake_tokens:
  "header_contains_token v ''upgrade'' = names_token v ''upgrade''"
  "header_contains_token v ''websocket'' = names_token v ''websocket''"
  by (rule header_contains_token_exact; simp add: header_sep_def)+

text \<open>
  The comment of the scan speaks of values separated by commas or blanks, but only the first word
  of an element is looked at.
\<close>

lemma second_word_ignored: "\<not> header_contains_token (Some ''x upgrade'') ''upgrade''"
proof -
  have "map c_lower (first_word ''x upgrade'') \<noteq> map c_lower ''upgrade''" by code_simp
  moreover have "comma_elements ''x upgrade'' = [''x upgrade'']" by simp
  ultimately show ?thesis unfolding handshake_tokens names_token_def has_word_def by auto
qed

section \<open>The handshake\<close>

lemma put_byte_length: "put_byte cap v out = Some bs \<Longrightarrow> length bs = Suc (length out)"
  by (auto simp: put_byte_def split: if_splits)

lemma decode_quad_length: "decode_quad cap a b c d out = Some bs \<Longrightarrow> Suc (length out) \<le> length bs"
  by (auto simp: decode_quad_def Let_def split: if_splits option.splits dest!: put_byte_length)

lemma decode_quads_length:
  "decode_quads cap cs out = Some bs \<Longrightarrow> length cs mod 4 = 0 \<Longrightarrow> length cs + 4 * length out \<le> 4 * length bs"
proof (induction cap cs out rule: decode_quads.induct)
  case (1 cap a b c d rest out)
  obtain o1 where o: "decode_quad cap a b c d out = Some o1" "decode_quads cap rest o1 = Some bs"
    using "1.prems"(1) by (cases "decode_quad cap a b c d out") simp_all
  have "length rest mod 4 = 0" using "1.prems"(2) by (simp add: mod_Suc split: if_splits)
  then show ?case using "1.IH" [OF o] decode_quad_length [OF o(1)] by simp
qed simp_all

lemma handshake_key_short:
  assumes "strim_base64_decode (Some key) True 16 True = (0, bs)" "length bs = 16"
  shows "length key \<le> 64"
  using assms decode_quads_length [of 16 key "[]" bs]
  by (auto simp: strim_base64_decode_def split: if_splits option.splits)

lemma digest_word_length [simp]: "length (digest_word w) = 4"
  by (simp add: digest_word_def)

lemma sha1_length [simp]: "length (strim_sha1 m) = 20"
proof -
  define hs where "hs = (let hr = full_blocks sha1_init m; h = fst hr; r = snd hr;
      block = r @ [0x80] @ replicate (63 - length r) 0;
      bits = of_nat (length m) * 8;
      hb = (if length r \<ge> 56 then (sha1_block h block, replicate 64 0) else (h, block))
    in sha1_block (fst hb) (take 56 (snd hb) @ be_bytes64 bits))"
  obtain h0 h1 h2 h3 h4 where hs: "hs = (h0, h1, h2, h3, h4)" by (metis prod_cases5)
  have "strim_sha1 m = (case hs of (h0, h1, h2, h3, h4) \<Rightarrow>
      digest_word h0 @ digest_word h1 @ digest_word h2 @ digest_word h3 @ digest_word h4)"
    by (simp only: strim_sha1_def hs_def Let_def)
  then show ?thesis by (simp add: hs)
qed

lemma b64_digit_in: "b64_digit v k \<in> set b64_alphabet"
proof -
  have "drop_bit k v AND 0x3f \<le> (0x3f :: u32)" by (rule word_and_le1)
  then have "unat (drop_bit k v AND 0x3f) < 64" by (simp add: word_le_nat_alt)
  then show ?thesis unfolding b64_digit_def by (intro nth_mem) simp
qed

lemma alphabet_no_nul: "CHR 0x00 \<notin> set b64_alphabet"
  by (simp add: b64_alphabet_def)

lemma b64_digit_not_nul [simp]: "b64_digit v k \<noteq> CHR 0x00"
  using b64_digit_in [of v k] alphabet_no_nul by metis

lemma encode_no_nul: "CHR 0x00 \<notin> set (encode_quads bs)"
  by (induction bs rule: encode_quads.induct) (auto simp: Let_def b64_digit_not_nul [symmetric])

lemma accept_key_exact: "accept_key key = Some (encode_quads (strim_sha1 (map of_char (key @ WS_GUID))))"
proof -
  define d where "d = strim_sha1 (map of_char (key @ WS_GUID))"
  have n: "length d = 20" by (simp only: d_def sha1_length)
  then have l: "length (encode_quads d) = 28" by (simp add: encode_quads_length)
  then have ne: "encode_quads d \<noteq> []" by auto
  have t: "takeWhile (\<lambda>ch. ch \<noteq> CHR 0x00) (encode_quads d @ [CHR 0x00]) = encode_quads d"
    using encode_no_nul [of d] by (subst takeWhile_append2) auto
  show ?thesis
    unfolding accept_key_def d_def [symmetric] by (simp add: strim_base64_encode_def Let_def n ne t)
qed

lemma guid_length [simp]: "length WS_GUID = 36"
  by (simp add: WS_GUID_def)

lemma respond_no_switch [simp]:
  "respond b m st ct ns buf cap n cl \<noteq> Switch acc v c" "respond b m st ct ns buf cap n cl \<noteq> Overwrite"
  by (simp_all add: respond_def)

lemma respond_text_no_switch [simp]:
  "respond_text b m st lit n cl \<noteq> Switch acc v c" "respond_text b m st lit n cl \<noteq> Overwrite"
  by (simp_all add: respond_text_def)

lemma violation_no_switch [simp]:
  "violation b m st txt' cl \<noteq> Switch acc v c" "violation b m st txt' cl \<noteq> Overwrite"
  by (simp_all add: violation_def Let_def split: prod.split)

text \<open>
  C31: The server switches protocols exactly for a \<open>GET\<close> whose \<open>Connection\<close> header names \<open>upgrade\<close> and whose
  \<open>Upgrade\<close> header names \<open>websocket\<close> (as the first word of one of their comma-separated elements, in any letter
  case), with version 13 and a key that decodes to sixteen bytes, when the library can create
  the response, and answers with the base64 of the SHA-1 of the key and the protocol's
  identifier; whatever the key, the 128-byte scratch buffer in which the two are joined is not overrun.
\<close>

theorem handshake_exact:
  "dispatch_subscribe b True h s close \<noteq> Overwrite \<and>
   (dispatch_subscribe b True h s close = Switch acc v c \<longleftrightarrow>
      names_token (hh_connection h) ''upgrade'' \<and> names_token (hh_upgrade h) ''websocket'' \<and>
      hs_method s = HTTP_M_GET \<and> hh_version h = Some ''13'' \<and> v = bi_version b \<and> c = bi_commit b \<and>
      (\<exists>key bs. hh_key h = Some key \<and> strim_base64_decode (Some key) True 16 True = (0, bs) \<and> length bs = 16 \<and>
         acc = encode_quads (strim_sha1 (map of_char (key @ WS_GUID)))))"
proof (cases "hh_key h")
  case None
  then show ?thesis by (simp add: dispatch_subscribe_def)
next
  case (Some key)
  obtain rc bs where d: "strim_base64_decode (Some key) True 16 True = (rc, bs)" by fastforce
  have ne: "rc = 0 \<Longrightarrow> key \<noteq> []" using d by (auto simp: strim_base64_decode_def)
  have "rc = 0 \<Longrightarrow> length bs = 16 \<Longrightarrow> length key + 36 \<le> 128" using handshake_key_short [of key bs] d by simp
  then show ?thesis
    using ne Some by (auto simp: dispatch_subscribe_def d accept_key_exact handshake_tokens Let_def)
qed

text \<open>The two texts about the key are shorter than the lengths beside them.\<close>

lemma missing_key_overread:
  assumes "header_contains_token (hh_connection h) ''upgrade''" "header_contains_token (hh_upgrade h) ''websocket''"
    "hs_method s = HTTP_M_GET" "hh_version h = Some ''13''" "hh_key h = None \<or> hh_key h = Some ''AAAA''"
  shows "dispatch_subscribe b mhd_ok h s close = Overread"
proof -
  have "fst (strim_base64_decode (Some ''AAAA'') True 16 True) = 0 \<and>
      length (snd (strim_base64_decode (Some ''AAAA'') True 16 True)) = 3" by code_simp
  then show ?thesis using assms by (auto simp: dispatch_subscribe_def respond_text_def respond_def Let_def)
qed

text \<open>A long header value overruns the text that quotes it.\<close>

lemma long_connection_overread:
  "dispatch_subscribe b mhd_ok
     \<lparr>hh_connection = Some (replicate 300 (CHR ''a'')), hh_upgrade = None, hh_version = None, hh_key = None\<rparr> s close = Overread"
proof -
  have l: "length (quoted_value (Some (replicate 300 (CHR ''a''))) STRIM_HTTP_ERRBUF_MAX) = 255"
    by (simp add: quoted_value_def c_snprintf_def STRIM_HTTP_ERRBUF_MAX_def)
  have "\<not> token_scan ''upgrade'' (replicate 300 (CHR ''a''))"
    by (subst token_scan.simps) (simp add: token_scan.simps Let_def token_here_def header_sep_def take_replicate c_lower_def)
  then show ?thesis
    using l by (simp add: dispatch_subscribe_def header_contains_token_def violation_def c_snprintf_def respond_def Let_def
      STRIM_HTTP_ERRBUF_MAX_def)
qed

section \<open>Posted events and commands\<close>

text \<open>What an answer looks like to the client.\<close>

definition answer :: "build_info \<Rightarrow> http_headers \<Rightarrow> nat \<Rightarrow> c_str \<Rightarrow> bool \<Rightarrow> string \<Rightarrow> http_reply" where
  "answer b h status ctype nosniff body =
     Reply \<lparr>rs_status = status, rs_content_type = ctype, rs_nosniff = nosniff, rs_close = conn_wants_close h,
       rs_version = bi_version b, rs_commit = bi_commit b, rs_body = body\<rparr>"

lemma respond_answer:
  "length buf \<le> cap \<Longrightarrow> n \<le> length buf \<Longrightarrow>
   respond b True status ctype nosniff buf cap n (conn_wants_close h) = answer b h status ctype nosniff (take n buf)"
  by (simp add: respond_def answer_def)

lemma respond_text_answer:
  "n = length lit \<Longrightarrow> respond_text b True status lit n (conn_wants_close h) = answer b h status text_plain True lit"
  by (simp add: respond_text_def respond_answer)

text \<open>The body while its pieces arrive.\<close>

lemma uploads_fit:
  "length (hs_body s @ concat chunks) \<le> STRIM_HTTP_BODY_MAX \<Longrightarrow>
   fold take_upload chunks s = s\<lparr>hs_body := hs_body s @ concat chunks\<rparr>"
proof (induction chunks arbitrary: s)
  case (Cons ch chunks)
  then have "take_upload ch s = s\<lparr>hs_body := hs_body s @ ch\<rparr>" by (simp add: take_upload_def)
  then show ?case using Cons.prems Cons.IH [of "s\<lparr>hs_body := hs_body s @ ch\<rparr>"] by simp
qed simp

lemma take_upload_frame [simp]:
  "hs_method (take_upload ch s) = hs_method s" "hs_route (take_upload ch s) = hs_route s"
  by (simp_all add: take_upload_def)

lemma uploads_frame:
  "hs_method (fold take_upload chunks s) = hs_method s \<and> hs_route (fold take_upload chunks s) = hs_route s"
  by (induction chunks arbitrary: s) simp_all

lemma overflow_sticks: "hs_body_overflow s \<Longrightarrow> hs_body_overflow (fold take_upload chunks s)"
  by (induction chunks arbitrary: s) (simp_all add: take_upload_def)

lemma uploads_overflow:
  "length (hs_body s @ concat chunks) > STRIM_HTTP_BODY_MAX \<Longrightarrow> length (hs_body s) \<le> STRIM_HTTP_BODY_MAX \<Longrightarrow>
   hs_body_overflow (fold take_upload chunks s)"
proof (induction chunks arbitrary: s)
  case (Cons ch chunks)
  show ?case
  proof (cases "length (hs_body s) + length ch \<le> STRIM_HTTP_BODY_MAX")
    case True
    then have "take_upload ch s = s\<lparr>hs_body := hs_body s @ ch\<rparr>" by (simp add: take_upload_def)
    then show ?thesis using True Cons.IH [of "s\<lparr>hs_body := hs_body s @ ch\<rparr>"] Cons.prems by simp
  next
    case False
    then have "hs_body_overflow (take_upload ch s)" by (simp add: take_upload_def)
    then show ?thesis by (simp add: overflow_sticks)
  qed
qed simp

lemma serve_pieces:
  "[] \<notin> set chunks \<Longrightarrow>
   fold (\<lambda>chunk (r, so, u). answer_cb b True True cbs url meth h chunk so u) chunks (None, Some s, u) =
     (None, Some (fold take_upload chunks s), u)"
proof (induction chunks arbitrary: s)
  case (Cons ch chunks)
  then have "answer_cb b True True cbs url meth h ch (Some s) u = (None, Some (take_upload ch s), u)"
    by (auto simp: answer_cb_def)
  then show ?case using Cons by simp
qed simp

lemma serve_request_eq:
  assumes "[] \<notin> set chunks"
  shows "serve_request b cbs url meth h chunks u = dispatch b True cbs h (fold take_upload chunks (open_session meth url)) u"
proof -
  have "answer_cb b True True cbs url meth h [] None u = (None, Some (open_session meth url), u)"
    by (simp add: answer_cb_def)
  then show ?thesis
    using serve_pieces [OF assms, of b cbs url meth h "open_session meth url" u]
    by (simp add: serve_request_def Let_def answer_cb_def split: prod.split)
qed

lemma post_handled:
  assumes "hs_method s = HTTP_M_POST" "\<not> hs_body_overflow s" "length err < STRIM_HTTP_ERRBUF_MAX"
    and call: "(if hs_route s = ROUTE_EVENT then cb_handle_event cbs u (hs_body s) else cb_handle_control cbs u (hs_body s)) = ((rc, err), u1)"
  shows "dispatch_post b True cbs s (conn_wants_close h) u =
    (if rc = 0 then (answer b h 204 None False [], cb_request_reconcile cbs u1)
     else if rc = STRIM_HTTP_ERR_BADJSON then (answer b h 400 text_plain True (''bad json: '' @ err @ [CHR 0x0A]), u1)
     else (answer b h 500 text_plain True (if length err + 1 < STRIM_HTTP_ERRBUF_MAX then err @ [CHR 0x0A] else err), u1))"
  unfolding dispatch_post_def call prod.case
  using assms(1-3) by (simp add: c_snprintf_def respond_answer Let_def STRIM_HTTP_ERRBUF_MAX_def)

text \<open>
  C32: A request to \<open>/event\<close> or \<open>/control\<close> reaches its handler only as a \<open>POST\<close> whose body is at most 16384
  bytes, and then once and with exactly the bytes that were sent, however the library cut them
  into pieces. A handler that succeeds is followed by a reconcile request and answered 204; its
  errors are answered 400 (bad JSON) or 500 with its text, without one. Anything else is answered 405
  or 413 and leaves the controller alone. Every answer carries the build's version and commit and says
  \<open>close\<close> exactly when the client did. This is for requests whose session and response could be allocated
  and handlers that keep their error text within the buffer they get.
\<close>

theorem post_served_exact:
  assumes "[] \<notin> set chunks"
    and "url = Some ''/event'' \<and> handle = cb_handle_event cbs \<or> url = Some ''/control'' \<and> handle = cb_handle_control cbs"
    and "handle u (concat chunks) = ((rc, err), u1)" and "length err < STRIM_HTTP_ERRBUF_MAX"
  shows "serve_request b cbs url meth h chunks u =
    (if meth \<noteq> Some ''POST'' then (answer b h 405 text_plain True (''method not allowed'' @ [CHR 0x0A]), u)
     else if length (concat chunks) > STRIM_HTTP_BODY_MAX then (answer b h 413 text_plain True [], u)
     else if rc = 0 then (answer b h 204 None False [], cb_request_reconcile cbs u1)
     else if rc = STRIM_HTTP_ERR_BADJSON then (answer b h 400 text_plain True (''bad json: '' @ err @ [CHR 0x0A]), u1)
     else (answer b h 500 text_plain True (if length err + 1 < STRIM_HTTP_ERRBUF_MAX then err @ [CHR 0x0A] else err), u1))"
proof -
  define s where "s = fold take_upload chunks (open_session meth url)"
  have m: "hs_method s = HTTP_M_POST \<longleftrightarrow> meth = Some ''POST''"
    using uploads_frame [of chunks "open_session meth url"] by (simp add: s_def open_session_def method_kind_def)
  have r: "hs_route s = (if url = Some ''/event'' then ROUTE_EVENT else ROUTE_CONTROL)"
    using uploads_frame [of chunks "open_session meth url"] assms(2) by (auto simp: s_def open_session_def route_for_def)
  have big: "hs_body_overflow s" if "length (concat chunks) > STRIM_HTTP_BODY_MAX"
    using uploads_overflow [of "open_session meth url" chunks] that by (simp add: s_def open_session_def)
  have small: "\<not> hs_body_overflow s" "hs_body s = concat chunks" if "\<not> length (concat chunks) > STRIM_HTTP_BODY_MAX"
    using uploads_fit [of "open_session meth url" chunks] that by (simp_all add: s_def open_session_def)
  have call: "(if hs_route s = ROUTE_EVENT then cb_handle_event cbs u (concat chunks)
      else cb_handle_control cbs u (concat chunks)) = ((rc, err), u1)" using assms(2,3) r by auto
  have "serve_request b cbs url meth h chunks u = dispatch_post b True cbs s (conn_wants_close h) u"
    unfolding serve_request_eq [OF assms(1)] s_def [symmetric] using r by (simp add: dispatch_def Let_def)
  moreover have "dispatch_post b True cbs s (conn_wants_close h) u =
      (answer b h 405 text_plain True (''method not allowed'' @ [CHR 0x0A]), u)" if "meth \<noteq> Some ''POST''"
    using that m by (simp add: dispatch_post_def respond_text_answer)
  moreover have "dispatch_post b True cbs s (conn_wants_close h) u = (answer b h 413 text_plain True [], u)"
    if "meth = Some ''POST''" "length (concat chunks) > STRIM_HTTP_BODY_MAX"
    using that m big by (simp add: dispatch_post_def respond_answer)
  moreover have "dispatch_post b True cbs s (conn_wants_close h) u =
      (if rc = 0 then (answer b h 204 None False [], cb_request_reconcile cbs u1)
       else if rc = STRIM_HTTP_ERR_BADJSON then (answer b h 400 text_plain True (''bad json: '' @ err @ [CHR 0x0A]), u1)
       else (answer b h 500 text_plain True (if length err + 1 < STRIM_HTTP_ERRBUF_MAX then err @ [CHR 0x0A] else err), u1))"
    if "meth = Some ''POST''" "\<not> length (concat chunks) > STRIM_HTTP_BODY_MAX"
    using that m by (intro post_handled small(1) assms(4) call [folded small(2) [OF that(2)]]) simp_all
  ultimately show ?thesis by metis
qed

text \<open>Callbacks that note the bodies they are given and the reconcile requests.\<close>

definition demo_callbacks :: "string list http_callbacks" where
  "demo_callbacks = \<lparr>cb_handle_event = (\<lambda>u body. ((0, []), u @ [body])), cb_handle_control = (\<lambda>u body. ((0, []), u @ [body])),
     cb_handle_status = (\<lambda>u. ((0, ''{}''), u)), cb_request_reconcile = (\<lambda>u. u @ [''reconcile''])\<rparr>"

definition demo_build :: build_info where
  "demo_build = \<lparr>bi_version = ''1'', bi_commit = ''c''\<rparr>"

definition demo_headers :: http_headers where
  "demo_headers = \<lparr>hh_connection = None, hh_upgrade = None, hh_version = None, hh_key = None\<rparr>"

theorem post_served_exact_witness:
  "serve_request demo_build demo_callbacks (Some ''/event'') (Some ''POST'') demo_headers [''{pa'', ''th}''] [] =
     (answer demo_build demo_headers 204 None False [], [''{path}'', ''reconcile''])"
  using post_served_exact [of "[''{pa'', ''th}'']" "Some ''/event''" "cb_handle_event demo_callbacks" demo_callbacks "[]" 0 "[]"
      "[''{path}'']" demo_build "Some ''POST''" demo_headers]
  by (simp add: STRIM_HTTP_ERRBUF_MAX_def STRIM_HTTP_BODY_MAX_def demo_callbacks_def)

end
