(* ===== verification/Huffman.thy ===== *)
theory Huffman
  imports Prelude
begin

text \<open>
  The Huffman decoder of \<open>containerd/h2c.c\<close> (RFC 7541 appendix B): the table of
  \<open>h2c_huff.inc\<close>, the trie that \<open>huff_build\<close> lays out in an array of nodes linked by indices, and
  the bit loop of \<open>huff_decode\<close>. The array is shown to represent a binary tree, the tree to
  be the code tree of the table, and the decoder to accept exactly the strings that are a
  sequence of code words followed by at most seven one bits.
\<close>

unbundle bit_operations_syntax

section \<open>The table and the trie\<close>

definition HUFF_TABLE :: "(u32 \<times> nat) list" where
  "HUFF_TABLE =
   [(8184, 13), (8388568, 23), (268435426, 28), (268435427, 28), (268435428, 28),
    (268435429, 28), (268435430, 28), (268435431, 28), (268435432, 28), (16777194, 24),
    (1073741820, 30), (268435433, 28), (268435434, 28), (1073741821, 30), (268435435, 28),
    (268435436, 28), (268435437, 28), (268435438, 28), (268435439, 28), (268435440, 28),
    (268435441, 28), (268435442, 28), (1073741822, 30), (268435443, 28), (268435444, 28),
    (268435445, 28), (268435446, 28), (268435447, 28), (268435448, 28), (268435449, 28),
    (268435450, 28), (268435451, 28), (20, 6), (1016, 10), (1017, 10), (4090, 12), (8185, 13),
    (21, 6), (248, 8), (2042, 11), (1018, 10), (1019, 10), (249, 8), (2043, 11), (250, 8),
    (22, 6), (23, 6), (24, 6), (0, 5), (1, 5), (2, 5), (25, 6), (26, 6), (27, 6), (28, 6),
    (29, 6), (30, 6), (31, 6), (92, 7), (251, 8), (32764, 15), (32, 6), (4091, 12), (1020, 10),
    (8186, 13), (33, 6), (93, 7), (94, 7), (95, 7), (96, 7), (97, 7), (98, 7), (99, 7), (100, 7),
    (101, 7), (102, 7), (103, 7), (104, 7), (105, 7), (106, 7), (107, 7), (108, 7), (109, 7),
    (110, 7), (111, 7), (112, 7), (113, 7), (114, 7), (252, 8), (115, 7), (253, 8), (8187, 13),
    (524272, 19), (8188, 13), (16380, 14), (34, 6), (32765, 15), (3, 5), (35, 6), (4, 5),
    (36, 6), (5, 5), (37, 6), (38, 6), (39, 6), (6, 5), (116, 7), (117, 7), (40, 6), (41, 6),
    (42, 6), (7, 5), (43, 6), (118, 7), (44, 6), (8, 5), (9, 5), (45, 6), (119, 7), (120, 7),
    (121, 7), (122, 7), (123, 7), (32766, 15), (2044, 11), (16381, 14), (8189, 13),
    (268435452, 28), (1048550, 20), (4194258, 22), (1048551, 20), (1048552, 20), (4194259, 22),
    (4194260, 22), (4194261, 22), (8388569, 23), (4194262, 22), (8388570, 23), (8388571, 23),
    (8388572, 23), (8388573, 23), (8388574, 23), (16777195, 24), (8388575, 23), (16777196, 24),
    (16777197, 24), (4194263, 22), (8388576, 23), (16777198, 24), (8388577, 23), (8388578, 23),
    (8388579, 23), (8388580, 23), (2097116, 21), (4194264, 22), (8388581, 23), (4194265, 22),
    (8388582, 23), (8388583, 23), (16777199, 24), (4194266, 22), (2097117, 21), (1048553, 20),
    (4194267, 22), (4194268, 22), (8388584, 23), (8388585, 23), (2097118, 21), (8388586, 23),
    (4194269, 22), (4194270, 22), (16777200, 24), (2097119, 21), (4194271, 22), (8388587, 23),
    (8388588, 23), (2097120, 21), (2097121, 21), (4194272, 22), (2097122, 21), (8388589, 23),
    (4194273, 22), (8388590, 23), (8388591, 23), (1048554, 20), (4194274, 22), (4194275, 22),
    (4194276, 22), (8388592, 23), (4194277, 22), (4194278, 22), (8388593, 23), (67108832, 26),
    (67108833, 26), (1048555, 20), (524273, 19), (4194279, 22), (8388594, 23), (4194280, 22),
    (33554412, 25), (67108834, 26), (67108835, 26), (67108836, 26), (134217694, 27),
    (134217695, 27), (67108837, 26), (16777201, 24), (33554413, 25), (524274, 19), (2097123, 21),
    (67108838, 26), (134217696, 27), (134217697, 27), (67108839, 26), (134217698, 27),
    (16777202, 24), (2097124, 21), (2097125, 21), (67108840, 26), (67108841, 26),
    (268435453, 28), (134217699, 27), (134217700, 27), (134217701, 27), (1048556, 20),
    (16777203, 24), (1048557, 20), (2097126, 21), (4194281, 22), (2097127, 21), (2097128, 21),
    (8388595, 23), (4194282, 22), (4194283, 22), (33554414, 25), (33554415, 25), (16777204, 24),
    (16777205, 24), (67108842, 26), (8388596, 23), (67108843, 26), (134217702, 27),
    (67108844, 26), (67108845, 26), (134217703, 27), (134217704, 27), (134217705, 27),
    (134217706, 27), (134217707, 27), (268435454, 28), (134217708, 27), (134217709, 27),
    (134217710, 27), (134217711, 27), (134217712, 27), (67108846, 26), (1073741823, 30)]"

definition H2C_HUFF_NODES :: nat where
  "H2C_HUFF_NODES = 1024"

record huff_node =
  child0 :: int
  child1 :: int
  hn_sym :: int

definition no_node :: huff_node where
  "no_node = \<lparr>child0 = -1, child1 = -1, hn_sym = -1\<rparr>"

definition huff_next :: "huff_node list \<Rightarrow> nat \<Rightarrow> bool \<Rightarrow> int" where
  "huff_next nodes node b = (if b then child1 (nodes ! node) else child0 (nodes ! node))"

definition huff_link :: "huff_node list \<Rightarrow> nat \<Rightarrow> bool \<Rightarrow> int \<Rightarrow> huff_node list" where
  "huff_link nodes node b next =
     nodes[node := (if b then (nodes ! node)\<lparr>child1 := next\<rparr> else (nodes ! node)\<lparr>child0 := next\<rparr>)]"

text \<open>The inner loop: walk the bits of one code, growing the trie; \<open>None\<close> when the array is full.\<close>

fun huff_insert :: "huff_node list \<Rightarrow> nat \<Rightarrow> bool list \<Rightarrow> (huff_node list \<times> nat) option" where
  "huff_insert nodes node [] = Some (nodes, node)"
| "huff_insert nodes node (b # bs) =
     (let next = huff_next nodes node b
      in if next < 0 then
           if length nodes \<ge> H2C_HUFF_NODES then None
           else huff_insert (huff_link (nodes @ [no_node]) node b (int (length nodes))) (length nodes) bs
         else huff_insert nodes (nat next) bs)"

definition code_bits :: "u32 \<times> nat \<Rightarrow> bool list" where
  "code_bits e = map (bit (fst e)) (rev [0..<snd e])"

fun huff_build_from :: "nat \<Rightarrow> (u32 \<times> nat) list \<Rightarrow> huff_node list \<Rightarrow> huff_node list option" where
  "huff_build_from i [] nodes = Some nodes"
| "huff_build_from i (e # es) nodes =
     (case huff_insert nodes 0 (code_bits e) of
        None \<Rightarrow> None
      | Some (nodes', node) \<Rightarrow>
          huff_build_from (Suc i) es (nodes'[node := (nodes' ! node)\<lparr>hn_sym := int i\<rparr>]))"

definition huff_build :: "huff_node list option" where
  "huff_build = huff_build_from 0 HUFF_TABLE [no_node]"

section \<open>The decoder\<close>

definition byte_bits :: "byte \<Rightarrow> bool list" where
  "byte_bits b = map (bit b) (rev [0..<8])"

record huff_state =
  hs_node :: nat
  hs_pad_ones :: bool
  hs_depth :: nat
  hs_out :: "byte list"

definition huff_start :: huff_state where
  "huff_start = \<lparr>hs_node = 0, hs_pad_ones = True, hs_depth = 0, hs_out = []\<rparr>"

text \<open>One bit: \<open>None\<close> is the early return of \<open>-1\<close>.\<close>

definition huff_bit :: "huff_node list \<Rightarrow> nat \<Rightarrow> bool \<Rightarrow> huff_state \<Rightarrow> huff_state option" where
  "huff_bit nodes out_cap b st =
     (let next = huff_next nodes (hs_node st) b
      in if next < 0 then None
         else let s = hn_sym (nodes ! nat next)
              in if s \<ge> 0 then
                   if s = 256 then None
                   else if length (hs_out st) \<ge> out_cap then None
                   else Some \<lparr>hs_node = 0, hs_pad_ones = True, hs_depth = 0,
                              hs_out = hs_out st @ [word_of_int s]\<rparr>
                 else Some \<lparr>hs_node = nat next, hs_pad_ones = hs_pad_ones st \<and> b,
                            hs_depth = Suc (hs_depth st), hs_out = hs_out st\<rparr>)"

fun huff_loop :: "huff_node list \<Rightarrow> nat \<Rightarrow> bool list \<Rightarrow> huff_state \<Rightarrow> huff_state option" where
  "huff_loop nodes out_cap [] st = Some st"
| "huff_loop nodes out_cap (b # bs) st =
     (case huff_bit nodes out_cap b st of
        None \<Rightarrow> None
      | Some st' \<Rightarrow> huff_loop nodes out_cap bs st')"

definition huff_decode :: "byte list \<Rightarrow> nat \<Rightarrow> byte list option" where
  "huff_decode inp out_cap =
     (case huff_build of
        None \<Rightarrow> None
      | Some nodes \<Rightarrow>
          case huff_loop nodes out_cap (concat (map byte_bits inp)) huff_start of
            None \<Rightarrow> None
          | Some st \<Rightarrow>
              if hs_node st \<noteq> 0 \<and> (\<not> hs_pad_ones st \<or> hs_depth st > 7) then None
              else Some (hs_out st))"

section \<open>The array represents a binary tree\<close>

datatype htree = HEmpty | HNode int htree htree

fun rep :: "huff_node list \<Rightarrow> int \<Rightarrow> htree \<Rightarrow> bool" where
  "rep nodes c HEmpty \<longleftrightarrow> c < 0"
| "rep nodes c (HNode s l r) \<longleftrightarrow>
     0 \<le> c \<and> nat c < length nodes \<and> hn_sym (nodes ! nat c) = s \<and>
     rep nodes (child0 (nodes ! nat c)) l \<and> rep nodes (child1 (nodes ! nat c)) r"

fun cells :: "huff_node list \<Rightarrow> int \<Rightarrow> htree \<Rightarrow> nat list" where
  "cells nodes c HEmpty = []"
| "cells nodes c (HNode s l r) =
     nat c # cells nodes (child0 (nodes ! nat c)) l @ cells nodes (child1 (nodes ! nat c)) r"

text \<open>Insertion into the tree, counting the nodes it adds.\<close>

fun tins :: "bool list \<Rightarrow> int \<Rightarrow> htree \<Rightarrow> htree" where
  "tins [] s HEmpty = HNode s HEmpty HEmpty"
| "tins [] s (HNode _ l r) = HNode s l r"
| "tins (b # bs) s HEmpty =
     (if b then HNode (-1) HEmpty (tins bs s HEmpty) else HNode (-1) (tins bs s HEmpty) HEmpty)"
| "tins (b # bs) s (HNode v l r) =
     (if b then HNode v l (tins bs s r) else HNode v (tins bs s l) r)"

fun tsize :: "htree \<Rightarrow> nat" where
  "tsize HEmpty = 0"
| "tsize (HNode _ l r) = Suc (tsize l + tsize r)"

fun tbuild :: "nat \<Rightarrow> bool list list \<Rightarrow> htree \<Rightarrow> htree" where
  "tbuild i [] t = t"
| "tbuild i (c # cs) t = tbuild (Suc i) cs (tins c (int i) t)"

lemma length_cells: "length (cells nodes c t) = tsize t"
  by (induction t arbitrary: c) auto

lemma cells_bound: "rep nodes c t \<Longrightarrow> set (cells nodes c t) \<subseteq> {..<length nodes}"
  by (induction t arbitrary: c) auto

lemma rep_frame:
  assumes "rep nodes c t" and "\<forall>i \<in> set (cells nodes c t). nodes' ! i = nodes ! i"
    and "length nodes \<le> length nodes'"
  shows "rep nodes' c t \<and> cells nodes' c t = cells nodes c t"
  using assms by (induction t arbitrary: c) auto


text \<open>
  The two subtrees of a node, by the bit that selects them. A tree is laid out well when the
  array represents it and no cell is used twice.
\<close>

fun tsub :: "bool \<Rightarrow> htree \<Rightarrow> htree" where
  "tsub b HEmpty = HEmpty"
| "tsub b (HNode _ l r) = (if b then r else l)"

fun tsym :: "htree \<Rightarrow> int" where
  "tsym HEmpty = -1"
| "tsym (HNode v _ _) = v"

definition laid_out :: "huff_node list \<Rightarrow> int \<Rightarrow> htree \<Rightarrow> bool" where
  "laid_out nodes c t \<longleftrightarrow> rep nodes c t \<and> distinct (cells nodes c t)"

lemma laid_out_node:
  assumes "t \<noteq> HEmpty"
  shows "laid_out nodes (int c) t \<longleftrightarrow>
    c < length nodes \<and> hn_sym (nodes ! c) = tsym t \<and>
    laid_out nodes (huff_next nodes c b) (tsub b t) \<and>
    laid_out nodes (huff_next nodes c (\<not> b)) (tsub (\<not> b) t) \<and>
    c \<notin> set (cells nodes (huff_next nodes c b) (tsub b t)) \<and>
    c \<notin> set (cells nodes (huff_next nodes c (\<not> b)) (tsub (\<not> b) t)) \<and>
    set (cells nodes (huff_next nodes c b) (tsub b t)) \<inter>
      set (cells nodes (huff_next nodes c (\<not> b)) (tsub (\<not> b) t)) = {}"
  using assms by (cases t) (auto simp: laid_out_def huff_next_def)

lemma cells_node:
  assumes "t \<noteq> HEmpty"
  shows "set (cells nodes (int c) t) =
    insert c (set (cells nodes (huff_next nodes c b) (tsub b t)) \<union>
      set (cells nodes (huff_next nodes c (\<not> b)) (tsub (\<not> b) t)))"
  using assms by (cases t) (auto simp: huff_next_def)

lemma laid_out_frame:
  assumes "laid_out nodes c t" and "\<forall>i \<in> set (cells nodes c t). nodes' ! i = nodes ! i"
    and "length nodes \<le> length nodes'"
  shows "laid_out nodes' c t \<and> cells nodes' c t = cells nodes c t"
  using assms rep_frame unfolding laid_out_def by metis

lemma tins_Cons:
  "t \<noteq> HEmpty \<Longrightarrow> tsub b (tins (b # bs) s t) = tins bs s (tsub b t)"
  "t \<noteq> HEmpty \<Longrightarrow> tsub (\<not> b) (tins (b # bs) s t) = tsub (\<not> b) t"
  "tins bs s t \<noteq> HEmpty"
  "t \<noteq> HEmpty \<Longrightarrow> tsym (tins (b # bs) s t) = tsym t"
  "t \<noteq> HEmpty \<Longrightarrow> tsize (tins (b # bs) s t) + tsize (tsub b t) = tsize t + tsize (tins bs s (tsub b t))"
  by (cases t; cases bs; cases b; simp; fail)+

lemma tins_no_node: "tins bs s (HNode (-1) HEmpty HEmpty) = tins bs s HEmpty"
  by (cases bs) auto

definition with_sym :: "huff_node list \<Rightarrow> nat \<Rightarrow> int \<Rightarrow> huff_node list" where
  "with_sym nodes m s = nodes[m := (nodes ! m)\<lparr>hn_sym := s\<rparr>]"

text \<open>What an insertion below cell \<open>c\<close> does to the array.\<close>

definition grown :: "huff_node list \<Rightarrow> huff_node list \<Rightarrow> nat \<Rightarrow> htree \<Rightarrow> htree \<Rightarrow> bool" where
  "grown nodes N c t u \<longleftrightarrow>
     laid_out N (int c) u \<and>
     set (cells N (int c) u) \<subseteq> set (cells nodes (int c) t) \<union> {length nodes..<length N} \<and>
     (\<forall>i < length nodes. i \<notin> set (cells nodes (int c) t) \<longrightarrow> N ! i = nodes ! i) \<and>
     length N + tsize t = length nodes + tsize u \<and> length nodes \<le> length N"

lemma grown_step:
  assumes t: "t \<noteq> HEmpty" "laid_out nodes (int c) t"
    and x: "huff_next nodes c b = int x"
    and g: "grown nodes N x (tsub b t) (tins bs s (tsub b t))"
  shows "grown nodes N c t (tins (b # bs) s t)"
proof -
  let ?u = "tins (b # bs) s t"
  note lt = t(2) [unfolded laid_out_node [OF t(1), of nodes c b]]
  note gd = g [unfolded grown_def]
  have c: "N ! c = nodes ! c" using lt gd x by simp
  have nx: "huff_next N c b' = huff_next nodes c b'" for b' using c by (simp add: huff_next_def)
  have cb: "set (cells nodes (huff_next nodes c (\<not> b)) (tsub (\<not> b) t)) \<subseteq> {..<length nodes}"
    using lt cells_bound unfolding laid_out_def by blast
  then have fr: "laid_out N (huff_next nodes c (\<not> b)) (tsub (\<not> b) t) \<and>
      cells N (huff_next nodes c (\<not> b)) (tsub (\<not> b) t) = cells nodes (huff_next nodes c (\<not> b)) (tsub (\<not> b) t)"
    using lt gd x by (intro laid_out_frame) auto
  have low: "i \<in> set (cells nodes (int x) (tsub b t)) \<or> length nodes \<le> i"
    if "i \<in> set (cells N (int x) (tins bs s (tsub b t)))" for i using gd that by auto
  have "c < length nodes" "c \<notin> set (cells nodes (int x) (tsub b t))" using lt x by auto
  then have "c \<notin> set (cells N (int x) (tins bs s (tsub b t)))" using low by fastforce
  moreover have "set (cells N (int x) (tins bs s (tsub b t))) \<inter>
      set (cells nodes (huff_next nodes c (\<not> b)) (tsub (\<not> b) t)) = {}"
    using low cb lt x by fastforce
  ultimately have "laid_out N (int c) ?u"
    unfolding laid_out_node [OF tins_Cons(3), of N c "b # bs" s t b] nx tins_Cons(1) [OF t(1)]
      tins_Cons(2) [OF t(1)] tins_Cons(4) [OF t(1)]
    using lt gd fr x c by simp
  moreover have "set (cells N (int c) ?u) \<subseteq> set (cells nodes (int c) t) \<union> {length nodes..<length N}"
    unfolding cells_node [OF tins_Cons(3), of N c "b # bs" s t b] cells_node [OF t(1), of nodes c b]
      nx tins_Cons(1) [OF t(1)] tins_Cons(2) [OF t(1)]
    using gd fr x by auto
  moreover have "\<forall>i < length nodes. i \<notin> set (cells nodes (int c) t) \<longrightarrow> N ! i = nodes ! i"
    unfolding cells_node [OF t(1), of nodes c b] using gd x by auto
  moreover have "length N + tsize t = length nodes + tsize ?u"
    using gd tins_Cons(5) [OF t(1), of b bs s] by linarith
  ultimately show ?thesis using gd unfolding grown_def by blast
qed


lemma grown_trans: "grown nodes A c t u \<Longrightarrow> grown A B c u w \<Longrightarrow> grown nodes B c t w"
  unfolding grown_def by (auto simp: subset_iff) (metis atLeastLessThan_iff leD order_less_le_trans)+

fun tleaf :: "bool \<Rightarrow> htree \<Rightarrow> htree" where
  "tleaf b HEmpty = HEmpty"
| "tleaf b (HNode v l r) =
     (if b then HNode v l (HNode (-1) HEmpty HEmpty) else HNode v (HNode (-1) HEmpty HEmpty) r)"

lemma tleaf_simps:
  assumes "t \<noteq> HEmpty"
  shows "tleaf b t \<noteq> HEmpty" and "tsub b (tleaf b t) = HNode (-1) HEmpty HEmpty"
    and "tsub (\<not> b) (tleaf b t) = tsub (\<not> b) t" and "tsym (tleaf b t) = tsym t"
    and "tsub b t = HEmpty \<Longrightarrow> tsize (tleaf b t) = Suc (tsize t)"
    and "tsub b t = HEmpty \<Longrightarrow> tins (b # bs) s (tleaf b t) = tins (b # bs) s t"
  using assms by (cases t; cases b; simp add: tins_no_node; fail)+

lemma grown_link:
  assumes t: "t \<noteq> HEmpty" "laid_out nodes (int c) t" and x: "huff_next nodes c b < 0"
  shows "grown nodes (huff_link (nodes @ [no_node]) c b (int (length nodes))) c t (tleaf b t)"
proof -
  let ?n = "length nodes" and ?N = "huff_link (nodes @ [no_node]) c b (int (length nodes))"
  note lt = t(2) [unfolded laid_out_node [OF t(1), of nodes c b]]
  have e: "tsub b t = HEmpty" using lt x by (cases "tsub b t") (auto simp: laid_out_def)
  have len: "length ?N = Suc ?n" by (simp add: huff_link_def)
  have old: "?N ! i = nodes ! i" if "i < ?n" "i \<noteq> c" for i
    using that by (simp add: huff_link_def nth_append)
  have new: "?N ! ?n = no_node" "hn_sym (?N ! c) = hn_sym (nodes ! c)"
      "huff_next ?N c b = int ?n" "huff_next ?N c (\<not> b) = huff_next nodes c (\<not> b)"
    using lt by (auto simp: huff_link_def huff_next_def nth_append)
  have cb: "set (cells nodes (huff_next nodes c (\<not> b)) (tsub (\<not> b) t)) \<subseteq> {..<?n}"
    using lt cells_bound unfolding laid_out_def by blast
  then have fr: "laid_out ?N (huff_next nodes c (\<not> b)) (tsub (\<not> b) t) \<and>
      cells ?N (huff_next nodes c (\<not> b)) (tsub (\<not> b) t) = cells nodes (huff_next nodes c (\<not> b)) (tsub (\<not> b) t)"
    using lt old len by (intro laid_out_frame) auto
  have leaf: "laid_out ?N (int ?n) (HNode (-1) HEmpty HEmpty)" "cells ?N (int ?n) (HNode (-1) HEmpty HEmpty) = [?n]"
    using new(1) len by (simp_all add: laid_out_def no_node_def)
  have "laid_out ?N (int c) (tleaf b t)"
    unfolding laid_out_node [OF tleaf_simps(1) [OF t(1)], of ?N c b b] tleaf_simps(2-4) [OF t(1)] new(2-4)
    using lt fr leaf cb len by auto
  moreover have "set (cells ?N (int c) (tleaf b t)) \<subseteq> set (cells nodes (int c) t) \<union> {?n..<length ?N}"
    unfolding cells_node [OF tleaf_simps(1) [OF t(1)], of ?N c b b] cells_node [OF t(1), of nodes c b]
      tleaf_simps(2-4) [OF t(1)] new(3,4)
    using fr leaf len by auto
  moreover have "\<forall>i < ?n. i \<notin> set (cells nodes (int c) t) \<longrightarrow> ?N ! i = nodes ! i"
    unfolding cells_node [OF t(1), of nodes c b] using old by auto
  ultimately show ?thesis using len tleaf_simps(5) [OF t(1) e] unfolding grown_def by simp
qed

lemma grown_sym:
  assumes "t \<noteq> HEmpty" "laid_out nodes (int c) t"
  shows "grown nodes (with_sym nodes c s) c t (tins [] s t)"
proof -
  obtain v l r where t: "t = HNode v l r" using assms(1) by (cases t) auto
  note lt = assms(2) [unfolded laid_out_node [OF assms(1), of nodes c True]]
  have old: "with_sym nodes c s ! i = nodes ! i" if "i \<noteq> c" for i using that by (simp add: with_sym_def)
  have nx: "huff_next (with_sym nodes c s) c b = huff_next nodes c b" for b
    using lt by (simp add: huff_next_def with_sym_def)
  have nc: "c \<notin> set (cells nodes (huff_next nodes c b) (tsub b t))" for b using lt by (cases b) simp_all
  have lo: "laid_out nodes (huff_next nodes c b) (tsub b t)" for b using lt by (cases b) simp_all
  have fr: "laid_out (with_sym nodes c s) (huff_next nodes c b) (tsub b t) \<and>
      cells (with_sym nodes c s) (huff_next nodes c b) (tsub b t) = cells nodes (huff_next nodes c b) (tsub b t)" for b
    by (rule laid_out_frame [OF lo]) (use old nc [of b] in metis, simp add: with_sym_def)
  have u: "tins [] s t \<noteq> HEmpty" "tsub b (tins [] s t) = tsub b t" "tsym (tins [] s t) = s" for b
    by (simp_all add: t)
  have "laid_out (with_sym nodes c s) (int c) (tins [] s t)"
    unfolding laid_out_node [OF u(1), of "with_sym nodes c s" c True] nx u(2,3)
    using lt fr [of True] fr [of False] by (simp add: with_sym_def)
  moreover have "set (cells (with_sym nodes c s) (int c) (tins [] s t)) = set (cells nodes (int c) t)"
    unfolding cells_node [OF u(1), of "with_sym nodes c s" c True] cells_node [OF assms(1), of nodes c True] nx u(2)
    using fr [of True] fr [of False] by simp
  moreover have "c \<in> set (cells nodes (int c) t)" by (simp add: t)
  ultimately show ?thesis using old by (auto simp: grown_def t with_sym_def)
qed

lemma grown_insert:
  assumes "huff_insert nodes c bs = Some (nodes', m)" "t \<noteq> HEmpty" "laid_out nodes (int c) t"
  shows "grown nodes (with_sym nodes' m s) c t (tins bs s t)"
  using assms
proof (induction bs arbitrary: nodes c t)
  case Nil
  then show ?case using grown_sym [OF Nil(2,3)] by simp
next
  case (Cons b bs)
  show ?case
  proof (cases "huff_next nodes c b < 0")
    case True
    let ?N = "huff_link (nodes @ [no_node]) c b (int (length nodes))"
    have g: "grown nodes ?N c t (tleaf b t)" using grown_link [OF Cons.prems(2,3) True] .
    then have lay: "laid_out ?N (int c) (tleaf b t)" by (simp add: grown_def)
    have e: "tsub b t = HEmpty" using True Cons.prems(3) laid_out_node [OF Cons.prems(2), of nodes c b]
      by (cases "tsub b t") (auto simp: laid_out_def)
    note ts = tleaf_simps [OF Cons.prems(2), of b]
    have c: "c < length nodes" using Cons.prems(3) laid_out_node [OF Cons.prems(2), of nodes c b] by simp
    have nx: "huff_next ?N c b = int (length nodes)"
      using c by (simp add: huff_link_def huff_next_def nth_append)
    have "laid_out ?N (int (length nodes)) (tsub b (tleaf b t))"
      using lay laid_out_node [OF ts(1), of ?N c b] nx by simp
    then have "grown ?N (with_sym nodes' m s) (length nodes) (tsub b (tleaf b t)) (tins bs s (tsub b (tleaf b t)))"
      using Cons.prems(1) True ts(2) by (intro Cons.IH) (auto simp: Let_def split: if_splits)
    from grown_step [OF ts(1) lay nx this] g ts(6) [OF e] show ?thesis using grown_trans by metis
  next
    case False
    then have nx: "huff_next nodes c b = int (nat (huff_next nodes c b))" by simp
    have sub: "laid_out nodes (huff_next nodes c b) (tsub b t)"
      using Cons.prems(3) laid_out_node [OF Cons.prems(2), of nodes c b] by simp
    then have "tsub b t \<noteq> HEmpty" using False by (auto simp: laid_out_def)
    then have "grown nodes (with_sym nodes' m s) (nat (huff_next nodes c b)) (tsub b t) (tins bs s (tsub b t))"
      using Cons.prems(1) False sub nx by (intro Cons.IH) auto
    then show ?thesis using grown_step [OF Cons.prems(2,3) nx] by blast
  qed
qed

text \<open>An insertion only fails for lack of room.\<close>

lemma huff_insert_room:
  assumes "t \<noteq> HEmpty" "laid_out nodes (int c) t"
    and "length nodes + tsize (tins bs s t) \<le> H2C_HUFF_NODES + tsize t"
  shows "huff_insert nodes c bs \<noteq> None"
  using assms
proof (induction bs arbitrary: nodes c t)
  case (Cons b bs)
  note lt = Cons.prems(2) [unfolded laid_out_node [OF Cons.prems(1), of nodes c b]]
  have sz: "tsize (tins (b # bs) s t) + tsize (tsub b t) = tsize t + tsize (tins bs s (tsub b t))"
    by (rule tins_Cons(5) [OF Cons.prems(1)])
  show ?case
  proof (cases "huff_next nodes c b < 0")
    case True
    let ?N = "huff_link (nodes @ [no_node]) c b (int (length nodes))"
    have e: "tsub b t = HEmpty" using lt True by (cases "tsub b t") (auto simp: laid_out_def)
    have "tsize (tins bs s HEmpty) > 0" using tins_Cons(3) [of bs s HEmpty] by (cases "tins bs s HEmpty") auto
    then have room: "length nodes < H2C_HUFF_NODES" using Cons.prems(3) sz e by simp
    have lay: "laid_out ?N (int c) (tleaf b t)"
      using grown_link [OF Cons.prems(1,2) True] by (simp add: grown_def)
    have "huff_next ?N c b = int (length nodes)"
      using lt by (simp add: huff_link_def huff_next_def nth_append)
    then have "laid_out ?N (int (length nodes)) (HNode (-1) HEmpty HEmpty)"
      using lay laid_out_node [OF tleaf_simps(1) [OF Cons.prems(1)], of ?N c b b]
        tleaf_simps(2) [OF Cons.prems(1), of b] by simp
    then have "huff_insert ?N (length nodes) bs \<noteq> None"
      using Cons.prems(3) sz e by (intro Cons.IH) (auto simp: huff_link_def tins_no_node)
    then show ?thesis using True room by simp
  next
    case False
    moreover have "tsub b t \<noteq> HEmpty" using lt False by (auto simp: laid_out_def)
    ultimately have "huff_insert nodes (nat (huff_next nodes c b)) bs \<noteq> None"
      using lt Cons.prems(3) sz by (intro Cons.IH) auto
    then show ?thesis using False by simp
  qed
qed simp


lemma tsize_tins: "tsize t \<le> tsize (tins bs s t)"
  by (induction bs s t rule: tins.induct) auto

lemma tsize_tbuild: "tsize t \<le> tsize (tbuild i cs t)"
  by (induction cs arbitrary: i t) (auto intro: order_trans [OF tsize_tins])

lemma build_laid_out:
  assumes "t \<noteq> HEmpty" "laid_out nodes (int 0) t" "length nodes = tsize t"
    and "tsize (tbuild i (map code_bits es) t) \<le> H2C_HUFF_NODES"
  shows "\<exists>N. huff_build_from i es nodes = Some N \<and> laid_out N (int 0) (tbuild i (map code_bits es) t)"
  using assms
proof (induction es arbitrary: i nodes t)
  case (Cons e es)
  let ?u = "tins (code_bits e) (int i) t"
  have "tsize ?u \<le> H2C_HUFF_NODES" using Cons.prems(4) order_trans [OF tsize_tbuild [of ?u "Suc i"]] by simp
  then have "huff_insert nodes 0 (code_bits e) \<noteq> None"
    using Cons.prems by (intro huff_insert_room [where s = "int i"]) auto
  then obtain N m where ins: "huff_insert nodes 0 (code_bits e) = Some (N, m)" by auto
  have g: "grown nodes (with_sym N m (int i)) 0 t ?u" by (rule grown_insert [OF ins Cons.prems(1,2)])
  show ?case
    using Cons.IH [of ?u "with_sym N m (int i)" "Suc i"] g Cons.prems ins tins_Cons(3)
    by (simp add: grown_def with_sym_def)
qed simp

section \<open>The code tree of the table\<close>

definition huff_codes :: "bool list list" where
  "huff_codes = map code_bits HUFF_TABLE"

definition code_tree :: htree where
  "code_tree = tbuild 0 huff_codes (HNode (-1) HEmpty HEmpty)"

text \<open>The symbol at the end of a path with no symbol on the way.\<close>

fun tfind :: "bool list \<Rightarrow> htree \<Rightarrow> int option" where
  "tfind p HEmpty = None"
| "tfind [] (HNode s l r) = (if s \<ge> 0 then Some s else None)"
| "tfind (b # p) (HNode s l r) = (if s \<ge> 0 then None else tfind p (if b then r else l))"

fun twalk :: "bool list \<Rightarrow> htree \<Rightarrow> htree" where
  "twalk [] t = t"
| "twalk (b # p) t = twalk p (tsub b t)"

fun all_found :: "nat \<Rightarrow> bool list list \<Rightarrow> htree \<Rightarrow> bool" where
  "all_found i [] t \<longleftrightarrow> True"
| "all_found i (c # cs) t \<longleftrightarrow> tfind c t = Some (int i) \<and> all_found (Suc i) cs t"

fun inner_path :: "bool list \<Rightarrow> htree \<Rightarrow> bool" where
  "inner_path p HEmpty \<longleftrightarrow> False"
| "inner_path [] (HNode s l r) \<longleftrightarrow> s < 0"
| "inner_path (b # p) (HNode s l r) \<longleftrightarrow> s < 0 \<and> inner_path p (if b then r else l)"

definition code_tree_ok :: "bool list list \<Rightarrow> htree \<Rightarrow> bool" where
  "code_tree_ok cs t \<longleftrightarrow> tsize t = 513 \<and> length cs = 257 \<and> all_found 0 cs t \<and> inner_path (replicate 7 True) t"

definition codes_ok :: "bool list list \<Rightarrow> bool" where
  "codes_ok cs \<longleftrightarrow> code_tree_ok cs (tbuild 0 cs (HNode (-1) HEmpty HEmpty))"

lemma table_codes_ok: "codes_ok (map code_bits HUFF_TABLE)"
  by code_simp


lemma code_tree_facts:
  "tsize code_tree = 513" "length huff_codes = 257" "all_found 0 huff_codes code_tree"
  "inner_path (replicate 7 True) code_tree"
  using table_codes_ok by (simp_all add: codes_ok_def code_tree_ok_def code_tree_def huff_codes_def)

lemma huff_build_tree: "\<exists>N. huff_build = Some N \<and> laid_out N (int 0) code_tree"
  unfolding huff_build_def code_tree_def huff_codes_def
  using code_tree_facts(1)
  by (intro build_laid_out)
    (auto simp: laid_out_def no_node_def code_tree_def huff_codes_def H2C_HUFF_NODES_def)

lemma all_found_nth: "all_found i cs t \<Longrightarrow> k < length cs \<Longrightarrow> tfind (cs ! k) t = Some (int (i + k))"
proof (induction cs arbitrary: i k)
  case (Cons c cs)
  then show ?case by (cases k) force+
qed simp

lemma code_found: "k < 257 \<Longrightarrow> tfind (huff_codes ! k) code_tree = Some (int k)"
  using all_found_nth [OF code_tree_facts(3)] code_tree_facts(2) by simp

lemma twalk_empty [simp]: "twalk p HEmpty = HEmpty"
  by (induction p) auto

lemma twalk_snoc: "twalk (p @ [b]) t = tsub b (twalk p t)"
  by (induction p arbitrary: t) auto

lemma twalk_tins:
  "tsym (twalk p (tins q s t)) \<ge> 0 \<Longrightarrow> (p = q \<and> tsym (twalk p (tins q s t)) = s) \<or>
     tsym (twalk p t) = tsym (twalk p (tins q s t))"
proof (induction q s t arbitrary: p rule: tins.induct)
  case (1 s) then show ?case by (cases p) (auto split: if_splits)
next
  case (2 s v l r) then show ?case by (cases p) auto
next
  case (3 b bs s) then show ?case by (cases p) (auto split: if_splits)
next
  case (4 b bs s v l r) then show ?case by (cases p) (auto split: if_splits)
qed

lemma twalk_tbuild:
  "tsym (twalk p (tbuild i cs t)) \<ge> 0 \<Longrightarrow>
     (\<exists>k < length cs. p = cs ! k \<and> tsym (twalk p (tbuild i cs t)) = int (i + k)) \<or>
     tsym (twalk p t) = tsym (twalk p (tbuild i cs t))"
proof (induction cs arbitrary: i t)
  case (Cons c cs)
  from Cons.IH [of "Suc i" "tins c (int i) t"] Cons.prems show ?case
    using twalk_tins [of p c "int i" t] by (auto intro: exI [of _ 0])
qed simp

text \<open>A symbol is only found at the end of its code.\<close>

lemma sym_code:
  assumes "tsym (twalk p code_tree) \<ge> 0"
  shows "\<exists>k < 257. p = huff_codes ! k \<and> tsym (twalk p code_tree) = int k"
proof -
  have "tsym (twalk p (HNode (-1) HEmpty HEmpty)) < 0" by (cases p) auto
  then show ?thesis using twalk_tbuild [of p 0 huff_codes "HNode (-1) HEmpty HEmpty"] assms code_tree_facts(2)
    unfolding code_tree_def by auto
qed

lemma inner_path_prefix: "inner_path (p @ q) t \<Longrightarrow> twalk p t \<noteq> HEmpty \<and> tsym (twalk p t) < 0"
proof (induction p arbitrary: t)
  case Nil then show ?case by (cases t; cases q) auto
next
  case (Cons b p) then show ?case by (cases t) auto
qed

lemma ones_inner: "k \<le> 7 \<Longrightarrow> twalk (replicate k True) code_tree \<noteq> HEmpty \<and> tsym (twalk (replicate k True) code_tree) < 0"
  using inner_path_prefix [of "replicate k True" "replicate (7 - k) True" code_tree] code_tree_facts(4)
  by (simp add: replicate_add [symmetric])

section \<open>The decoder walks the code tree\<close>

fun nwalk :: "huff_node list \<Rightarrow> int \<Rightarrow> bool list \<Rightarrow> int" where
  "nwalk nodes c [] = c"
| "nwalk nodes c (b # p) = nwalk nodes (huff_next nodes (nat c) b) p"

lemma nwalk_snoc: "nwalk nodes c (p @ [b]) = huff_next nodes (nat (nwalk nodes c p)) b"
  by (induction p arbitrary: c) auto

lemma nwalk_laid_out:
  assumes "laid_out nodes c t" "twalk p t \<noteq> HEmpty"
  shows "laid_out nodes (nwalk nodes c p) (twalk p t) \<and> nat (nwalk nodes c p) \<in> set (cells nodes c t)"
  using assms
proof (induction p arbitrary: c t)
  case Nil then show ?case by (cases t) auto
next
  case (Cons b p)
  then have t: "t \<noteq> HEmpty" "0 \<le> c" by (auto simp: laid_out_def) (cases t; auto)
  then have c: "c = int (nat c)" by simp
  have "laid_out nodes (huff_next nodes (nat c) b) (tsub b t)"
    using Cons.prems(1) c laid_out_node [OF t(1), of nodes "nat c" b] by simp
  from Cons.IH [OF this] Cons.prems(2) show ?case
    using c cells_node [OF t(1), of nodes "nat c" b] by auto
qed

lemma nwalk_not_root:
  assumes "laid_out nodes (int 0) t" "twalk p t \<noteq> HEmpty" "p \<noteq> []"
  shows "nwalk nodes (int 0) p \<noteq> 0"
proof -
  obtain b q where p: "p = b # q" using assms(3) by (cases p) auto
  then have t: "t \<noteq> HEmpty" using assms(2) by auto
  note lt = assms(1) [unfolded laid_out_node [OF t, of nodes 0 b]]
  have "nat (nwalk nodes (huff_next nodes 0 b) q) \<in> set (cells nodes (huff_next nodes 0 b) (tsub b t))"
    using nwalk_laid_out [of nodes "huff_next nodes 0 b" "tsub b t" q] lt assms(2) p by simp
  then show ?thesis using lt p by (metis nat_0 nwalk.simps(2) nat_int)
qed

text \<open>The state after the bits \<open>q\<close> since the last symbol.\<close>

definition at_path :: "huff_node list \<Rightarrow> huff_state \<Rightarrow> bool list \<Rightarrow> bool" where
  "at_path nodes st q \<longleftrightarrow>
     int (hs_node st) = nwalk nodes 0 q \<and> twalk q code_tree \<noteq> HEmpty \<and> tsym (twalk q code_tree) < 0 \<and>
     hs_pad_ones st = list_all id q \<and> hs_depth st = length q"

definition after_sym :: "huff_state \<Rightarrow> byte \<Rightarrow> huff_state" where
  "after_sym st w = \<lparr>hs_node = 0, hs_pad_ones = True, hs_depth = 0, hs_out = hs_out st @ [w]\<rparr>"

lemma code_tree_root: "code_tree \<noteq> HEmpty" "tsym code_tree < 0"
  using ones_inner [of 0] by simp_all

lemma at_path_start: "at_path nodes huff_start []" "at_path nodes (after_sym st w) []"
  using code_tree_root by (simp_all add: at_path_def huff_start_def after_sym_def)

lemma huff_bit_inner:
  assumes lay: "laid_out nodes (int 0) code_tree" and st: "at_path nodes st q"
    and u: "twalk (q @ [b]) code_tree \<noteq> HEmpty" and inner: "tsym (twalk (q @ [b]) code_tree) < 0"
  shows "\<exists>st'. huff_bit nodes cap b st = Some st' \<and> at_path nodes st' (q @ [b]) \<and> hs_out st' = hs_out st"
proof -
  have nx: "nwalk nodes 0 (q @ [b]) = huff_next nodes (hs_node st) b"
    using st by (metis at_path_def nat_int nwalk_snoc)
  have "laid_out nodes (nwalk nodes 0 (q @ [b])) (twalk (q @ [b]) code_tree)"
    using nwalk_laid_out lay u by simp
  then have "0 \<le> huff_next nodes (hs_node st) b"
      "hn_sym (nodes ! nat (huff_next nodes (hs_node st) b)) = tsym (twalk (q @ [b]) code_tree)"
    using u nx by (cases "twalk (q @ [b]) code_tree"; simp add: laid_out_def)+
  then show ?thesis using st nx u inner by (auto simp: huff_bit_def Let_def at_path_def)
qed

lemma huff_bit_sym:
  assumes lay: "laid_out nodes (int 0) code_tree" and st: "at_path nodes st q"
    and s: "tsym (twalk (q @ [b]) code_tree) = int k"
  shows "huff_bit nodes cap b st =
    (if k = 256 \<or> length (hs_out st) \<ge> cap then None else Some (after_sym st (word_of_nat k)))"
proof -
  have nx: "nwalk nodes 0 (q @ [b]) = huff_next nodes (hs_node st) b"
    using st by (metis at_path_def nat_int nwalk_snoc)
  have u: "twalk (q @ [b]) code_tree \<noteq> HEmpty" using s by auto
  then have "laid_out nodes (nwalk nodes 0 (q @ [b])) (twalk (q @ [b]) code_tree)"
    using nwalk_laid_out lay by simp
  then have "0 \<le> huff_next nodes (hs_node st) b"
      "hn_sym (nodes ! nat (huff_next nodes (hs_node st) b)) = int k"
    using u nx s by (cases "twalk (q @ [b]) code_tree"; simp add: laid_out_def)+
  then show ?thesis by (simp add: huff_bit_def Let_def after_sym_def)
qed

lemma huff_bit_invalid:
  assumes lay: "laid_out nodes (int 0) code_tree" and st: "at_path nodes st q"
    and s: "twalk (q @ [b]) code_tree = HEmpty"
  shows "huff_bit nodes cap b st = None"
proof -
  have n: "laid_out nodes (int (hs_node st)) (twalk q code_tree)" "twalk q code_tree \<noteq> HEmpty"
    using nwalk_laid_out [of nodes 0 code_tree q] lay st by (simp_all add: at_path_def)
  then have "laid_out nodes (huff_next nodes (hs_node st) b) HEmpty"
    using laid_out_node [OF n(2), of nodes "hs_node st" b] s by (simp add: twalk_snoc)
  then show ?thesis by (simp add: huff_bit_def laid_out_def)
qed


section \<open>What the decoder accepts\<close>

definition huff_code :: "byte \<Rightarrow> bool list" where
  "huff_code w = huff_codes ! unat w"

lemma loop_sound:
  assumes lay: "laid_out nodes (int 0) code_tree"
  shows "at_path nodes st q \<Longrightarrow> length (hs_out st) \<le> cap \<Longrightarrow> huff_loop nodes cap bs st = Some st' \<Longrightarrow>
    \<exists>cs q'. q @ bs = concat (map huff_code cs) @ q' \<and> at_path nodes st' q' \<and>
      hs_out st' = hs_out st @ cs \<and> length (hs_out st') \<le> cap"
proof (induction bs arbitrary: st q)
  case Nil
  then show ?case by (auto intro!: exI [of _ "[]"])
next
  case (Cons b bs)
  consider (invalid) "twalk (q @ [b]) code_tree = HEmpty"
    | (inner) "twalk (q @ [b]) code_tree \<noteq> HEmpty" "tsym (twalk (q @ [b]) code_tree) < 0"
    | (sym) "tsym (twalk (q @ [b]) code_tree) \<ge> 0" by linarith
  then show ?case
  proof cases
    case invalid
    then show ?thesis using huff_bit_invalid [OF lay Cons.prems(1)] Cons.prems(3) by simp
  next
    case inner
    then obtain st1 where "huff_bit nodes cap b st = Some st1" "at_path nodes st1 (q @ [b])" "hs_out st1 = hs_out st"
      using huff_bit_inner [OF lay Cons.prems(1)] by blast
    then show ?thesis using Cons.IH [of st1 "q @ [b]"] Cons.prems by simp
  next
    case sym
    then obtain k where k: "k < 257" "q @ [b] = huff_codes ! k" "tsym (twalk (q @ [b]) code_tree) = int k"
      using sym_code by blast
    have st1: "huff_bit nodes cap b st = Some (after_sym st (word_of_nat k))" "k \<noteq> 256" "length (hs_out st) < cap"
      using huff_bit_sym [OF lay Cons.prems(1) k(3), of cap] Cons.prems(3) by (auto split: if_splits)
    have w: "huff_code (word_of_nat k) = q @ [b]" using k st1(2) by (simp add: huff_code_def unat_of_nat)
    obtain cs q' where "bs = concat (map huff_code cs) @ q'" "at_path nodes st' q'"
        "hs_out st' = hs_out (after_sym st (word_of_nat k)) @ cs" "length (hs_out st') \<le> cap"
      using Cons.IH [OF at_path_start(2), of st "word_of_nat k"] Cons.prems(3) st1 by (auto simp: after_sym_def)
    then show ?thesis using w
      by (intro exI [of _ "word_of_nat k # cs"] exI [of _ q']) (simp add: after_sym_def)
  qed
qed

lemma loop_code:
  assumes lay: "laid_out nodes (int 0) code_tree" and "k < 256" and "length (hs_out st) < cap"
  shows "at_path nodes st q \<Longrightarrow> tfind r (twalk q code_tree) = Some (int k) \<Longrightarrow>
    huff_loop nodes cap (r @ bs) st = huff_loop nodes cap bs (after_sym st (word_of_nat k))"
  using assms(3)
proof (induction r arbitrary: st q)
  case Nil
  then show ?case by (cases "twalk q code_tree") (auto simp: at_path_def)
next
  case (Cons b r)
  have sub: "tfind r (twalk (q @ [b]) code_tree) = Some (int k)"
    using Cons.prems by (cases "twalk q code_tree") (auto simp: twalk_snoc split: if_splits)
  show ?case
  proof (cases "tsym (twalk (q @ [b]) code_tree) \<ge> 0")
    case True
    then have "r = [] \<and> tsym (twalk (q @ [b]) code_tree) = int k"
      using sub by (cases "twalk (q @ [b]) code_tree"; cases r) (auto split: if_splits)
    then show ?thesis using huff_bit_sym [OF lay Cons.prems(1), of b k cap] Cons.prems(3) assms(2) by simp
  next
    case False
    moreover have "twalk (q @ [b]) code_tree \<noteq> HEmpty" using sub by auto
    ultimately obtain st1 where st1: "huff_bit nodes cap b st = Some st1" "at_path nodes st1 (q @ [b])"
        "hs_out st1 = hs_out st"
      using huff_bit_inner [OF lay Cons.prems(1), of b cap] by auto
    then show ?thesis using Cons.IH [OF st1(2) sub] Cons.prems(3) by (simp add: after_sym_def)
  qed
qed

lemma loop_codes:
  assumes lay: "laid_out nodes (int 0) code_tree"
  shows "at_path nodes st [] \<Longrightarrow> length (hs_out st) + length cs \<le> cap \<Longrightarrow>
    \<exists>st'. huff_loop nodes cap (concat (map huff_code cs) @ bs) st = huff_loop nodes cap bs st' \<and>
      at_path nodes st' [] \<and> hs_out st' = hs_out st @ cs"
proof (induction cs arbitrary: st)
  case (Cons w cs)
  have "unat w < 256" using unsigned_less [of w, where ?'a = nat] by simp
  then have "tfind (huff_code w) (twalk [] code_tree) = Some (int (unat w))"
    using code_found [of "unat w"] by (simp add: huff_code_def)
  then have "huff_loop nodes cap (huff_code w @ concat (map huff_code cs) @ bs) st =
      huff_loop nodes cap (concat (map huff_code cs) @ bs) (after_sym st w)"
    using loop_code [OF lay \<open>unat w < 256\<close> _ Cons.prems(1)] Cons.prems(2) by simp
  then show ?case using Cons.IH [OF at_path_start(2), of st w] Cons.prems(2) by (simp add: after_sym_def)
qed auto

lemma loop_ones:
  assumes lay: "laid_out nodes (int 0) code_tree"
  shows "at_path nodes st (replicate j True) \<Longrightarrow> j + k \<le> 7 \<Longrightarrow>
    \<exists>st'. huff_loop nodes cap (replicate k True) st = Some st' \<and>
      at_path nodes st' (replicate (j + k) True) \<and> hs_out st' = hs_out st"
proof (induction k arbitrary: st j)
  case (Suc k)
  have r: "replicate j True @ [True] = replicate (Suc j) True" by (simp add: replicate_append_same)
  obtain st1 where "huff_bit nodes cap True st = Some st1" "at_path nodes st1 (replicate (Suc j) True)"
      "hs_out st1 = hs_out st"
    using huff_bit_inner [OF lay Suc.prems(1), of True cap] ones_inner [of "Suc j"] Suc.prems(2) r by auto
  then show ?case using Suc.IH [of st1 "Suc j"] Suc.prems(2) by simp
qed simp

lemma decode_sound:
  assumes "huff_decode inp out_cap = Some s"
  shows "length s \<le> out_cap \<and>
    (\<exists>k \<le> 7. concat (map byte_bits inp) = concat (map huff_code s) @ replicate k True)"
proof -
  obtain nodes where build: "huff_build = Some nodes" and lay: "laid_out nodes (int 0) code_tree"
    using huff_build_tree by blast
  obtain st where loop: "huff_loop nodes out_cap (concat (map byte_bits inp)) huff_start = Some st"
    and s: "s = hs_out st" and pad: "hs_node st = 0 \<or> hs_pad_ones st \<and> hs_depth st \<le> 7"
    using assms by (auto simp: huff_decode_def build split: option.splits if_splits)
  obtain cs q where q: "concat (map byte_bits inp) = concat (map huff_code cs) @ q" "at_path nodes st q"
      "hs_out st = cs" "length (hs_out st) \<le> out_cap"
    using loop_sound [OF lay at_path_start(1) _ loop] by (auto simp: huff_start_def)
  have "hs_node st = 0 \<longleftrightarrow> q = []"
    using q(2) nwalk_not_root [OF lay, of q] by (cases "q = []") (auto simp: at_path_def)
  moreover have "list_all id q \<Longrightarrow> q = replicate (length q) True" by (induction q) auto
  ultimately have "length q \<le> 7 \<and> q = replicate (length q) True"
    using pad q(2) by (auto simp: at_path_def)
  then show ?thesis using q s by auto
qed

lemma decode_complete:
  assumes "length s \<le> out_cap" "k \<le> 7"
    and bits: "concat (map byte_bits inp) = concat (map huff_code s) @ replicate k True"
  shows "huff_decode inp out_cap = Some s"
proof -
  obtain nodes where build: "huff_build = Some nodes" and lay: "laid_out nodes (int 0) code_tree"
    using huff_build_tree by blast
  obtain st where st: "huff_loop nodes out_cap (concat (map byte_bits inp)) huff_start =
        huff_loop nodes out_cap (replicate k True) st" "at_path nodes st []" "hs_out st = s"
    using loop_codes [OF lay at_path_start(1), of s out_cap "replicate k True"] assms by (auto simp: huff_start_def)
  obtain st' where "huff_loop nodes out_cap (replicate k True) st = Some st'"
      "at_path nodes st' (replicate k True)" "hs_out st' = s"
    using loop_ones [OF lay, of st 0 k out_cap] st assms(2) by auto
  then show ?thesis
    using st(1) assms(2) by (simp add: huff_decode_def build at_path_def list_all_iff)
qed

text \<open>
  C33: The Huffman decoder accepts exactly the well-coded strings: the trie fits its array, and
  \<open>huff_decode\<close> returns the string \<open>s\<close> if and only if the input's bits are the code words of \<open>s\<close>
  followed by at most seven one bits and \<open>s\<close> fits the output buffer. In particular every string decodes
  back from its encoding, no input has two decodings, and the EOS symbol, long or zero padding
  and an unfinished code are all refused.
\<close>

theorem huff_decode_exact:
  "huff_decode inp out_cap = Some s \<longleftrightarrow>
     length s \<le> out_cap \<and>
     (\<exists>k \<le> 7. concat (map byte_bits inp) = concat (map huff_code s) @ replicate k True)"
  using decode_sound decode_complete by blast

end
