(* ===== verification/Hpack.thy ===== *)
theory Hpack
  imports Huffman
begin

text \<open>
  HPACK header compression of \<open>containerd/h2c.c\<close> (RFC 7541): prefixed integers, the static
  and the dynamic table, strings, the block decoder and the field encoder. Allocation is the
  parameter \<open>mem\<close>, which says whether a request of so many bytes succeeds. The tables keep
  their size bounds, and a decoder whose table agrees with the encoder's reads back the fields
  that were encoded and ends with the encoder's table.
\<close>

type_synonym bytes = "byte list"
type_synonym allocator = "nat \<Rightarrow> bool"

definition c_bytes :: "string \<Rightarrow> bytes" where
  "c_bytes s = map of_char s"

section \<open>Integers\<close>

fun read_cont :: "nat \<Rightarrow> nat \<Rightarrow> bytes \<Rightarrow> (nat \<times> nat) option" where
  "read_cont value shift [] = None"
| "read_cont value shift (b # rest) =
     (let value' = value + unat (b AND 0x7f) * 2 ^ shift
      in if b AND 0x80 = 0 then Some (value', 1)
         else if shift + 7 > 28 then None
         else map_option (\<lambda>(v, n). (v, Suc n)) (read_cont value' (shift + 7) rest))"

definition hpack_read_int :: "bytes \<Rightarrow> nat \<Rightarrow> (nat \<times> nat) option" where
  "hpack_read_int inp prefix =
     (case inp of
        [] \<Rightarrow> None
      | b # rest \<Rightarrow>
          let m = mask prefix; value = unat (b AND word_of_nat m)
          in if value < m then Some (value, 1)
             else case read_cont value 0 rest of
                    None \<Rightarrow> None
                  | Some (v, n) \<Rightarrow> if v > 0x7fffffff then None else Some (v, Suc n))"

fun write_cont :: "nat \<Rightarrow> bytes" where
  "write_cont value =
     (if value \<ge> 0x80 then (word_of_nat (value mod 128) OR 0x80) # write_cont (value div 128)
      else [word_of_nat value])"

declare write_cont.simps [simp del]

text \<open>The written bytes; none of them (the returned 0) when the buffer is too small.\<close>

definition hpack_write_int_ex :: "nat \<Rightarrow> nat \<Rightarrow> nat \<Rightarrow> byte \<Rightarrow> bytes" where
  "hpack_write_int_ex cap value prefix pattern =
     (let m = mask prefix;
          out = (if value < m then [pattern OR word_of_nat value]
                 else (pattern OR word_of_nat m) # write_cont (value - m))
      in if length out \<le> cap then out else [])"

definition hpack_write_int :: "nat \<Rightarrow> nat \<Rightarrow> nat \<Rightarrow> bytes" where
  "hpack_write_int cap value prefix = hpack_write_int_ex cap value prefix 0"

section \<open>The static table\<close>

record hpack_field =
  hf_name :: bytes
  hf_value :: bytes

definition HPACK_STATIC :: "(string \<times> string) list" where
  "HPACK_STATIC =
   [('':authority'', ''''), ('':method'', ''GET''), ('':method'', ''POST''), ('':path'', ''/''),
    ('':path'', ''/index.html''), ('':scheme'', ''http''), ('':scheme'', ''https''),
    ('':status'', ''200''), ('':status'', ''204''), ('':status'', ''206''),
    ('':status'', ''304''), ('':status'', ''400''), ('':status'', ''404''),
    ('':status'', ''500''), (''accept-charset'', ''''), (''accept-encoding'', ''gzip, deflate''),
    (''accept-language'', ''''), (''accept-ranges'', ''''), (''accept'', ''''),
    (''access-control-allow-origin'', ''''), (''age'', ''''), (''allow'', ''''),
    (''authorization'', ''''), (''cache-control'', ''''), (''content-disposition'', ''''),
    (''content-encoding'', ''''), (''content-language'', ''''), (''content-length'', ''''),
    (''content-location'', ''''), (''content-range'', ''''), (''content-type'', ''''),
    (''cookie'', ''''), (''date'', ''''), (''etag'', ''''), (''expect'', ''''),
    (''expires'', ''''), (''from'', ''''), (''host'', ''''), (''if-match'', ''''),
    (''if-modified-since'', ''''), (''if-none-match'', ''''), (''if-range'', ''''),
    (''if-unmodified-since'', ''''), (''last-modified'', ''''), (''link'', ''''),
    (''location'', ''''), (''max-forwards'', ''''), (''proxy-authenticate'', ''''),
    (''proxy-authorization'', ''''), (''range'', ''''), (''referer'', ''''), (''refresh'', ''''),
    (''retry-after'', ''''), (''server'', ''''), (''set-cookie'', ''''),
    (''strict-transport-security'', ''''), (''transfer-encoding'', ''''), (''user-agent'', ''''),
    (''vary'', ''''), (''via'', ''''), (''www-authenticate'', '''')]"

definition static_field :: "nat \<Rightarrow> hpack_field" where
  "static_field i = \<lparr>hf_name = c_bytes (fst (HPACK_STATIC ! i)), hf_value = c_bytes (snd (HPACK_STATIC ! i))\<rparr>"

text \<open>Position of the first match, counted from 1; 0 when there is none.\<close>

fun find_pos :: "('a \<Rightarrow> bool) \<Rightarrow> 'a list \<Rightarrow> nat" where
  "find_pos P [] = 0"
| "find_pos P (x # xs) = (if P x then 1 else case find_pos P xs of 0 \<Rightarrow> 0 | Suc n \<Rightarrow> Suc (Suc n))"

definition static_find_pair :: "bytes \<Rightarrow> bytes \<Rightarrow> nat" where
  "static_find_pair name value = find_pos (\<lambda>e. c_bytes (fst e) = name \<and> c_bytes (snd e) = value) HPACK_STATIC"

definition static_find_name :: "bytes \<Rightarrow> nat" where
  "static_find_name name = find_pos (\<lambda>e. c_bytes (fst e) = name) HPACK_STATIC"

section \<open>The dynamic table\<close>

definition H2C_DYN_MAX_ENTRIES :: nat where
  "H2C_DYN_MAX_ENTRIES = 128"

record hpack_dyn_entry =
  de_name :: bytes
  de_value :: bytes
  de_size :: nat

text \<open>The entries are in array order: the oldest first.\<close>

record hpack_dyn =
  dt_entries :: "hpack_dyn_entry list"
  dt_size :: nat
  dt_max_size :: nat

definition dyn_reset :: hpack_dyn where
  "dyn_reset = \<lparr>dt_entries = [], dt_size = 0, dt_max_size = 4096\<rparr>"

definition dyn_get :: "hpack_dyn \<Rightarrow> nat \<Rightarrow> hpack_dyn_entry option" where
  "dyn_get dyn index =
     (if index = 0 \<or> index > length (dt_entries dyn) then None
      else Some (dt_entries dyn ! (length (dt_entries dyn) - index)))"

definition dyn_evict_one :: "hpack_dyn \<Rightarrow> hpack_dyn" where
  "dyn_evict_one dyn =
     (case dt_entries dyn of
        [] \<Rightarrow> dyn
      | e # es \<Rightarrow> dyn\<lparr>dt_size := dt_size dyn - de_size e, dt_entries := es\<rparr>)"

text \<open>The loops that evict while a condition holds and there is something to evict.\<close>

function dyn_evict_while :: "(hpack_dyn \<Rightarrow> bool) \<Rightarrow> hpack_dyn \<Rightarrow> hpack_dyn" where
  "dyn_evict_while P dyn =
     (if P dyn \<and> dt_entries dyn \<noteq> [] then dyn_evict_while P (dyn_evict_one dyn) else dyn)"
  by pat_completeness auto
termination
  by (relation "measure (\<lambda>(P, dyn). length (dt_entries dyn))")
    (auto simp: dyn_evict_one_def split: list.splits)

declare dyn_evict_while.simps [simp del]

definition dyn_set_max :: "hpack_dyn \<Rightarrow> nat \<Rightarrow> hpack_dyn" where
  "dyn_set_max dyn max_size =
     dyn_evict_while (\<lambda>d. dt_size d > dt_max_size d) (dyn\<lparr>dt_max_size := max_size\<rparr>)"

definition dyn_no_room :: "nat \<Rightarrow> hpack_dyn \<Rightarrow> bool" where
  "dyn_no_room entry_size d \<longleftrightarrow>
     dt_size d + entry_size > dt_max_size d \<or> length (dt_entries d) \<ge> H2C_DYN_MAX_ENTRIES"

definition dyn_add :: "allocator \<Rightarrow> hpack_dyn \<Rightarrow> bytes \<Rightarrow> bytes \<Rightarrow> hpack_dyn" where
  "dyn_add mem dyn name value =
     (let entry_size = length name + length value + 32
      in if entry_size > dt_max_size dyn then dyn
         else let d = dyn_evict_while (dyn_no_room entry_size) dyn
              in if dyn_no_room entry_size d then d
                 else if \<not> mem (max (length name) 1) \<or> \<not> mem (max (length value) 1) then d
                 else d\<lparr>dt_entries := dt_entries d @ [\<lparr>de_name = name, de_value = value, de_size = entry_size\<rparr>],
                        dt_size := dt_size d + entry_size\<rparr>)"

definition dyn_find_pair :: "hpack_dyn \<Rightarrow> bytes \<Rightarrow> bytes \<Rightarrow> nat" where
  "dyn_find_pair dyn name value =
     find_pos (\<lambda>e. de_name e = name \<and> de_value e = value) (rev (dt_entries dyn))"

definition dyn_find_name :: "hpack_dyn \<Rightarrow> bytes \<Rightarrow> nat" where
  "dyn_find_name dyn name = find_pos (\<lambda>e. de_name e = name) (rev (dt_entries dyn))"

section \<open>Strings\<close>

text \<open>A string at the head of the input and the number of bytes it takes.\<close>

definition hpack_read_string :: "allocator \<Rightarrow> bytes \<Rightarrow> (bytes \<times> nat) option" where
  "hpack_read_string mem inp =
     (if inp = [] then None
      else case hpack_read_int inp 7 of
             None \<Rightarrow> None
           | Some (str_len, len_bytes) \<Rightarrow>
               if str_len > length inp - len_bytes then None
               else let body = take str_len (drop len_bytes inp);
                        huff_cap = (str_len * 8 + 1) mod 2 ^ 32
                    in if hd inp AND 0x80 \<noteq> 0 then
                         if \<not> mem huff_cap then None
                         else map_option (\<lambda>s. (s, len_bytes + str_len)) (huff_decode body huff_cap)
                       else if \<not> mem (max str_len 1) then None
                       else Some (body, len_bytes + str_len))"

definition hpack_write_string :: "nat \<Rightarrow> bytes \<Rightarrow> bytes" where
  "hpack_write_string cap s =
     (let n = hpack_write_int cap (length s mod 2 ^ 32) 7
      in if n = [] \<or> length n + length s > cap then [] else n @ s)"

section \<open>The block decoder\<close>

definition field_resolve_name :: "allocator \<Rightarrow> hpack_dyn \<Rightarrow> nat \<Rightarrow> bytes option" where
  "field_resolve_name mem dyn index =
     (if index \<le> 61 then
        let sname = hf_name (static_field (index - 1))
        in if mem (length sname + 1) then Some sname else None
      else case dyn_get dyn (index - 61) of
             None \<Rightarrow> None
           | Some de \<Rightarrow> if mem (max (length (de_name de)) 1) then Some (de_name de) else None)"

text \<open>A literal field: an index (0 announces a literal name), then the value.\<close>

definition decode_literal :: "allocator \<Rightarrow> hpack_dyn \<Rightarrow> nat \<Rightarrow> bytes \<Rightarrow> (hpack_field \<times> nat) option" where
  "decode_literal mem dyn prefix inp =
     (case hpack_read_int inp prefix of
        None \<Rightarrow> None
      | Some (index, n) \<Rightarrow>
          case (if index = 0 then hpack_read_string mem (drop n inp)
                else map_option (\<lambda>s. (s, 0)) (field_resolve_name mem dyn index)) of
            None \<Rightarrow> None
          | Some (name, k) \<Rightarrow>
              case hpack_read_string mem (drop (n + k) inp) of
                None \<Rightarrow> None
              | Some (value, l) \<Rightarrow> Some (\<lparr>hf_name = name, hf_value = value\<rparr>, n + k + l))"

definition decode_indexed :: "allocator \<Rightarrow> hpack_dyn \<Rightarrow> nat \<Rightarrow> hpack_field option" where
  "decode_indexed mem dyn index =
     (if index \<ge> 1 \<and> index \<le> 61 then Some (static_field (index - 1))
      else case dyn_get dyn ((index + 2 ^ 32 - 61) mod 2 ^ 32) of
             None \<Rightarrow> None
           | Some de \<Rightarrow>
               if mem (max (length (de_name de)) 1) \<and> mem (max (length (de_value de)) 1)
               then Some \<lparr>hf_name = de_name de, hf_value = de_value de\<rparr> else None)"

text \<open>
  One iteration of the loop of \<open>hpack_decode_block\<close> on a non-empty input: the table after it, the
  field it produced if any, and the bytes it took. The unsigned difference
  \<open>index - 61\<close> of an indexed field with index 0 is written out.
\<close>

definition decode_step :: "allocator \<Rightarrow> hpack_dyn \<Rightarrow> bytes \<Rightarrow> (hpack_dyn \<times> hpack_field list \<times> nat) option" where
  "decode_step mem dyn inp =
     (let b = hd inp
      in if b AND 0x80 \<noteq> 0 then
           (case hpack_read_int inp 7 of
              None \<Rightarrow> None
            | Some (index, n) \<Rightarrow> map_option (\<lambda>f. (dyn, [f], n)) (decode_indexed mem dyn index))
         else if b AND 0xc0 = 0x40 then
           map_option (\<lambda>(f, n). (dyn_add mem dyn (hf_name f) (hf_value f), [f], n)) (decode_literal mem dyn 6 inp)
         else if b AND 0xe0 = 0x20 then
           (case hpack_read_int inp 5 of
              None \<Rightarrow> None
            | Some (new_size, n) \<Rightarrow>
                if new_size > dt_max_size dyn then None else Some (dyn_set_max dyn new_size, [], n))
         else if b AND 0xf0 = 0x00 then
           map_option (\<lambda>(f, n). (dyn, [f], n)) (decode_literal mem dyn 4 inp)
         else if b AND 0xf0 = 0x10 then
           map_option (\<lambda>(f, n). (dyn, [f], n)) (decode_literal mem dyn 4 inp)
         else None)"

lemma read_int_pos: "hpack_read_int inp prefix = Some (v, n) \<Longrightarrow> 0 < n \<and> inp \<noteq> []"
  by (auto simp: hpack_read_int_def Let_def split: list.splits if_splits option.splits)

lemma decode_step_pos: "decode_step mem dyn inp = Some (dyn', fs, n) \<Longrightarrow> 0 < n \<and> inp \<noteq> []"
  by (auto simp: decode_step_def decode_literal_def Let_def dest!: read_int_pos split: if_splits option.splits)

function decode_loop :: "allocator \<Rightarrow> nat \<Rightarrow> hpack_dyn \<Rightarrow> bytes \<Rightarrow> hpack_field list \<Rightarrow> hpack_dyn \<times> hpack_field list option" where
  "decode_loop mem max_fields dyn inp fs =
     (if inp = [] then (dyn, Some fs)
      else if length fs \<ge> max_fields then (dyn, None)
      else case decode_step mem dyn inp of
             None \<Rightarrow> (dyn, None)
           | Some (dyn', new, n) \<Rightarrow> decode_loop mem max_fields dyn' (drop n inp) (fs @ new))"
  by pat_completeness auto
termination
  by (relation "measure (\<lambda>(mem, max_fields, dyn, inp, fs). length inp)") (auto dest: decode_step_pos)

declare decode_loop.simps [simp del]

definition hpack_decode_block :: "allocator \<Rightarrow> hpack_dyn \<Rightarrow> bytes \<Rightarrow> nat \<Rightarrow> hpack_dyn \<times> hpack_field list option" where
  "hpack_decode_block mem dyn inp max_fields = decode_loop mem max_fields dyn inp []"

section \<open>The field encoder\<close>

text \<open>
  The table after encoding a field, and the bytes written. A string that does not fit adds
  nothing to the count \<open>n\<close> and is not noticed: \<open>n\<close> is then the length of the index alone.
\<close>

definition encode_index :: "nat \<Rightarrow> nat \<Rightarrow> nat" where
  "encode_index static_index d = (if static_index = 0 \<and> d \<noteq> 0 then 61 + d else static_index)"

definition hpack_encode_field :: "allocator \<Rightarrow> hpack_dyn \<Rightarrow> nat \<Rightarrow> bytes \<Rightarrow> bytes \<Rightarrow> hpack_dyn \<times> bytes" where
  "hpack_encode_field mem dyn cap name value =
     (let pair_idx = encode_index (static_find_pair name value) (dyn_find_pair dyn name value);
          name_idx = encode_index (static_find_name name) (dyn_find_name dyn name)
      in if pair_idx \<noteq> 0 then (dyn, hpack_write_int_ex cap pair_idx 7 0x80)
         else let idx = hpack_write_int_ex cap name_idx 6 0x40
              in if idx = [] then (dyn, [])
                 else let out = (if name_idx \<noteq> 0 then idx
                                 else idx @ hpack_write_string (cap - length idx) name)
                      in (dyn_add mem dyn name value, out @ hpack_write_string (cap - length out) value))"


text \<open>
  The run of \<open>hpack_encode_field\<close> calls in \<open>build_request_headers\<close>, each into what is left of the
  buffer; a call that writes nothing ends it.
\<close>

fun encode_fields :: "allocator \<Rightarrow> nat \<Rightarrow> hpack_dyn \<Rightarrow> hpack_field list \<Rightarrow> hpack_dyn \<times> bytes option" where
  "encode_fields mem cap dyn [] = (dyn, Some [])"
| "encode_fields mem cap dyn (f # fs) =
     (case hpack_encode_field mem dyn cap (hf_name f) (hf_value f) of
        (dyn', w) \<Rightarrow>
          if w = [] then (dyn', None)
          else case encode_fields mem (cap - length w) dyn' fs of
                 (dyn'', out) \<Rightarrow> (dyn'', map_option ((@) w) out))"

section \<open>Integers round-trip\<close>

lemma mask_byte [simp]: "NOT (mask 7) = (0x80 :: byte)" "NOT (mask 6) = (0xc0 :: byte)" "mask 7 = (0x7f :: byte)"
  "mask 6 = (0x3f :: byte)"
  by (simp_all add: mask_eq_exp_minus_1)

lemma and_7f: "unat (b AND 0x7f) = unat (b :: byte) mod 128"
  by (simp add: mask_byte(3) [symmetric] take_bit_eq_mask [symmetric] unsigned_take_bit_eq del: mask_byte)
    (simp add: take_bit_eq_mod)

lemma and_80: "b AND 0x80 = 0 \<longleftrightarrow> unat (b :: byte) < 128"
proof -
  have "b AND 0x80 = 0 \<longleftrightarrow> \<not> bit b 7" using and_exp_eq_0_iff_not_bit [of b 7] by simp
  also have "bit b 7 = bit (unat b) 7" by (simp add: bit_unsigned_iff)
  also have "bit (unat b) 7 \<longleftrightarrow> odd (unat b div 128)" by (simp add: bit_iff_odd)
  also have "(\<not> odd (unat b div 128)) \<longleftrightarrow> unat b < 128"
  proof -
    have "unat b div 128 < 2" using unsigned_less [of b, where ?'a = nat] by simp
    then have "unat b div 128 = 0 \<or> unat b div 128 = 1" by arith
    then show ?thesis by auto
  qed
  finally show ?thesis .
qed

lemma unat_small_byte: "v < 256 \<Longrightarrow> unat (word_of_nat v :: byte) = v"
  by (simp add: unat_of_nat)

lemma unat_cont_byte: "v < 128 \<Longrightarrow> unat ((word_of_nat v :: byte) OR 0x80) = v + 128"
proof -
  assume v: "v < 128"
  then have "word_of_nat v AND (0x80 :: byte) = 0" by (simp add: and_80 unat_small_byte)
  then have "(word_of_nat v :: byte) OR 0x80 = word_of_nat v + 0x80"
    by (simp add: disjunctive_add_eq_or)
  also have "\<dots> = word_of_nat (v + 128)" by simp
  finally show ?thesis using v by (simp add: unat_small_byte del: of_nat_add)
qed

lemma read_write_cont:
  "j \<le> 4 \<Longrightarrow> v < 2 ^ (7 * (5 - j)) \<Longrightarrow>
   read_cont acc (7 * j) (write_cont v @ rest) = Some (acc + v * 2 ^ (7 * j), length (write_cont v))"
proof (induction v arbitrary: acc j rule: write_cont.induct)
  case (1 v)
  show ?case
  proof (cases "v \<ge> 0x80")
    case True
    have "j \<noteq> 4" using 1(3) True by auto
    then have j: "j < 4" using 1(2) by simp
    have "5 - j = Suc (4 - j)" using j by simp
    then have "v < 2 ^ (7 * (4 - j)) * 128" using 1(3) by (simp add: power_add)
    then have small: "v div 128 < 2 ^ (7 * (5 - Suc j))" by (simp add: less_mult_imp_div_less)
    have val: "unat (((word_of_nat (v mod 128) :: byte) OR 0x80) AND 0x7f) = v mod 128"
      "((word_of_nat (v mod 128) :: byte) OR 0x80) AND 0x80 \<noteq> 0"
      by (simp_all add: and_7f and_80 unat_cont_byte)
    have "acc + v mod 128 * 2 ^ (7 * j) + v div 128 * 2 ^ (7 * Suc j) = acc + v * 2 ^ (7 * j)"
    proof -
      have "v * 2 ^ (7 * j) = (v div 128 * 128 + v mod 128) * 2 ^ (7 * j)" by simp
      then show ?thesis by (simp only: distrib_right mult_Suc_right power_add) simp
    qed
    then show ?thesis
      using 1(1) [OF True, of "Suc j" "acc + v mod 128 * 2 ^ (7 * j)"] True small j val
      by (subst (1 2) write_cont.simps) (simp add: Let_def add.commute)
  next
    case False
    then show ?thesis by (subst (1 2) write_cont.simps) (simp add: Let_def and_7f and_80 unat_small_byte)
  qed
qed


lemma prefix_byte:
  assumes "prefix \<le> 8" "v \<le> mask prefix" "pattern AND mask prefix = 0"
  shows "unat ((pattern OR word_of_nat v :: byte) AND mask prefix) = v"
proof -
  have le: "v < 2 ^ prefix" using assms(2) by (simp add: mask_eq_exp_minus_1 less_eq_iff_succ_less)
  also have "(2 :: nat) ^ prefix \<le> 2 ^ 8" using assms(1) by (rule power_increasing) simp
  finally have v: "v < 256" by simp
  have "(pattern OR word_of_nat v :: byte) AND mask prefix = word_of_nat v AND mask prefix"
    using assms(3) by (simp add: bit.conj_disj_distrib2)
  then show ?thesis
    using le v by (simp add: take_bit_eq_mask [symmetric] unsigned_take_bit_eq unat_small_byte take_bit_nat_eq_self)
qed

lemma read_write_int:
  assumes "value \<le> 0x7fffffff" "prefix \<le> 8" "pattern AND mask prefix = 0"
    and "hpack_write_int_ex cap value prefix pattern \<noteq> []"
  shows "hpack_read_int (hpack_write_int_ex cap value prefix pattern @ rest) prefix =
    Some (value, length (hpack_write_int_ex cap value prefix pattern))"
proof (cases "value < mask prefix")
  case True
  then show ?thesis using assms prefix_byte [OF assms(2) _ assms(3), of "value"]
    by (auto simp: hpack_write_int_ex_def hpack_read_int_def Let_def of_nat_mask_eq split: if_splits)
next
  case False
  have "value - mask prefix < 2 ^ (7 * (5 - 0))" using assms(1) by simp
  from read_write_cont [OF _ this, of "mask prefix" rest] False show ?thesis
    using assms prefix_byte [OF assms(2) _ assms(3), of "mask prefix"]
    by (auto simp: hpack_write_int_ex_def hpack_read_int_def Let_def of_nat_mask_eq split: if_splits)
qed

text \<open>The high bits of the first byte are the pattern's.\<close>

lemma write_int_hd:
  assumes "prefix \<le> 8" "hpack_write_int_ex cap value prefix pattern \<noteq> []"
  shows "hd (hpack_write_int_ex cap value prefix pattern) AND NOT (mask prefix) = pattern AND NOT (mask prefix)"
proof -
  have *: "(pattern OR word_of_nat v :: byte) AND NOT (mask prefix) = pattern AND NOT (mask prefix)"
    if v: "v \<le> mask prefix" for v
  proof -
    have "v < 2 ^ prefix" using v by (simp add: mask_eq_exp_minus_1 less_eq_iff_succ_less)
    then have "word_of_nat v = (take_bit prefix (word_of_nat v) :: byte)"
      by (metis take_bit_of_nat take_bit_nat_eq_self)
    then have "word_of_nat v AND NOT (mask prefix) = (0 :: byte)"
      by (metis take_bit_eq_mask and.assoc and.right_neutral bit.conj_cancel_right bit.conj_zero_right)
    then show ?thesis by (simp add: bit.conj_disj_distrib2)
  qed
  show ?thesis using assms * [of "value"] * [of "mask prefix"]
    by (auto simp: hpack_write_int_ex_def Let_def of_nat_mask_eq split: if_splits)
qed

lemma write_int_hd_7:
  assumes "hpack_write_int_ex cap value 7 pattern \<noteq> []"
  shows "hd (hpack_write_int_ex cap value 7 pattern) AND 0x80 = pattern AND 0x80"
  using write_int_hd [OF _ assms] unfolding mask_byte(1,2) by simp

lemma write_int_hd_6:
  assumes "hpack_write_int_ex cap value 6 0x40 \<noteq> []"
  shows "hd (hpack_write_int_ex cap value 6 0x40) AND 0xc0 = 0x40"
    and "hd (hpack_write_int_ex cap value 6 0x40) AND 0x80 = 0"
proof -
  let ?b = "hd (hpack_write_int_ex cap value 6 0x40)"
  show c0: "?b AND 0xc0 = 0x40" using write_int_hd [OF _ assms] unfolding mask_byte(1,2) by simp
  have "?b AND 0x80 = (?b AND 0xc0) AND 0x80" by (simp add: and.assoc)
  then show "?b AND 0x80 = 0" unfolding c0 by simp
qed

lemma write_int_nonempty:
  "length (hpack_write_int_ex cap value prefix pattern) \<le> cap"
  by (simp add: hpack_write_int_ex_def Let_def)

section \<open>The dynamic table keeps its bounds\<close>

definition dyn_ok :: "hpack_dyn \<Rightarrow> bool" where
  "dyn_ok d \<longleftrightarrow>
     dt_size d = sum_list (map de_size (dt_entries d)) \<and> dt_size d \<le> dt_max_size d \<and>
     length (dt_entries d) \<le> H2C_DYN_MAX_ENTRIES \<and>
     (\<forall>e \<in> set (dt_entries d). de_size e = length (de_name e) + length (de_value e) + 32)"

definition dyn_sizes :: "hpack_dyn \<Rightarrow> bool" where
  "dyn_sizes d \<longleftrightarrow>
     dt_size d = sum_list (map de_size (dt_entries d)) \<and> length (dt_entries d) \<le> H2C_DYN_MAX_ENTRIES \<and>
     (\<forall>e \<in> set (dt_entries d). de_size e = length (de_name e) + length (de_value e) + 32)"

lemma dyn_ok_iff: "dyn_ok d \<longleftrightarrow> dyn_sizes d \<and> dt_size d \<le> dt_max_size d"
  by (auto simp: dyn_ok_def dyn_sizes_def)

text \<open>Eviction drops the oldest entries until the condition fails.\<close>

lemma evict_while:
  assumes "dyn_sizes d"
  shows "dyn_sizes (dyn_evict_while P d) \<and> dt_max_size (dyn_evict_while P d) = dt_max_size d \<and>
    (\<exists>k. dt_entries (dyn_evict_while P d) = drop k (dt_entries d)) \<and>
    (P (dyn_evict_while P d) \<longrightarrow> dt_entries (dyn_evict_while P d) = [])"
  using assms
proof (induction P d rule: dyn_evict_while.induct)
  case (1 P d)
  show ?case
  proof (cases "P d \<and> dt_entries d \<noteq> []")
    case True
    then obtain e es where e: "dt_entries d = e # es" by (cases "dt_entries d") auto
    have "dyn_sizes (dyn_evict_one d)" "dt_max_size (dyn_evict_one d) = dt_max_size d"
      "dt_entries (dyn_evict_one d) = es"
      using 1(2) e by (auto simp: dyn_sizes_def dyn_evict_one_def)
    moreover have "\<exists>k. drop n es = drop k (dt_entries d)" for n by (rule exI [of _ "Suc n"]) (simp add: e)
    ultimately show ?thesis using 1(1) [OF True]
      by (subst (1 2 3 4 5) dyn_evict_while.simps) (use True in \<open>auto\<close>)
  next
    case False
    then show ?thesis using 1(2) by (subst (1 2 3 4 5) dyn_evict_while.simps) (auto intro: exI [of _ 0])
  qed
qed

lemma dyn_reset_ok: "dyn_ok dyn_reset"
  by (simp add: dyn_ok_def dyn_reset_def)

lemma dyn_set_max_ok: "dyn_ok d \<Longrightarrow> dyn_ok (dyn_set_max d m) \<and> dt_max_size (dyn_set_max d m) = m"
  using evict_while [of "d\<lparr>dt_max_size := m\<rparr>" "\<lambda>d. dt_size d > dt_max_size d"]
  by (auto simp: dyn_ok_iff dyn_set_max_def dyn_sizes_def not_less)

lemma dyn_add_ok: "dyn_ok d \<Longrightarrow> dyn_ok (dyn_add mem d name value) \<and> dt_max_size (dyn_add mem d name value) = dt_max_size d"
proof -
  assume d: "dyn_ok d"
  let ?n = "length name + length value + 32"
  define e where "e = dyn_evict_while (dyn_no_room ?n) d"
  have e: "dyn_sizes e" "dt_max_size e = dt_max_size d" "dyn_no_room ?n e \<longrightarrow> dt_entries e = []"
    using evict_while [of d "dyn_no_room ?n"] d by (auto simp: dyn_ok_iff e_def)
  have "dt_entries e = [] \<longrightarrow> dt_size e = 0" using e(1) by (auto simp: dyn_sizes_def)
  then have "dt_size e \<le> dt_max_size e"
    using e(3) unfolding dyn_no_room_def by (cases "dt_entries e = []") linarith+
  then have ok: "dyn_ok e" using e(1) unfolding dyn_ok_iff by blast
  let ?x = "\<lparr>de_name = name, de_value = value, de_size = ?n\<rparr>"
  have new: "dyn_ok (e\<lparr>dt_entries := dt_entries e @ [?x], dt_size := dt_size e + ?n\<rparr>)"
    if "\<not> dyn_no_room ?n e"
  proof -
    have "dt_size e + ?n \<le> dt_max_size e" "Suc (length (dt_entries e)) \<le> H2C_DYN_MAX_ENTRIES"
      using that unfolding dyn_no_room_def by simp_all
    then show ?thesis using ok by (simp add: dyn_ok_def)
  qed
  have "dyn_add mem d name value = d \<or> dyn_add mem d name value = e \<or> \<not> dyn_no_room ?n e \<and>
      dyn_add mem d name value = e\<lparr>dt_entries := dt_entries e @ [?x], dt_size := dt_size e + ?n\<rparr>"
    unfolding dyn_add_def e_def [symmetric] Let_def by argo
  then show ?thesis
  proof (elim disjE conjE)
    assume "\<not> dyn_no_room ?n e" and "dyn_add mem d name value = e\<lparr>dt_entries := dt_entries e @ [?x], dt_size := dt_size e + ?n\<rparr>"
    then show ?thesis using new e(2) by simp
  qed (use d ok e(2) in simp_all)
qed


section \<open>Strings round-trip\<close>

definition ample :: allocator where
  "ample n = True"

lemma write_cont_length: "v < 2 ^ (7 * k) \<Longrightarrow> length (write_cont v) \<le> max k 1"
proof (induction v arbitrary: k rule: write_cont.induct)
  case (1 v)
  show ?case
  proof (cases "v \<ge> 0x80")
    case True
    obtain j where k: "k = Suc (Suc j)"
      using True 1(2) by (cases k; cases "k - 1") auto
    have "v div 128 < 2 ^ (7 * Suc j)" using 1(2) k by (simp add: power_add less_mult_imp_div_less)
    then show ?thesis using 1(1) [OF True, of "Suc j"] True k by (subst write_cont.simps) simp
  qed (subst write_cont.simps, simp)
qed

lemma write_int_fits:
  assumes "value < 2 ^ 32" "6 \<le> cap"
  shows "hpack_write_int_ex cap value prefix pattern \<noteq> [] \<and> length (hpack_write_int_ex cap value prefix pattern) \<le> 6"
proof -
  have "value - mask prefix < 2 ^ (7 * 5)" using assms(1) by simp
  from write_cont_length [OF this] show ?thesis using assms(2) by (auto simp: hpack_write_int_ex_def Let_def)
qed

lemma write_string_fits:
  assumes "length s \<le> 0x7fffffff" "length s + 6 \<le> cap"
  shows "hpack_write_string cap s \<noteq> [] \<and> length (hpack_write_string cap s) \<le> length s + 6"
  using write_int_fits [of "length s" cap 7 0] assms
  by (auto simp: hpack_write_string_def hpack_write_int_def Let_def)

lemma read_write_string:
  assumes "length s \<le> 0x7fffffff" "hpack_write_string cap s \<noteq> []"
  shows "hpack_read_string ample (hpack_write_string cap s @ rest) = Some (s, length (hpack_write_string cap s))"
proof -
  let ?n = "hpack_write_int_ex cap (length s) 7 0"
  have w: "hpack_write_string cap s = ?n @ s" "?n \<noteq> []"
    using assms by (auto simp: hpack_write_string_def hpack_write_int_def Let_def split: if_splits)
  have "hpack_read_int (?n @ s @ rest) 7 = Some (length s, length ?n)"
    by (rule read_write_int) (use assms w in auto)
  moreover have "hd ?n AND 0x80 = 0" using write_int_hd_7 [OF w(2)] by simp
  ultimately show ?thesis using w by (simp add: hpack_read_string_def ample_def Let_def)
qed

section \<open>Lookups\<close>

lemma find_pos_Suc: "find_pos P xs = Suc i \<Longrightarrow> i < length xs \<and> P (xs ! i)"
  by (induction xs arbitrary: i) (auto split: if_splits nat.splits, metis diff_Suc_Suc minus_nat.diff_0)

lemma static_length: "length HPACK_STATIC = 61"
  by (simp add: HPACK_STATIC_def)

lemma static_pair:
  "static_find_pair name value \<noteq> 0 \<Longrightarrow>
   static_find_pair name value \<le> 61 \<and>
   static_field (static_find_pair name value - 1) = \<lparr>hf_name = name, hf_value = value\<rparr>"
  using find_pos_Suc [of _ HPACK_STATIC] static_length
  by (cases "static_find_pair name value") (fastforce simp: static_find_pair_def static_field_def)+

lemma static_name:
  "static_find_name name \<noteq> 0 \<Longrightarrow>
   static_find_name name \<le> 61 \<and> hf_name (static_field (static_find_name name - 1)) = name"
  using find_pos_Suc [of _ HPACK_STATIC] static_length
  by (cases "static_find_name name") (fastforce simp: static_find_name_def static_field_def)+

lemma dyn_get_found:
  assumes "find_pos P (rev (dt_entries dyn)) = k" "k \<noteq> 0"
  shows "\<exists>e. dyn_get dyn k = Some e \<and> P e \<and> k \<le> length (dt_entries dyn)"
proof -
  obtain i where i: "k = Suc i" using assms(2) by (cases k) auto
  then have "i < length (dt_entries dyn)" "P (rev (dt_entries dyn) ! i)"
    using find_pos_Suc [of P "rev (dt_entries dyn)" i] assms(1) by auto
  then show ?thesis using i by (simp add: dyn_get_def rev_nth)
qed


section \<open>Encoder and decoder stay in step\<close>

text \<open>The bytes that are always enough for a field.\<close>

definition field_need :: "hpack_field \<Rightarrow> nat" where
  "field_need f = length (hf_name f) + length (hf_value f) + 18"

definition field_sane :: "hpack_field \<Rightarrow> bool" where
  "field_sane f \<longleftrightarrow> length (hf_name f) \<le> 0x7fffffff \<and> length (hf_value f) \<le> 0x7fffffff"

lemma indexed_resolves:
  assumes d: "dyn_ok d" and i: "i = encode_index (static_find_pair name value) (dyn_find_pair d name value)" "i \<noteq> 0"
  shows "decode_indexed ample d i = Some \<lparr>hf_name = name, hf_value = value\<rparr> \<and> i \<le> 189"
proof (cases "static_find_pair name value = 0")
  case False
  then show ?thesis using static_pair [of name "value"] i by (simp add: encode_index_def decode_indexed_def)
next
  case True
  then have k: "dyn_find_pair d name value \<noteq> 0" "i = 61 + dyn_find_pair d name value"
    using i by (auto simp: encode_index_def split: if_splits)
  from dyn_get_found [OF dyn_find_pair_def [symmetric] k(1)] obtain e
    where "dyn_get d (dyn_find_pair d name value) = Some e" "de_name e = name" "de_value e = value"
      "dyn_find_pair d name value \<le> length (dt_entries d)" by blast
  moreover have "length (dt_entries d) \<le> 128" using d by (simp add: dyn_ok_def H2C_DYN_MAX_ENTRIES_def)
  ultimately show ?thesis using k by (simp add: decode_indexed_def ample_def)
qed

lemma indexed_in_step:
  assumes "decode_indexed ample d i = Some f \<and> i \<le> 189" and w: "w = hpack_write_int_ex cap i 7 0x80" "w \<noteq> []"
  shows "decode_step ample d (w @ rest) = Some (d, [f], length w)"
proof -
  have "hpack_read_int (w @ rest) 7 = Some (i, length w)"
    unfolding w(1) by (rule read_write_int) (use assms in auto)
  moreover have "hd (w @ rest) AND 0x80 \<noteq> 0" using write_int_hd_7 w by simp
  ultimately show ?thesis using assms(1) by (simp add: decode_step_def)
qed

lemma resolve_in_step:
  assumes d: "dyn_ok d" and i: "i = encode_index (static_find_name name) (dyn_find_name d name)"
  shows "(i \<noteq> 0 \<longrightarrow> field_resolve_name ample d i = Some name) \<and> i \<le> 189"
proof (cases "static_find_name name = 0")
  case False
  then show ?thesis using static_name [of name] i
    by (simp add: encode_index_def field_resolve_name_def ample_def)
next
  case True
  show ?thesis
  proof (cases "dyn_find_name d name = 0")
    case False
    from dyn_get_found [OF dyn_find_name_def [symmetric] False] obtain e
      where "dyn_get d (dyn_find_name d name) = Some e" "de_name e = name"
        "dyn_find_name d name \<le> length (dt_entries d)" by blast
    moreover have "length (dt_entries d) \<le> 128" using d by (simp add: dyn_ok_def H2C_DYN_MAX_ENTRIES_def)
    ultimately show ?thesis using True False i by (simp add: encode_index_def field_resolve_name_def ample_def)
  qed (use True i in \<open>simp add: encode_index_def\<close>)
qed

lemma literal_in_step:
  assumes d: "dyn_ok d" and f: "length name \<le> 0x7fffffff" "length value \<le> 0x7fffffff"
    and i: "i = encode_index (static_find_name name) (dyn_find_name d name)"
    and x: "x = hpack_write_int_ex cap i 6 0x40" "x \<noteq> []"
    and n: "n = (if i \<noteq> 0 then [] else hpack_write_string c1 name)" "i = 0 \<longrightarrow> n \<noteq> []"
    and v: "v = hpack_write_string c2 value" "v \<noteq> []"
  shows "decode_step ample d (x @ n @ v @ rest) =
    Some (dyn_add ample d name value, [\<lparr>hf_name = name, hf_value = value\<rparr>], length (x @ n @ v))"
proof -
  note r = resolve_in_step [OF d i]
  have int: "hpack_read_int (x @ n @ v @ rest) 6 = Some (i, length x)"
    unfolding x(1) by (rule read_write_int) (use r x in \<open>auto simp: mask_byte\<close>)
  have val: "hpack_read_string ample (v @ rest) = Some (value, length v)"
    unfolding v(1) by (rule read_write_string) (use f v in auto)
  have name: "(if i = 0 then hpack_read_string ample (n @ v @ rest)
      else map_option (\<lambda>s. (s, 0)) (field_resolve_name ample d i)) = Some (name, length n)"
    using r n f read_write_string [of name c1 "v @ rest"] by auto
  have "decode_literal ample d 6 (x @ n @ v @ rest) =
      Some (\<lparr>hf_name = name, hf_value = value\<rparr>, length (x @ n @ v))"
  proof (cases "i = 0")
    case True
    then show ?thesis using int name val by (simp add: decode_literal_def)
  next
    case False
    then have "field_resolve_name ample d i = Some name" "n = []" using r n by auto
    then show ?thesis using int val False by (simp add: decode_literal_def)
  qed
  then show ?thesis using write_int_hd_6 x by (simp add: decode_step_def Let_def)
qed

lemma field_in_step:
  assumes d: "dyn_ok d" and f: "field_sane f" "field_need f \<le> cap"
    and enc: "hpack_encode_field ample d cap (hf_name f) (hf_value f) = (d', w)"
  shows "dyn_ok d' \<and> w \<noteq> [] \<and> length w \<le> field_need f \<and>
    decode_step ample d (w @ rest) = Some (d', [f], length w)"
proof -
  let ?i = "encode_index (static_find_pair (hf_name f) (hf_value f)) (dyn_find_pair d (hf_name f) (hf_value f))"
  let ?j = "encode_index (static_find_name (hf_name f)) (dyn_find_name d (hf_name f))"
  have fields: "\<lparr>hf_name = hf_name f, hf_value = hf_value f\<rparr> = f" by simp
  show ?thesis
  proof (cases "?i = 0")
    case False
    note r = indexed_resolves [OF d refl False]
    have w: "d' = d" "w = hpack_write_int_ex cap ?i 7 0x80" using enc False by (auto simp: hpack_encode_field_def)
    have "w \<noteq> [] \<and> length w \<le> 6" unfolding w(2) by (rule write_int_fits) (use r f in \<open>auto simp: field_need_def\<close>)
    then show ?thesis using indexed_in_step [OF r w(2)] w(1) d fields by (simp add: field_need_def)
  next
    case True
    define x where "x = hpack_write_int_ex cap ?j 6 0x40"
    define n where "n = (if ?j \<noteq> 0 then [] else hpack_write_string (cap - length x) (hf_name f))"
    define v where "v = hpack_write_string (cap - length (x @ n)) (hf_value f)"
    have x: "x \<noteq> [] \<and> length x \<le> 6"
      unfolding x_def by (rule write_int_fits) (use resolve_in_step [OF d refl, of "hf_name f"] f in \<open>auto simp: field_need_def\<close>)
    have n: "(?j = 0 \<longrightarrow> n \<noteq> []) \<and> length n \<le> length (hf_name f) + 6"
    proof -
      have "length (hf_name f) + 6 \<le> cap - length x" using x f(2) unfolding field_need_def by linarith
      then show ?thesis using write_string_fits [of "hf_name f" "cap - length x"] f(1)
        by (auto simp: n_def field_sane_def)
    qed
    have v: "v \<noteq> [] \<and> length v \<le> length (hf_value f) + 6"
      unfolding v_def by (rule write_string_fits) (use x n f in \<open>auto simp: field_need_def field_sane_def\<close>)
    have w: "d' = dyn_add ample d (hf_name f) (hf_value f)" "w = x @ n @ v"
      using enc True x by (auto simp: hpack_encode_field_def Let_def v_def n_def x_def [symmetric])
    show ?thesis
      using literal_in_step [OF d _ _ refl x_def _ n_def _ v_def, of rest] x n v w f(1) dyn_add_ok [OF d] fields
      by (simp add: field_need_def field_sane_def)
  qed
qed


text \<open>
  The contract between a stateful encoder and the decoder of its peer: from equal states the decoder
  reads one item off the encoder's bytes and ends in the encoder's state.
\<close>

locale codec_in_step =
  fixes inv :: "'t \<Rightarrow> bool"
    and sane :: "'h \<Rightarrow> bool"
    and need :: "'h \<Rightarrow> nat"
    and enc :: "nat \<Rightarrow> 't \<Rightarrow> 'h \<Rightarrow> 't \<times> bytes"
    and enc_all :: "nat \<Rightarrow> 't \<Rightarrow> 'h list \<Rightarrow> 't \<times> bytes option"
    and dec :: "'t \<Rightarrow> bytes \<Rightarrow> ('t \<times> 'h list \<times> nat) option"
    and dec_all :: "nat \<Rightarrow> 't \<Rightarrow> bytes \<Rightarrow> 'h list \<Rightarrow> 't \<times> 'h list option"
  assumes step: "inv t \<Longrightarrow> sane h \<Longrightarrow> need h \<le> cap \<Longrightarrow> enc cap t h = (t', w) \<Longrightarrow>
      inv t' \<and> w \<noteq> [] \<and> length w \<le> need h \<and> dec t (w @ rest) = Some (t', [h], length w)"
    and enc_Nil: "enc_all cap t [] = (t, Some [])"
    and enc_Cons: "enc cap t h = (t', w) \<Longrightarrow> w \<noteq> [] \<Longrightarrow> enc_all (cap - length w) t' hs = (t'', out) \<Longrightarrow>
      enc_all cap t (h # hs) = (t'', map_option ((@) w) out)"
    and dec_Nil: "dec_all m t [] acc = (t, Some acc)"
    and dec_Cons: "inp \<noteq> [] \<Longrightarrow> length acc < m \<Longrightarrow> dec t inp = Some (t', hs, n) \<Longrightarrow>
      dec_all m t inp acc = dec_all m t' (drop n inp) (acc @ hs)"
begin

lemma run_in_step:
  "inv t \<Longrightarrow> list_all sane hs \<Longrightarrow> sum_list (map need hs) \<le> cap \<Longrightarrow> length acc + length hs \<le> m \<Longrightarrow>
   \<exists>t' out. enc_all cap t hs = (t', Some out) \<and> length out \<le> sum_list (map need hs) \<and>
     dec_all m t out acc = (t', Some (acc @ hs)) \<and> inv t'"
proof (induction hs arbitrary: t cap acc)
  case Nil
  then show ?case by (simp add: enc_Nil dec_Nil)
next
  case (Cons h hs)
  obtain t1 w where enc: "enc cap t h = (t1, w)" by force
  have h: "inv t1" "w \<noteq> []" "length w \<le> need h" "dec t (w @ rest) = Some (t1, [h], length w)" for rest
    using step [OF Cons.prems(1) _ _ enc] Cons.prems by auto
  have "sum_list (map need hs) \<le> cap - length w" using Cons.prems(3) h(3) by simp
  then obtain t' out where hs: "enc_all (cap - length w) t1 hs = (t', Some out)"
      "length out \<le> sum_list (map need hs)" "dec_all m t1 out (acc @ [h]) = (t', Some ((acc @ [h]) @ hs))" "inv t'"
    using Cons.IH [of t1 "cap - length w" "acc @ [h]"] Cons.prems h(1) by auto
  have "dec_all m t (w @ out) acc = dec_all m t1 out (acc @ [h])"
    using dec_Cons [OF _ _ h(4), of out acc m] h(2) Cons.prems(4) by simp
  then show ?case using enc_Cons [OF enc h(2) hs(1)] hs h(3) by simp
qed

end

interpretation hpack: codec_in_step dyn_ok field_sane field_need
  "\<lambda>cap d f. hpack_encode_field ample d cap (hf_name f) (hf_value f)" "encode_fields ample"
  "decode_step ample" "decode_loop ample"
proof
  show "dyn_ok t' \<and> w \<noteq> [] \<and> length w \<le> field_need h \<and> decode_step ample t (w @ rest) = Some (t', [h], length w)"
    if "dyn_ok t" "field_sane h" "field_need h \<le> cap"
      "hpack_encode_field ample t cap (hf_name h) (hf_value h) = (t', w)" for t t' h cap w rest
    using field_in_step that by blast
qed (simp_all add: decode_loop.simps)

text \<open>
  C34: Header compression keeps both ends in step: from any well-formed dynamic table, encoding a
  list of header fields into a large enough buffer succeeds, and a decoder that starts from the same
  table reads exactly these fields back and ends with the encoder's table, which again is
  well-formed, so the argument carries from one header block to the next.
\<close>

theorem hpack_in_step:
  assumes "dyn_ok d" and "list_all field_sane fs" and "sum_list (map field_need fs) \<le> cap"
    and "length fs \<le> max_fields"
  shows "\<exists>d' out. encode_fields ample cap d fs = (d', Some out) \<and> length out \<le> cap \<and>
    hpack_decode_block ample d out max_fields = (d', Some fs) \<and> dyn_ok d'"
  using hpack.run_in_step [OF assms(1-3), of "[]" max_fields] assms(3,4)
  by (fastforce simp: hpack_decode_block_def)

theorem hpack_in_step_witness:
  "\<exists>d' out. encode_fields ample 1024 dyn_reset
      [\<lparr>hf_name = c_bytes '':path'', hf_value = c_bytes ''/x''\<rparr>, \<lparr>hf_name = c_bytes ''te'', hf_value = c_bytes ''trailers''\<rparr>] =
      (d', Some out) \<and>
    hpack_decode_block ample dyn_reset out 32 = (d',
      Some [\<lparr>hf_name = c_bytes '':path'', hf_value = c_bytes ''/x''\<rparr>, \<lparr>hf_name = c_bytes ''te'', hf_value = c_bytes ''trailers''\<rparr>])"
  using hpack_in_step [OF dyn_reset_ok, of
      "[\<lparr>hf_name = c_bytes '':path'', hf_value = c_bytes ''/x''\<rparr>, \<lparr>hf_name = c_bytes ''te'', hf_value = c_bytes ''trailers''\<rparr>]" 1024 32]
  by (fastforce simp: field_sane_def field_need_def c_bytes_def)

section \<open>The decoder on arbitrary input\<close>

lemma decode_step_ok: "dyn_ok d \<Longrightarrow> decode_step mem d inp = Some (d', fs, n) \<Longrightarrow>
    dyn_ok d' \<and> dt_max_size d' \<le> dt_max_size d \<and> length fs \<le> 1"
  using dyn_add_ok dyn_set_max_ok
  by (auto simp: decode_step_def Let_def not_less split: if_splits option.splits prod.splits)

lemma decode_loop_ok:
  "dyn_ok d \<Longrightarrow> length fs \<le> m \<Longrightarrow> decode_loop mem m d inp fs = (d', r) \<Longrightarrow>
   dyn_ok d' \<and> dt_max_size d' \<le> dt_max_size d \<and> (case r of None \<Rightarrow> True | Some gs \<Rightarrow> length gs \<le> m)"
proof (induction mem m d inp fs rule: decode_loop.induct)
  case (1 mem m d inp fs)
  show ?case
  proof (cases "inp = [] \<or> length fs \<ge> m \<or> decode_step mem d inp = None")
    case True
    then show ?thesis using 1(2-4) by (auto simp: decode_loop.simps [of mem m d inp fs] split: if_splits)
  next
    case False
    then obtain d1 new n where st: "decode_step mem d inp = Some (d1, new, n)" by auto
    have "decode_loop mem m d1 (drop n inp) (fs @ new) = (d', r)"
      using False st 1(4) by (simp add: decode_loop.simps [of mem m d inp fs])
    then show ?thesis using 1(1) [OF _ _ st refl refl] decode_step_ok [OF 1(2) st] False 1(3) by auto
  qed
qed

text \<open>
  C35: The decoder never lets the peer grow its table: whatever bytes arrive and whichever
  allocations fail, decoding ends, the table's recorded size stays the sum of its entries' sizes and
  within its limit, the limit never rises, there are at most 128 entries, and no more
  fields are produced than the caller has room for.
\<close>

theorem hpack_decode_bounded:
  assumes "dyn_ok d" and "hpack_decode_block mem d inp max_fields = (d', r)"
  shows "dyn_ok d' \<and> dt_max_size d' \<le> dt_max_size d \<and> length (dt_entries d') \<le> 128 \<and>
    (case r of None \<Rightarrow> True | Some fs \<Rightarrow> length fs \<le> max_fields)"
  using decode_loop_ok [OF assms(1) _ assms(2) [unfolded hpack_decode_block_def]]
  by (auto simp: dyn_ok_def H2C_DYN_MAX_ENTRIES_def)

theorem hpack_decode_bounded_witness:
  "dyn_ok (fst (hpack_decode_block (\<lambda>n. n < 10) dyn_reset [0x82, 0x40, 1, 0x61, 1, 0x62, 0xff] 32))"
  using hpack_decode_bounded [OF dyn_reset_ok, of "\<lambda>n. n < 10" "[0x82, 0x40, 1, 0x61, 1, 0x62, 0xff]" 32]
  by (metis prod.collapse)

text \<open>
  A table-size update may only lower the limit: after a peer has lowered it, its update back to the
  size this side advertises is refused, although RFC 7541 section 6.3 allows any size up to that.
\<close>

lemma size_update_cannot_return:
  "decode_step mem (dyn_set_max dyn_reset 0) [0x3f, 0xe1, 0x1f] = None"
  by (simp add: decode_step_def hpack_read_int_def Let_def mask_eq_exp_minus_1 dyn_set_max_def dyn_reset_def
      dyn_evict_while.simps)

text \<open>
  A value that does not fit is dropped without an error: the encoder reports success with the index
  alone, and its table gains an entry the decoder never sees.
\<close>

lemma path_lookups:
  "static_find_pair (c_bytes '':path'') (c_bytes ''/abcd'') = 0" "static_find_name (c_bytes '':path'') = 4"
  by (simp_all add: static_find_pair_def static_find_name_def HPACK_STATIC_def c_bytes_def)

lemma encode_drops_value:
  "snd (hpack_encode_field ample dyn_reset 3 (c_bytes '':path'') (c_bytes ''/abcd'')) = [0x44]"
  "dt_entries (fst (hpack_encode_field ample dyn_reset 3 (c_bytes '':path'') (c_bytes ''/abcd''))) \<noteq> []"
proof -
  have idx: "encode_index 0 (dyn_find_pair dyn_reset n v) = 0" "encode_index 4 k = 4" for n v k
    by (simp_all add: encode_index_def dyn_find_pair_def dyn_reset_def)
  have w: "hpack_write_int_ex 3 4 6 0x40 = [0x44]" "hpack_write_string 2 (c_bytes ''/abcd'') = []"
    by (simp_all add: hpack_write_int_ex_def hpack_write_string_def c_bytes_def Let_def mask_eq_exp_minus_1)
  show "snd (hpack_encode_field ample dyn_reset 3 (c_bytes '':path'') (c_bytes ''/abcd'')) = [0x44]"
    by (simp add: hpack_encode_field_def path_lookups idx w)
  show "dt_entries (fst (hpack_encode_field ample dyn_reset 3 (c_bytes '':path'') (c_bytes ''/abcd''))) \<noteq> []"
    by (simp add: hpack_encode_field_def path_lookups idx w)
      (simp add: dyn_add_def dyn_reset_def Let_def c_bytes_def dyn_evict_while.simps dyn_no_room_def
        H2C_DYN_MAX_ENTRIES_def ample_def)
qed

end
