(* ===== verification/H2c_Frames.thy ===== *)
theory H2c_Frames
  imports Hpack
begin

text \<open>
  HTTP/2 framing of \<open>containerd/h2c.c\<close>: the nine-byte frame header and the incremental frame
  reader over a non-blocking socket. The socket is a script of what successive \<open>read\<close> calls find:
  bytes, a signal, nothing yet, the peer's close or an error. Whatever the division of the bytes over
  the reads, the reader returns the frames of the byte stream, in order.
\<close>

section \<open>Frames on the wire\<close>

record h2_frame =
  fr_type :: byte
  fr_flags :: byte
  fr_sid :: u32
  fr_payload :: bytes

definition H2_DATA :: byte where "H2_DATA = 0"
definition H2_HEADERS :: byte where "H2_HEADERS = 1"
definition H2_PRIORITY :: byte where "H2_PRIORITY = 2"
definition H2_RST_STREAM :: byte where "H2_RST_STREAM = 3"
definition H2_SETTINGS :: byte where "H2_SETTINGS = 4"
definition H2_PUSH_PROMISE :: byte where "H2_PUSH_PROMISE = 5"
definition H2_PING :: byte where "H2_PING = 6"
definition H2_GOAWAY :: byte where "H2_GOAWAY = 7"
definition H2_WINDOW_UPDATE :: byte where "H2_WINDOW_UPDATE = 8"
definition H2_CONTINUATION :: byte where "H2_CONTINUATION = 9"

lemmas h2_types = H2_DATA_def H2_HEADERS_def H2_PRIORITY_def H2_RST_STREAM_def H2_SETTINGS_def
  H2_PUSH_PROMISE_def H2_PING_def H2_GOAWAY_def H2_WINDOW_UPDATE_def H2_CONTINUATION_def

definition H2_FLAG_ACK :: byte where "H2_FLAG_ACK = 0x1"
definition H2_FLAG_END_STREAM :: byte where "H2_FLAG_END_STREAM = 0x1"
definition H2_FLAG_END_HEADERS :: byte where "H2_FLAG_END_HEADERS = 0x4"
definition H2_FLAG_PADDED :: byte where "H2_FLAG_PADDED = 0x8"
definition H2_FLAG_PRIORITY :: byte where "H2_FLAG_PRIORITY = 0x20"

lemmas h2_flags = H2_FLAG_ACK_def H2_FLAG_END_STREAM_def H2_FLAG_END_HEADERS_def H2_FLAG_PADDED_def
  H2_FLAG_PRIORITY_def

text \<open>Big-endian numbers: the shifts and ors of the source, most significant byte first.\<close>

fun be_nat :: "bytes \<Rightarrow> nat" where
  "be_nat [] = 0"
| "be_nat (b # bs) = unat b * 256 ^ length bs + be_nat bs"

fun be_bytes :: "nat \<Rightarrow> nat \<Rightarrow> bytes" where
  "be_bytes 0 x = []"
| "be_bytes (Suc k) x = word_of_nat (x div 256 ^ k mod 256) # be_bytes k x"

definition frame_header :: "byte \<Rightarrow> byte \<Rightarrow> u32 \<Rightarrow> nat \<Rightarrow> bytes" where
  "frame_header typ flags sid len = be_bytes 3 len @ [typ, flags] @ be_bytes 4 (unat sid)"

text \<open>What \<open>frame_write\<close> puts on the wire; a longer payload is refused.\<close>

definition frame_bytes :: "h2_frame \<Rightarrow> bytes option" where
  "frame_bytes f =
     (if length (fr_payload f) > 0xffffff then None
      else Some (frame_header (fr_type f) (fr_flags f) (fr_sid f) (length (fr_payload f)) @ fr_payload f))"

section \<open>The socket and the reader\<close>

datatype read_event = Rd_data bytes | Rd_intr | Rd_again | Rd_error

datatype read_result = Got bytes | Interrupted | Would_block | Failed

text \<open>One \<open>read\<close> of at most \<open>want\<close> bytes; a read of zero bytes is taken for the peer's close.\<close>

fun read_some :: "nat \<Rightarrow> read_event list \<Rightarrow> read_result \<times> read_event list" where
  "read_some want [] = (Would_block, [])"
| "read_some want (Rd_data ds # sc) =
     (if ds = [] then (Failed, sc)
      else (Got (take want ds), if drop want ds = [] then sc else Rd_data (drop want ds) # sc))"
| "read_some want (Rd_intr # sc) = (Interrupted, sc)"
| "read_some want (Rd_again # sc) = (Would_block, sc)"
| "read_some want (Rd_error # sc) = (Failed, sc)"

definition sys_read :: "nat \<Rightarrow> read_event list \<Rightarrow> read_result \<times> read_event list" where
  "sys_read want sc = (if want = 0 then (Failed, sc) else read_some want sc)"

record frame_reader =
  rx_hdr :: bytes
  rx_payload :: bytes
  rx_cap :: nat
  rx_len :: nat
  rx_type :: byte
  rx_flags :: byte
  rx_sid :: u32

definition frame_reader_reset :: "frame_reader \<Rightarrow> frame_reader" where
  "frame_reader_reset r = r\<lparr>rx_hdr := [], rx_payload := []\<rparr>"

text \<open>The header is read when no payload byte is there yet; \<open>None\<close> when the buffer cannot grow.\<close>

definition rx_parse :: "allocator \<Rightarrow> frame_reader \<Rightarrow> frame_reader option" where
  "rx_parse mem r =
     (let h = rx_hdr r; len = be_nat (take 3 h);
          r' = r\<lparr>rx_len := len, rx_type := h ! 3, rx_flags := h ! 4, rx_sid := word_of_nat (be_nat (drop 5 h))\<rparr>
      in if rx_payload r \<noteq> [] then Some r
         else if len > rx_cap r then if mem len then Some (r'\<lparr>rx_cap := len\<rparr>) else None
         else Some r')"

fun script_size :: "read_event list \<Rightarrow> nat" where
  "script_size [] = 0"
| "script_size (Rd_data ds # sc) = Suc (length ds + script_size sc)"
| "script_size (_ # sc) = Suc (script_size sc)"

lemma sys_read_smaller:
  "sys_read want sc = (Got ds, sc') \<Longrightarrow> script_size sc' < script_size sc"
  "sys_read want sc = (Interrupted, sc') \<Longrightarrow> script_size sc' < script_size sc"
  by (induction want sc rule: read_some.induct) (auto simp: sys_read_def split: if_splits)

function frame_reader_fill ::
  "allocator \<Rightarrow> frame_reader \<Rightarrow> read_event list \<Rightarrow> int \<times> frame_reader \<times> read_event list" where
  "frame_reader_fill mem r sc =
     (if length (rx_hdr r) < 9 then
        case sys_read (9 - length (rx_hdr r)) sc of
          (Got ds, sc') \<Rightarrow> frame_reader_fill mem (r\<lparr>rx_hdr := rx_hdr r @ ds\<rparr>) sc'
        | (Interrupted, sc') \<Rightarrow> frame_reader_fill mem r sc'
        | (Would_block, sc') \<Rightarrow> (0, r, sc')
        | (Failed, sc') \<Rightarrow> (-1, r, sc')
      else
        case rx_parse mem r of
          None \<Rightarrow> (-1, r, sc)
        | Some r1 \<Rightarrow>
            if rx_payload r1 = [] \<and> rx_len r1 = 0 then (1, r1, sc)
            else case sys_read (rx_len r1 - length (rx_payload r1)) sc of
                   (Got ds, sc') \<Rightarrow>
                     let r2 = r1\<lparr>rx_payload := rx_payload r1 @ ds\<rparr>
                     in if length (rx_payload r2) \<ge> rx_len r2 then (1, r2, sc')
                        else frame_reader_fill mem r2 sc'
                 | (Interrupted, sc') \<Rightarrow> frame_reader_fill mem r1 sc'
                 | (Would_block, sc') \<Rightarrow> (0, r1, sc')
                 | (Failed, sc') \<Rightarrow> (-1, r1, sc'))"
  by pat_completeness auto
termination
  by (relation "measure (\<lambda>(mem, r, sc). script_size sc)") (auto dest!: sym [of "(_, _)"] intro: sys_read_smaller)

declare frame_reader_fill.simps [simp del]

section \<open>Big-endian numbers round-trip\<close>

lemma length_be_bytes [simp]: "length (be_bytes k x) = k"
  by (induction k) auto

lemma be_bytes_3: "be_bytes 3 x = [word_of_nat (x div 65536 mod 256), word_of_nat (x div 256 mod 256), word_of_nat (x mod 256)]"
  by (simp add: eval_nat_numeral(3) [symmetric] numeral_3_eq_3)

lemma be_bytes_4: "be_bytes 4 x = word_of_nat (x div 16777216 mod 256) # be_bytes 3 x"
  using be_bytes.simps(2) [of 3 x] by simp

lemma be_nat_bytes: "be_nat (be_bytes k x) = x mod 256 ^ k"
proof (induction k)
  case (Suc k)
  have "x mod 256 ^ Suc k = (x div 256 ^ k mod 256) * 256 ^ k + x mod 256 ^ k"
    using mod_mult2_eq [of x "256 ^ k" 256] by (simp add: mult.commute)
  then show ?case using Suc by (simp add: unat_small_byte)
qed simp

lemma be_nat_less: "be_nat bs < 256 ^ length bs"
proof (induction bs)
  case (Cons b bs)
  have "unat b \<le> 255" using unsigned_less [of b, where ?'a = nat] by simp
  then have "unat b * 256 ^ length bs \<le> 255 * 256 ^ length bs" by (rule mult_right_mono) simp
  then have "unat b * 256 ^ length bs + be_nat bs < 255 * 256 ^ length bs + 256 ^ length bs"
    using Cons by (rule add_le_less_mono)
  then show ?case by simp
qed simp

lemma be_bytes_append_high: "be_bytes k (y * 256 ^ k + x) = be_bytes k x"
proof (induction k arbitrary: y)
  case (Suc k)
  have "be_bytes k (y * 256 ^ Suc k + x) = be_bytes k ((y * 256) * 256 ^ k + x)" by (simp add: algebra_simps)
  moreover have "(y * 256 ^ Suc k + x) div 256 ^ k mod 256 = x div 256 ^ k mod 256"
  proof -
    have "y * 256 ^ Suc k + x = x + (y * 256) * 256 ^ k" by (simp add: algebra_simps)
    then show ?thesis by (simp only: div_mult_self1 power_not_zero) simp
  qed
  ultimately show ?case using Suc [of "y * 256"] by simp
qed simp

lemma be_bytes_nat: "be_bytes (length bs) (be_nat bs) = bs"
proof (induction bs)
  case (Cons b bs)
  have "unat b < 256" using unsigned_less [of b, where ?'a = nat] by simp
  then have "(unat b * 256 ^ length bs + be_nat bs) div 256 ^ length bs mod 256 = unat b"
    using be_nat_less [of bs] by simp
  then show ?case using Cons be_bytes_append_high [of "length bs" "unat b"] by simp
qed simp


section \<open>The reference: frames of a byte stream\<close>

definition frame_of :: "bytes \<Rightarrow> bytes \<Rightarrow> h2_frame" where
  "frame_of h payload =
     \<lparr>fr_type = h ! 3, fr_flags = h ! 4, fr_sid = word_of_nat (be_nat (take 4 (drop 5 h))), fr_payload = payload\<rparr>"

function parse_frames :: "bytes \<Rightarrow> h2_frame list \<times> bytes" where
  "parse_frames bs =
     (let len = be_nat (take 3 bs)
      in if length bs < 9 + len \<or> length bs < 9 then ([], bs)
         else case parse_frames (drop (9 + len) bs) of
                (fs, rest) \<Rightarrow> (frame_of bs (take len (drop 9 bs)) # fs, rest))"
  by pat_completeness auto
termination by (relation "measure length") auto

declare parse_frames.simps [simp del]

definition incomplete :: "bytes \<Rightarrow> bool" where
  "incomplete bs \<longleftrightarrow> length bs < 9 \<or> length bs < 9 + be_nat (take 3 bs)"

lemma parse_incomplete: "incomplete bs \<Longrightarrow> parse_frames bs = ([], bs)"
  by (auto simp: parse_frames.simps [of bs] incomplete_def)

lemma parse_one:
  assumes "length h = 9" "length payload = be_nat (take 3 h)"
  shows "parse_frames (h @ payload @ rest) =
    (frame_of h payload # fst (parse_frames rest), snd (parse_frames rest))"
  using assms by (auto simp: parse_frames.simps [of "h @ payload @ rest"] Let_def frame_of_def nth_append split: prod.splits)

lemma parse_frame_bytes:
  assumes "frame_bytes f = Some w"
  shows "parse_frames (w @ rest) = (f # fst (parse_frames rest), snd (parse_frames rest))"
proof -
  let ?h = "frame_header (fr_type f) (fr_flags f) (fr_sid f) (length (fr_payload f))"
  have w: "w = ?h @ fr_payload f" and small: "length (fr_payload f) < 256 ^ 3"
    using assms by (auto simp: frame_bytes_def split: if_splits)
  have h: "length ?h = 9" "take 3 ?h = be_bytes 3 (length (fr_payload f))"
    by (simp_all add: frame_header_def)
  have len: "length (fr_payload f) = be_nat (take 3 ?h)"
    using small by (simp add: h(2) be_nat_bytes)
  have "unat (fr_sid f) < 256 ^ 4" using unsigned_less [of "fr_sid f", where ?'a = nat] by simp
  then have "frame_of ?h (fr_payload f) = f"
    by (simp add: frame_of_def frame_header_def nth_append be_nat_bytes)
  then show ?thesis using parse_one [OF h(1) len, of rest] w by simp
qed

lemma parse_wire:
  "map frame_bytes fs = map Some ws \<Longrightarrow> incomplete rest \<Longrightarrow> parse_frames (concat ws @ rest) = (fs, rest)"
proof (induction fs arbitrary: ws)
  case Nil
  then show ?case by (simp add: parse_incomplete)
next
  case (Cons f fs)
  then obtain w ws' where "ws = w # ws'" "frame_bytes f = Some w" "map frame_bytes fs = map Some ws'"
    by (cases ws) auto
  then show ?case using parse_frame_bytes [of f w "concat ws' @ rest"] Cons by simp
qed

section \<open>The reader against the reference\<close>

definition calm :: "read_event list \<Rightarrow> bool" where
  "calm sc \<longleftrightarrow> (\<forall>ev \<in> set sc. ev \<noteq> Rd_error \<and> ev \<noteq> Rd_data [])"

fun script_data :: "read_event list \<Rightarrow> bytes" where
  "script_data [] = []"
| "script_data (Rd_data ds # sc) = ds @ script_data sc"
| "script_data (_ # sc) = script_data sc"

definition pending :: "frame_reader \<Rightarrow> bytes" where
  "pending r = rx_hdr r @ rx_payload r"

definition rx_parsed :: "frame_reader \<Rightarrow> bool" where
  "rx_parsed r \<longleftrightarrow> length (rx_hdr r) = 9 \<and> rx_len r = be_nat (take 3 (rx_hdr r)) \<and> rx_type r = rx_hdr r ! 3 \<and>
     rx_flags r = rx_hdr r ! 4 \<and> rx_sid r = word_of_nat (be_nat (drop 5 (rx_hdr r)))"

definition rx_ok :: "frame_reader \<Rightarrow> bool" where
  "rx_ok r \<longleftrightarrow> length (rx_hdr r) \<le> 9 \<and>
     (rx_payload r \<noteq> [] \<longrightarrow> rx_parsed r \<and> length (rx_payload r) < rx_len r)"

definition rx_done :: "frame_reader \<Rightarrow> bool" where
  "rx_done r \<longleftrightarrow> rx_parsed r \<and> length (rx_payload r) = rx_len r"

definition rx_frame :: "frame_reader \<Rightarrow> h2_frame" where
  "rx_frame r = \<lparr>fr_type = rx_type r, fr_flags = rx_flags r, fr_sid = rx_sid r, fr_payload = rx_payload r\<rparr>"

lemma calm_read:
  assumes "calm sc" "0 < want" "sys_read want sc = (res, sc')"
  shows "calm sc' \<and> (case res of
      Got ds \<Rightarrow> ds \<noteq> [] \<and> length ds \<le> want \<and> script_data sc = ds @ script_data sc'
    | Interrupted \<Rightarrow> script_data sc = script_data sc'
    | Would_block \<Rightarrow> script_data sc = script_data sc' \<and> (sc \<noteq> [] \<longrightarrow> script_size sc' < script_size sc)
    | Failed \<Rightarrow> False)"
  using assms
  by (induction want sc rule: read_some.induct) (auto simp: sys_read_def calm_def split: if_splits)

lemma rx_parse_ample:
  assumes "rx_ok r" "length (rx_hdr r) = 9"
  shows "\<exists>r1. rx_parse ample r = Some r1 \<and> rx_parsed r1 \<and> rx_hdr r1 = rx_hdr r \<and> rx_payload r1 = rx_payload r"
  using assms by (auto simp: rx_parse_def ample_def Let_def rx_parsed_def rx_ok_def)

definition fill_post ::
  "frame_reader \<Rightarrow> read_event list \<Rightarrow> int \<times> frame_reader \<times> read_event list \<Rightarrow> bool" where
  "fill_post r sc res =
     (case res of (rc, r', sc') \<Rightarrow>
        calm sc' \<and> pending r @ script_data sc = pending r' @ script_data sc' \<and> script_size sc' \<le> script_size sc \<and>
        (rc = 0 \<and> rx_ok r' \<and> incomplete (pending r') \<and> (sc \<noteq> [] \<longrightarrow> script_size sc' < script_size sc) \<or>
         rc = 1 \<and> rx_done r' \<and> (incomplete (pending r) \<longrightarrow> script_size sc' < script_size sc)))"

lemma fill_post_later:
  assumes "fill_post r1 sc1 res" "pending r @ script_data sc = pending r1 @ script_data sc1"
    and "script_size sc1 < script_size sc"
  shows "fill_post r sc res"
  using assms unfolding fill_post_def by (auto split: prod.splits)

lemma script_size_blocked:
  "sys_read want sc = (Would_block, sc') \<Longrightarrow> script_size sc' \<le> script_size sc"
  by (induction want sc rule: read_some.induct) (auto simp: sys_read_def split: if_splits)

lemma fill_header:
  assumes hdr: "length (rx_hdr r) < 9" and ok: "rx_ok r" "calm sc"
    and IH: "\<And>ds sc'. sys_read (9 - length (rx_hdr r)) sc = (Got ds, sc') \<Longrightarrow>
        rx_ok (r\<lparr>rx_hdr := rx_hdr r @ ds\<rparr>) \<Longrightarrow> calm sc' \<Longrightarrow>
        fill_post (r\<lparr>rx_hdr := rx_hdr r @ ds\<rparr>) sc' (frame_reader_fill ample (r\<lparr>rx_hdr := rx_hdr r @ ds\<rparr>) sc')"
      "\<And>sc'. sys_read (9 - length (rx_hdr r)) sc = (Interrupted, sc') \<Longrightarrow> calm sc' \<Longrightarrow>
        fill_post r sc' (frame_reader_fill ample r sc')"
  shows "fill_post r sc (frame_reader_fill ample r sc)"
proof -
  obtain res sc' where rd: "sys_read (9 - length (rx_hdr r)) sc = (res, sc')" by force
  note cr = calm_read [OF ok(2) _ rd]
  have none: "rx_payload r = []" using ok(1) hdr by (auto simp: rx_ok_def rx_parsed_def)
  show ?thesis
  proof (cases res)
    case (Got ds)
    let ?r = "r\<lparr>rx_hdr := rx_hdr r @ ds\<rparr>"
    have "rx_ok ?r" using cr hdr none Got by (auto simp: rx_ok_def)
    then have "fill_post ?r sc' (frame_reader_fill ample ?r sc')" using IH(1) rd cr hdr Got by simp
    moreover have "pending r @ script_data sc = pending ?r @ script_data sc'"
      using cr hdr none Got by (simp add: pending_def)
    ultimately show ?thesis using fill_post_later sys_read_smaller(1) rd Got hdr
      by (subst frame_reader_fill.simps) simp
  next
    case Interrupted
    then show ?thesis using fill_post_later [OF IH(2)] cr hdr rd sys_read_smaller(2)
      by (subst frame_reader_fill.simps) simp
  next
    case Would_block
    have "incomplete (pending r)" using hdr none by (simp add: incomplete_def pending_def)
    then show ?thesis using cr hdr rd Would_block ok script_size_blocked
      by (subst frame_reader_fill.simps) (simp add: fill_post_def)
  next
    case Failed
    then show ?thesis using cr hdr by simp
  qed
qed

lemma fill_payload:
  assumes hdr: "length (rx_hdr r) = 9" and ok: "rx_ok r" "calm sc"
    and IH: "\<And>r1 ds sc'. rx_parse ample r = Some r1 \<Longrightarrow>
        sys_read (rx_len r1 - length (rx_payload r1)) sc = (Got ds, sc') \<Longrightarrow>
        rx_ok (r1\<lparr>rx_payload := rx_payload r1 @ ds\<rparr>) \<Longrightarrow> calm sc' \<Longrightarrow>
        length (rx_payload r1) + length ds < rx_len r1 \<Longrightarrow>
        fill_post (r1\<lparr>rx_payload := rx_payload r1 @ ds\<rparr>) sc'
          (frame_reader_fill ample (r1\<lparr>rx_payload := rx_payload r1 @ ds\<rparr>) sc')"
      "\<And>r1 sc'. rx_parse ample r = Some r1 \<Longrightarrow> \<not> (rx_payload r1 = [] \<and> rx_len r1 = 0) \<Longrightarrow>
        sys_read (rx_len r1 - length (rx_payload r1)) sc = (Interrupted, sc') \<Longrightarrow>
        rx_ok r1 \<Longrightarrow> calm sc' \<Longrightarrow> fill_post r1 sc' (frame_reader_fill ample r1 sc')"
  shows "fill_post r sc (frame_reader_fill ample r sc)"
proof -
  obtain r1 where r1: "rx_parse ample r = Some r1" "rx_parsed r1" "rx_hdr r1 = rx_hdr r" "rx_payload r1 = rx_payload r"
    using rx_parse_ample [OF ok(1) hdr] by blast
  have pend: "pending r1 = pending r" using r1 by (simp add: pending_def)
  show ?thesis
  proof (cases "rx_payload r1 = [] \<and> rx_len r1 = 0")
    case True
    then have "\<not> incomplete (pending r)" using r1 hdr by (simp add: incomplete_def pending_def rx_parsed_def)
    then show ?thesis using True r1 hdr ok pend
      by (subst frame_reader_fill.simps) (simp add: fill_post_def rx_done_def)
  next
    case False
    have "rx_payload r \<noteq> [] \<longrightarrow> rx_len r1 = rx_len r" using r1(1) by (auto simp: rx_parse_def)
    then have short: "length (rx_payload r1) < rx_len r1" using False r1 ok(1) by (cases "rx_payload r1 = []") (auto simp: rx_ok_def)
    have ok1: "rx_ok r1" using r1 short hdr by (simp add: rx_ok_def)
    obtain res sc' where rd: "sys_read (rx_len r1 - length (rx_payload r1)) sc = (res, sc')" by force
    note cr = calm_read [OF ok(2) _ rd]
    show ?thesis
    proof (cases res)
      case (Got ds)
      let ?r = "r1\<lparr>rx_payload := rx_payload r1 @ ds\<rparr>"
      have le: "length (rx_payload r1) + length ds \<le> rx_len r1" "ds \<noteq> []" "calm sc'" using cr short Got by auto
      have eq: "pending r @ script_data sc = pending ?r @ script_data sc'"
        using cr short r1 Got by (simp add: pending_def)
      have sm: "script_size sc' < script_size sc" using sys_read_smaller(1) rd Got by simp
      show ?thesis
      proof (cases "length (rx_payload r1) + length ds < rx_len r1")
        case True
        then have "rx_ok ?r" using r1 hdr by (simp add: rx_ok_def rx_parsed_def)
        then show ?thesis using fill_post_later [OF IH(1) eq sm] True r1 rd Got le False hdr short
          by (subst frame_reader_fill.simps) simp
      next
        case full: False
        then have "rx_done ?r" using le r1 by (simp add: rx_done_def rx_parsed_def)
        then show ?thesis using full r1 rd Got le False hdr eq sm
          by (subst frame_reader_fill.simps) (auto simp: fill_post_def Let_def)
      qed
    next
      case Interrupted
      then show ?thesis using fill_post_later [OF IH(2)] cr rd r1 ok1 False hdr short pend sys_read_smaller(2)
        by (subst frame_reader_fill.simps) simp
    next
      case Would_block
      have "incomplete (pending r1)" using short r1 hdr by (auto simp: incomplete_def pending_def rx_parsed_def)
      then show ?thesis using cr rd r1 ok1 False hdr short pend Would_block script_size_blocked
        by (subst frame_reader_fill.simps) (simp add: fill_post_def)
    next
      case Failed
      then show ?thesis using cr short by simp
    qed
  qed
qed

lemma fill_correct: "rx_ok r \<Longrightarrow> calm sc \<Longrightarrow> fill_post r sc (frame_reader_fill ample r sc)"
proof (induction "ample" r sc rule: frame_reader_fill.induct)
  case (1 r sc)
  show ?case
  proof (cases "length (rx_hdr r) < 9")
    case True
    show ?thesis by (rule fill_header [OF True 1(5,6)]) (use 1(1,2,5) True in auto)
  next
    case False
    then have h: "length (rx_hdr r) = 9" using 1(5) by (simp add: rx_ok_def)
    show ?thesis by (rule fill_payload [OF h 1(5,6)]) (use 1(3,4) False in auto)
  qed
qed


text \<open>
  The frames that successive calls hand out, with the reset after each of them, and the reader at
  the end. Every call consumes an event of the script, so as many calls as the script has bytes
  and events see all of it.
\<close>

fun rx_run :: "nat \<Rightarrow> allocator \<Rightarrow> frame_reader \<Rightarrow> read_event list \<Rightarrow> h2_frame list \<times> frame_reader" where
  "rx_run 0 mem r sc = ([], r)"
| "rx_run (Suc n) mem r sc =
     (case frame_reader_fill mem r sc of
        (rc, r', sc') \<Rightarrow>
          if rc = 1 then (case rx_run n mem (frame_reader_reset r') sc' of (fs, r2) \<Rightarrow> (rx_frame r' # fs, r2))
          else if rc = 0 then rx_run n mem r' sc'
          else ([], r'))"

lemma rx_done_frame:
  assumes "rx_done r"
  shows "parse_frames (pending r @ rest) = (rx_frame r # fst (parse_frames rest), snd (parse_frames rest))"
proof -
  have "frame_of (rx_hdr r) (rx_payload r) = rx_frame r"
    using assms by (simp add: rx_done_def rx_parsed_def frame_of_def rx_frame_def)
  then show ?thesis using parse_one [of "rx_hdr r" "rx_payload r" rest] assms
    by (simp add: pending_def rx_done_def rx_parsed_def)
qed

lemma rx_run_correct:
  "rx_ok r \<Longrightarrow> incomplete (pending r) \<Longrightarrow> calm sc \<Longrightarrow> script_size sc < n \<Longrightarrow>
   rx_run n ample r sc = (fs, r') \<Longrightarrow> parse_frames (pending r @ script_data sc) = (fs, pending r')"
proof (induction n arbitrary: r sc fs)
  case (Suc n)
  obtain rc r1 sc1 where fill: "frame_reader_fill ample r sc = (rc, r1, sc1)" by (metis prod_cases3)
  have post: "fill_post r sc (rc, r1, sc1)" using fill_correct [OF Suc.prems(1,3)] fill by simp
  have eq: "pending r @ script_data sc = pending r1 @ script_data sc1" and calm: "calm sc1"
    using post by (simp_all add: fill_post_def)
  show ?case
  proof (cases "rc = 1")
    case True
    then have r1: "rx_done r1" "script_size sc1 < script_size sc" using post Suc.prems(2) by (auto simp: fill_post_def)
    obtain gs where gs: "rx_run n ample (frame_reader_reset r1) sc1 = (gs, r')" "fs = rx_frame r1 # gs"
      using Suc.prems(5) fill True by (auto split: prod.splits)
    have "pending (frame_reader_reset r1) = []" "rx_ok (frame_reader_reset r1)"
      by (simp_all add: pending_def frame_reader_reset_def rx_ok_def)
    then have "parse_frames (script_data sc1) = (gs, pending r')"
      using Suc.IH [OF _ _ calm _ gs(1)] r1(2) Suc.prems(4) by (simp add: incomplete_def)
    then show ?thesis using rx_done_frame [OF r1(1)] gs(2) eq by simp
  next
    case False
    then have r1: "rc = 0" "rx_ok r1" "incomplete (pending r1)" "sc \<noteq> [] \<longrightarrow> script_size sc1 < script_size sc"
        "script_size sc1 \<le> script_size sc"
      using post by (auto simp: fill_post_def)
    have run: "rx_run n ample r1 sc1 = (fs, r')" using Suc.prems(5) fill r1(1) by simp
    show ?thesis
    proof (cases "n = 0")
      case True
      then have "sc = []" using Suc.prems(4) by (cases sc rule: script_size.cases) auto
      then have "sc1 = []" using r1(5) by (cases sc1 rule: script_size.cases) auto
      then show ?thesis using run True eq r1(3) by (simp add: parse_incomplete)
    next
      case False
      then have "script_size sc1 < n" using r1(4,5) Suc.prems(4) by (cases "sc = []") auto
      then show ?thesis using Suc.IH [OF r1(2,3) calm _ run] eq by simp
    qed
  qed
qed simp

text \<open>
  C36: The frame reader is independent of how the socket delivers the bytes: if the bytes the reads
  find are the wire images of a list of frames and then the beginning of another one (perhaps
  empty), divided over any number of reads and interleaved with signals and empty reads in any
  way, and memory suffices, then the successive calls of a reset reader return exactly these
  frames in order, and what it holds afterwards is exactly the incomplete rest.
\<close>

theorem frames_survive_chunking:
  assumes "map frame_bytes fs = map Some ws" and "calm sc" and "script_data sc = concat ws @ rest"
    and "incomplete rest" and "rx_hdr r = []" and "rx_payload r = []"
  shows "fst (rx_run (Suc (script_size sc)) ample r sc) = fs \<and>
    pending (snd (rx_run (Suc (script_size sc)) ample r sc)) = rest"
proof -
  obtain gs r' where run: "rx_run (Suc (script_size sc)) ample r sc = (gs, r')" by force
  have "parse_frames (pending r @ script_data sc) = (gs, pending r')"
    by (rule rx_run_correct [OF _ _ assms(2) _ run]) (use assms(5,6) in \<open>simp_all add: rx_ok_def pending_def incomplete_def\<close>)
  then show ?thesis using parse_wire [OF assms(1,4)] assms(3,5,6) run by (simp add: pending_def)
qed

theorem frames_survive_chunking_witness:
  "\<exists>r r'. rx_run 18 ample r
       [Rd_data [0, 0, 1, 6], Rd_again, Rd_data [0, 0, 0, 0], Rd_intr, Rd_data [3, 42, 0, 7]] =
     ([\<lparr>fr_type = H2_PING, fr_flags = 0, fr_sid = 3, fr_payload = [42]\<rparr>], r') \<and> pending r' = [0, 7]"
proof -
  let ?r = "\<lparr>rx_hdr = [], rx_payload = [], rx_cap = 0, rx_len = 0, rx_type = 0, rx_flags = 0, rx_sid = 0\<rparr>"
  let ?f = "\<lparr>fr_type = H2_PING, fr_flags = 0, fr_sid = 3, fr_payload = [42]\<rparr>"
  let ?sc = "[Rd_data [0, 0, 1, 6], Rd_again, Rd_data [0, 0, 0, 0], Rd_intr, Rd_data [3, 42, 0, 7]]"
  have "map frame_bytes [?f] = map Some [[0, 0, 1, 6, 0, 0, 0, 0, 3, 42]]"
    by (simp add: frame_bytes_def frame_header_def H2_PING_def be_bytes_3 be_bytes_4)
  note fs = frames_survive_chunking [OF this, of ?sc "[0, 7]" ?r]
  have n: "Suc (script_size ?sc) = 18" by simp
  have "fst (rx_run 18 ample ?r ?sc) = [?f] \<and> pending (snd (rx_run 18 ample ?r ?sc)) = [0, 7]"
    using fs unfolding n by (simp add: calm_def incomplete_def del: rx_run.simps)
  then show ?thesis by (metis prod.collapse)
qed

end
