(* ===== verification/H2c_Conn.thy ===== *)
theory H2c_Conn
  imports H2c_Frames
begin

text \<open>
  The gRPC client connection of \<open>containerd/h2c.c\<close>: its streams, the handlers of incoming frames
  and their dispatch. A connection is a record whose eight stream slots are a list; a stream
  pointer is a slot index. Frames written to the socket are appended to \<open>c_out\<close>; the
  environment says which allocations and which socket writes succeed.
\<close>

section \<open>Constants\<close>

definition H2C_MAX_STREAMS :: nat where "H2C_MAX_STREAMS = 8"
definition H2C_HDR_BLOCK_MAX :: nat where "H2C_HDR_BLOCK_MAX = 65536"
definition H2C_FRAME_BUDGET :: nat where "H2C_FRAME_BUDGET = 128"
definition H2C_MAX_FIELDS :: nat where "H2C_MAX_FIELDS = 32"
definition H2C_QUEUE_MAX_BYTES :: nat where "H2C_QUEUE_MAX_BYTES = 4 * 1024 * 1024"
definition H2C_MAX_MSG :: nat where "H2C_MAX_MSG = 16 * 1024 * 1024"
definition H2C_MAX_HDR_MSG :: nat where "H2C_MAX_HDR_MSG = 2048"
definition H2_INIT_WINDOW :: int where "H2_INIT_WINDOW = 65535"

definition H2_ERR_PROTOCOL :: nat where "H2_ERR_PROTOCOL = 1"
definition H2_ERR_INTERNAL :: nat where "H2_ERR_INTERNAL = 2"
definition H2_ERR_FLOW_CONTROL :: nat where "H2_ERR_FLOW_CONTROL = 3"
definition H2_ERR_FRAME_SIZE :: nat where "H2_ERR_FRAME_SIZE = 6"
definition H2_ERR_CANCEL :: nat where "H2_ERR_CANCEL = 8"

definition H2C_STATUS_CANCELLED :: int where "H2C_STATUS_CANCELLED = 1"
definition H2C_STATUS_UNIMPLEMENTED :: int where "H2C_STATUS_UNIMPLEMENTED = 12"
definition H2C_STATUS_INTERNAL :: int where "H2C_STATUS_INTERNAL = 13"
definition H2C_STATUS_UNAVAILABLE :: int where "H2C_STATUS_UNAVAILABLE = 14"

definition H2C_ERR_TIMEOUT :: int where "H2C_ERR_TIMEOUT = -1"
definition H2C_ERR_IO :: int where "H2C_ERR_IO = -2"
definition H2C_ERR_PROTO :: int where "H2C_ERR_PROTO = -3"
definition H2C_ERR_GOAWAY :: int where "H2C_ERR_GOAWAY = -4"
definition H2C_ERR_NOSTREAM :: int where "H2C_ERR_NOSTREAM = -5"
definition H2C_ERR_TOOBIG :: int where "H2C_ERR_TOOBIG = -6"
definition H2C_ERR_BADARG :: int where "H2C_ERR_BADARG = -7"
definition H2C_ERR_CLOSED :: int where "H2C_ERR_CLOSED = -10"
definition H2C_ERR_STREAM_END :: int where "H2C_ERR_STREAM_END = -11"

lemmas h2c_errs = H2C_ERR_TIMEOUT_def H2C_ERR_IO_def H2C_ERR_PROTO_def H2C_ERR_GOAWAY_def
  H2C_ERR_NOSTREAM_def H2C_ERR_TOOBIG_def H2C_ERR_BADARG_def H2C_ERR_CLOSED_def H2C_ERR_STREAM_END_def

text \<open>An \<open>int32_t\<close> result, and the cast to it.\<close>

definition s32 :: "int \<Rightarrow> int" where
  "s32 x = (x + 2147483648) mod 4294967296 - 2147483648"

section \<open>Streams and the connection\<close>

datatype stream_type = ST_UNARY | ST_SUBSCRIBE
datatype stream_state = SS_SENT | SS_HEADERS | SS_DONE

record strim_h2c_stream =
  s_id :: u32
  s_in_use :: bool
  s_type :: stream_type
  s_state :: stream_state
  s_saw_headers :: bool
  s_status :: int
  s_err :: int
  s_recv_window :: int
  s_send_window :: int
  s_rasm_state :: nat
  s_rasm_hdr :: bytes
  s_rasm_msglen :: nat
  s_rasm_got :: nat
  s_rasm_buf :: bytes
  s_queue :: "bytes list"
  s_q_bytes :: nat
  s_q_closed :: bool
  s_resp :: "bytes option"
  s_resp_cap :: nat
  s_resp_len :: nat
  s_msg_count :: nat

record strim_h2c =
  c_ready :: bool
  c_dead :: bool
  c_dead_code :: int
  c_namespace :: string
  c_next_sid :: u32
  c_streams :: "strim_h2c_stream list"
  c_recv_window :: int
  c_send_window :: int
  c_srv_max_frame :: nat
  c_srv_max_streams :: nat
  c_srv_initial_window :: int
  c_dyn_enc :: hpack_dyn
  c_dyn_dec :: hpack_dyn
  c_enc_size_update :: bool
  c_rx :: frame_reader
  c_hdr_block :: bytes
  c_hdr_block_cap :: nat
  c_hdr_block_sid :: u32
  c_hdr_block_flags :: byte
  c_hdr_block_pending :: bool
  c_goaway_seen :: bool
  c_goaway_last_sid :: nat
  c_msg_ring :: "(int \<times> bytes) list"
  c_msg_head :: int
  c_out :: "h2_frame list"

record h2_env =
  he_mem :: allocator
  he_send :: "nat \<Rightarrow> bool"

text \<open>A slot of the zeroed stream array, as \<open>memset\<close> leaves it.\<close>

definition zero_stream :: strim_h2c_stream where
  "zero_stream = \<lparr>s_id = 0, s_in_use = False, s_type = ST_UNARY, s_state = SS_SENT, s_saw_headers = False,
     s_status = 0, s_err = 0, s_recv_window = 0, s_send_window = 0, s_rasm_state = 0, s_rasm_hdr = [],
     s_rasm_msglen = 0, s_rasm_got = 0, s_rasm_buf = [], s_queue = [], s_q_bytes = 0, s_q_closed = False,
     s_resp = None, s_resp_cap = 0, s_resp_len = 0, s_msg_count = 0\<rparr>"

abbreviation strm :: "strim_h2c \<Rightarrow> nat \<Rightarrow> strim_h2c_stream" where
  "strm c i \<equiv> c_streams c ! i"

abbreviation put_strm :: "strim_h2c \<Rightarrow> nat \<Rightarrow> strim_h2c_stream \<Rightarrow> strim_h2c" where
  "put_strm c i s \<equiv> c\<lparr>c_streams := (c_streams c)[i := s]\<rparr>"

section \<open>Frame writing\<close>

definition frame_write :: "h2_env \<Rightarrow> strim_h2c \<Rightarrow> byte \<Rightarrow> byte \<Rightarrow> u32 \<Rightarrow> bytes \<Rightarrow> int \<times> strim_h2c" where
  "frame_write e c typ flags sid payload =
     (if length payload > 0xffffff then (-1, c)
      else (if he_send e (length (c_out c)) then 0 else -1,
            c\<lparr>c_out := c_out c @ [\<lparr>fr_type = typ, fr_flags = flags, fr_sid = sid, fr_payload = payload\<rparr>]\<rparr>))"

definition frame_write_settings :: "h2_env \<Rightarrow> strim_h2c \<Rightarrow> byte \<Rightarrow> bytes \<Rightarrow> int \<times> strim_h2c" where
  "frame_write_settings e c flags payload = frame_write e c H2_SETTINGS flags 0 payload"

definition frame_write_window_update :: "h2_env \<Rightarrow> strim_h2c \<Rightarrow> u32 \<Rightarrow> nat \<Rightarrow> int \<times> strim_h2c" where
  "frame_write_window_update e c sid inc = frame_write e c H2_WINDOW_UPDATE 0 sid (be_bytes 4 inc)"

definition frame_write_ping_ack :: "h2_env \<Rightarrow> strim_h2c \<Rightarrow> bytes \<Rightarrow> int \<times> strim_h2c" where
  "frame_write_ping_ack e c opaque = frame_write e c H2_PING H2_FLAG_ACK 0 opaque"

definition frame_write_rst :: "h2_env \<Rightarrow> strim_h2c \<Rightarrow> u32 \<Rightarrow> nat \<Rightarrow> int \<times> strim_h2c" where
  "frame_write_rst e c sid code = frame_write e c H2_RST_STREAM 0 sid (be_bytes 4 code)"

section \<open>Helpers\<close>

definition stream_find :: "strim_h2c \<Rightarrow> u32 \<Rightarrow> nat option" where
  "stream_find c sid = List.find (\<lambda>i. s_in_use (strm c i) \<and> s_id (strm c i) = sid) [0..<H2C_MAX_STREAMS]"

text \<open>A node that cannot be allocated loses the message without a word.\<close>

definition queue_push :: "h2_env \<Rightarrow> strim_h2c_stream \<Rightarrow> bytes \<Rightarrow> strim_h2c_stream" where
  "queue_push e s data =
     (if he_mem e 24 then s\<lparr>s_queue := s_queue s @ [data], s_q_bytes := s_q_bytes s + length data\<rparr> else s)"

definition stream_destroy :: "strim_h2c_stream \<Rightarrow> strim_h2c_stream" where
  "stream_destroy s = s\<lparr>s_rasm_buf := [], s_queue := [], s_q_bytes := 0, s_in_use := False\<rparr>"

definition stream_init :: "strim_h2c \<Rightarrow> stream_type \<Rightarrow> strim_h2c_stream" where
  "stream_init c typ = zero_stream\<lparr>s_in_use := True, s_type := typ, s_id := c_next_sid c, s_state := SS_SENT,
     s_recv_window := H2_INIT_WINDOW, s_send_window := c_srv_initial_window c\<rparr>"

text \<open>
  The first unused slot; failing that the first finished one, destroyed and allocated by the
  recursive call (which then finds it unused).
\<close>

definition stream_alloc :: "strim_h2c \<Rightarrow> stream_type \<Rightarrow> strim_h2c \<times> nat option" where
  "stream_alloc c typ =
     (case List.find (\<lambda>i. \<not> s_in_use (strm c i)) [0..<H2C_MAX_STREAMS] of
        Some i \<Rightarrow> ((put_strm c i (stream_init c typ))\<lparr>c_next_sid := c_next_sid c + 2\<rparr>, Some i)
      | None \<Rightarrow>
          case List.find (\<lambda>i. s_state (strm c i) = SS_DONE) [0..<H2C_MAX_STREAMS] of
            Some i \<Rightarrow> ((put_strm c i (stream_init c typ))\<lparr>c_next_sid := c_next_sid c + 2\<rparr>, Some i)
          | None \<Rightarrow> (c, None))"

definition conn_store_message :: "strim_h2c \<Rightarrow> int \<Rightarrow> bytes \<Rightarrow> strim_h2c" where
  "conn_store_message c status msg =
     (let head = (c_msg_head c + 1) mod 2
      in c\<lparr>c_msg_head := head,
           c_msg_ring := (c_msg_ring c)[nat head := (status, take (H2C_MAX_HDR_MSG - 1) (takeWhile (\<lambda>b. b \<noteq> 0) msg))]\<rparr>)"

definition hex_val :: "byte \<Rightarrow> nat option" where
  "hex_val b =
     (let n = unat b
      in if 48 \<le> n \<and> n \<le> 57 then Some (n - 48)
         else if 97 \<le> n \<and> n \<le> 102 then Some (n - 97 + 10)
         else if 65 \<le> n \<and> n \<le> 70 then Some (n - 65 + 10)
         else None)"

text \<open>\<open>room\<close> is the space left before the terminating NUL.\<close>

function percent_decode :: "bytes \<Rightarrow> nat \<Rightarrow> bytes" where
  "percent_decode inp room =
     (if inp = [] \<or> room = 0 then []
      else if hd inp = 0x25 \<and> 2 < length inp then
        case (hex_val (inp ! 1), hex_val (inp ! 2)) of
          (Some hv, Some lv) \<Rightarrow> word_of_nat (hv * 16 + lv) # percent_decode (drop 3 inp) (room - 1)
        | _ \<Rightarrow> hd inp # percent_decode (tl inp) (room - 1)
      else hd inp # percent_decode (tl inp) (room - 1))"
  by pat_completeness auto
termination by (relation "measure (\<lambda>(inp, room). room)") auto

declare percent_decode.simps [simp del]

section \<open>Ending streams and the connection\<close>

definition complete_stream :: "int \<Rightarrow> strim_h2c_stream \<Rightarrow> strim_h2c_stream" where
  "complete_stream status s =
     (if \<not> s_in_use s \<or> s_state s = SS_DONE then s
      else s\<lparr>s_state := SS_DONE, s_status := status, s_err := 0, s_rasm_buf := []\<rparr>)"

definition complete_all_streams :: "strim_h2c \<Rightarrow> int \<Rightarrow> bytes \<Rightarrow> strim_h2c" where
  "complete_all_streams c status msg =
     conn_store_message (c\<lparr>c_streams := map (complete_stream status) (c_streams c)\<rparr>) status msg"

definition conn_fail :: "strim_h2c \<Rightarrow> int \<Rightarrow> strim_h2c" where
  "conn_fail c err_code =
     (if c_dead c then c
      else complete_all_streams (c\<lparr>c_dead := True, c_dead_code := err_code\<rparr>)
             H2C_STATUS_UNAVAILABLE (c_bytes ''connection failed''))"

definition stream_abort :: "h2_env \<Rightarrow> strim_h2c \<Rightarrow> nat \<Rightarrow> nat \<Rightarrow> int \<Rightarrow> strim_h2c" where
  "stream_abort e c i h2_code err_code =
     (let c1 = snd (frame_write_rst e c (s_id (strm c i)) h2_code); s = strm c1 i
      in put_strm c1 i (s\<lparr>s_state := SS_DONE, s_status := H2C_STATUS_INTERNAL, s_err := err_code, s_rasm_buf := []\<rparr>))"

section \<open>SETTINGS\<close>

definition apply_setting :: "strim_h2c \<Rightarrow> nat \<Rightarrow> nat \<Rightarrow> bool \<times> strim_h2c" where
  "apply_setting c k val =
     (if k = 1 then
        (True, if val \<noteq> dt_max_size (c_dyn_enc c)
               then c\<lparr>c_dyn_enc := dyn_set_max (c_dyn_enc c) val, c_enc_size_update := True\<rparr> else c)
      else if k = 4 then
        let delta = s32 (s32 (int val) - c_srv_initial_window c);
            ss = map (\<lambda>s. if s_in_use s then s\<lparr>s_send_window := s32 (s_send_window s + delta)\<rparr> else s) (c_streams c)
        in (\<not> list_ex (\<lambda>s. s_in_use s \<and> s_send_window s > 0x7fffffff) ss,
            c\<lparr>c_srv_initial_window := s32 (int val), c_streams := ss\<rparr>)
      else if k = 5 then
        if val < 16384 \<or> val > 16777215 then (False, c) else (True, c\<lparr>c_srv_max_frame := val\<rparr>)
      else if k = 3 then (True, c\<lparr>c_srv_max_streams := val\<rparr>)
      else (True, c))"

fun settings_loop :: "strim_h2c \<Rightarrow> bytes \<Rightarrow> bool \<times> strim_h2c" where
  "settings_loop c (i1 # i0 # v3 # v2 # v1 # v0 # rest) =
     (case apply_setting c (be_nat [i1, i0]) (be_nat [v3, v2, v1, v0]) of
        (ok, c') \<Rightarrow> if ok then settings_loop c' rest else (False, c'))"
| "settings_loop c _ = (True, c)"

definition handle_settings :: "h2_env \<Rightarrow> strim_h2c \<Rightarrow> bytes \<Rightarrow> int \<times> strim_h2c" where
  "handle_settings e c p =
     (if length p mod 6 \<noteq> 0 then (-1, c)
      else case settings_loop c p of
             (False, c1) \<Rightarrow> (-1, c1)
           | (True, c1) \<Rightarrow>
               case frame_write_settings e c1 H2_FLAG_ACK [] of
                 (rc, c2) \<Rightarrow> if rc < 0 then (-1, c2) else (0, c2\<lparr>c_ready := True\<rparr>))"


section \<open>Response headers\<close>

definition has_flag :: "byte \<Rightarrow> byte \<Rightarrow> bool" where
  "has_flag flags f \<longleftrightarrow> flags AND f \<noteq> 0"

text \<open>Where the header block starts in a HEADERS payload; the block is the rest.\<close>

definition headers_block_offset :: "bytes \<Rightarrow> byte \<Rightarrow> nat option" where
  "headers_block_offset payload flags =
     (let off = (if has_flag flags H2_FLAG_PADDED then 1 + unat (hd payload) else 0);
          off' = (if has_flag flags H2_FLAG_PRIORITY then off + 5 else off)
      in if has_flag flags H2_FLAG_PADDED \<and> (payload = [] \<or> off > length payload) then None
         else if has_flag flags H2_FLAG_PRIORITY \<and> off' > length payload then None
         else Some off')"

definition header_name_eq :: "hpack_field \<Rightarrow> string \<Rightarrow> bool" where
  "header_name_eq f name \<longleftrightarrow> hf_name f = c_bytes name"

definition header_value_eq :: "hpack_field \<Rightarrow> string \<Rightarrow> bool" where
  "header_value_eq f v \<longleftrightarrow> hf_value f = c_bytes v"

fun parse_digits :: "int \<Rightarrow> bytes \<Rightarrow> int" where
  "parse_digits v [] = v"
| "parse_digits v (b # bs) =
     (if unat b < 48 \<or> unat b > 57 then -1
      else let v' = v * 10 + (int (unat b) - 48)
           in if v' > 999 then -1 else parse_digits v' bs)"

definition parse_status_int :: "hpack_field \<Rightarrow> int" where
  "parse_status_int f = parse_digits 0 (hf_value f)"

record header_scan =
  hd_has_status :: bool
  hd_status_value :: int
  hd_has_grpc_status :: bool
  hd_grpc_status :: int
  hd_content_type_ok :: bool
  hd_encoding_ok :: bool
  hd_msg :: bytes

definition scan_start :: header_scan where
  "scan_start = \<lparr>hd_has_status = False, hd_status_value = 0, hd_has_grpc_status = False, hd_grpc_status = 0,
     hd_content_type_ok = False, hd_encoding_ok = True, hd_msg = []\<rparr>"

definition scan_field :: "hpack_field \<Rightarrow> header_scan \<Rightarrow> header_scan option" where
  "scan_field f h =
     (if header_name_eq f '':status'' then
        Some (h\<lparr>hd_has_status := True, hd_status_value := parse_status_int f\<rparr>)
      else if header_name_eq f ''grpc-status'' then
        let v = parse_status_int f
        in if v < 0 \<or> v > 99 then None else Some (h\<lparr>hd_has_grpc_status := True, hd_grpc_status := v\<rparr>)
      else if header_name_eq f ''grpc-message'' then
        Some (h\<lparr>hd_msg := percent_decode (hf_value f) (H2C_MAX_HDR_MSG - 1)\<rparr>)
      else if header_name_eq f ''content-type'' then
        Some (h\<lparr>hd_content_type_ok := (length (hf_value f) \<ge> 16 \<and> take 16 (hf_value f) = c_bytes ''application/grpc'')\<rparr>)
      else if header_name_eq f ''grpc-encoding'' then
        Some (if header_value_eq f ''identity'' then h else h\<lparr>hd_encoding_ok := False\<rparr>)
      else Some h)"

fun scan_fields :: "hpack_field list \<Rightarrow> header_scan \<Rightarrow> header_scan option" where
  "scan_fields [] h = Some h"
| "scan_fields (f # fs) h = (case scan_field f h of None \<Rightarrow> None | Some h' \<Rightarrow> scan_fields fs h')"

text \<open>The status the headers end the call with, if they end it.\<close>

definition final_status :: "header_scan \<Rightarrow> int option" where
  "final_status h =
     (let st1 = (if hd_has_status h \<and> hd_status_value h \<noteq> 200 \<and> \<not> hd_has_grpc_status h
                 then Some (if hd_status_value h = 404 then H2C_STATUS_UNIMPLEMENTED else H2C_STATUS_INTERNAL)
                 else if hd_has_grpc_status h then Some (hd_grpc_status h) else None);
          st2 = (if st1 = None \<and> \<not> hd_content_type_ok h then Some H2C_STATUS_INTERNAL else st1)
      in if \<not> hd_encoding_ok h then Some H2C_STATUS_INTERNAL else st2)"

definition apply_headers :: "strim_h2c \<Rightarrow> nat \<Rightarrow> header_scan \<Rightarrow> int \<times> strim_h2c" where
  "apply_headers c i h =
     (let s = strm c i
      in case final_status h of
           Some st \<Rightarrow>
             let c1 = put_strm c i (s\<lparr>s_state := SS_DONE, s_status := st, s_err := 0, s_q_closed := True, s_rasm_buf := []\<rparr>)
             in (0, if st \<noteq> 0 \<or> (hd_msg h \<noteq> [] \<and> hd (hd_msg h) \<noteq> 0) then conn_store_message c1 st (hd_msg h) else c1)
         | None \<Rightarrow>
             if s_state s \<noteq> SS_SENT then (-1, c)
             else (0, put_strm c i (s\<lparr>s_state := SS_HEADERS, s_saw_headers := True\<rparr>)))"

definition handle_header_block :: "h2_env \<Rightarrow> strim_h2c \<Rightarrow> u32 \<Rightarrow> bytes \<Rightarrow> byte \<Rightarrow> int \<times> strim_h2c" where
  "handle_header_block e c sid block flags =
     (case headers_block_offset block flags of
        None \<Rightarrow> (-1, c)
      | Some off \<Rightarrow>
          case hpack_decode_block (he_mem e) (c_dyn_dec c) (drop off block) H2C_MAX_FIELDS of
            (d, None) \<Rightarrow> (-1, c\<lparr>c_dyn_dec := d\<rparr>)
          | (d, Some fs) \<Rightarrow>
              let c1 = c\<lparr>c_dyn_dec := d\<rparr>
              in case stream_find c1 sid of
                   None \<Rightarrow> (-1, c1)
                 | Some i \<Rightarrow>
                     if s_state (strm c1 i) = SS_DONE \<and> s_err (strm c1 i) \<noteq> 0 then (0, c1)
                     else case scan_fields fs scan_start of
                            None \<Rightarrow> (-1, c1)
                          | Some h \<Rightarrow> apply_headers c1 i h)"

definition handle_headers_frame :: "h2_env \<Rightarrow> strim_h2c \<Rightarrow> byte \<Rightarrow> u32 \<Rightarrow> bytes \<Rightarrow> int \<times> strim_h2c" where
  "handle_headers_frame e c flags sid payload =
     (if c_hdr_block_pending c then (-1, c)
      else if has_flag flags H2_FLAG_END_HEADERS then handle_header_block e c sid payload flags
      else if length payload > H2C_HDR_BLOCK_MAX then (-1, c)
      else if length payload > c_hdr_block_cap c \<and> \<not> he_mem e (length payload) then (-1, c)
      else (0, c\<lparr>c_hdr_block := payload, c_hdr_block_cap := max (c_hdr_block_cap c) (length payload),
                c_hdr_block_sid := sid, c_hdr_block_flags := flags, c_hdr_block_pending := True\<rparr>))"

definition handle_continuation_frame :: "h2_env \<Rightarrow> strim_h2c \<Rightarrow> byte \<Rightarrow> bytes \<Rightarrow> int \<times> strim_h2c" where
  "handle_continuation_frame e c flags payload =
     (let n = length (c_hdr_block c) + length payload
      in if \<not> c_hdr_block_pending c then (-1, c)
         else if n > H2C_HDR_BLOCK_MAX then (-1, c)
         else if n > c_hdr_block_cap c \<and> \<not> he_mem e n then (-1, c)
         else let c1 = c\<lparr>c_hdr_block := c_hdr_block c @ payload, c_hdr_block_cap := max (c_hdr_block_cap c) n\<rparr>
              in if has_flag flags H2_FLAG_END_HEADERS then
                   case handle_header_block e c1 (c_hdr_block_sid c1) (c_hdr_block c1) (c_hdr_block_flags c1) of
                     (rc, c2) \<Rightarrow> (rc, c2\<lparr>c_hdr_block_pending := False\<rparr>)
                 else (0, c1))"

section \<open>Response data\<close>

definition stream_credit_message :: "h2_env \<Rightarrow> strim_h2c \<Rightarrow> nat \<Rightarrow> nat \<Rightarrow> strim_h2c" where
  "stream_credit_message e c i n_total =
     (let s = strm c i; n = s32 (int n_total)
      in if n_total = 0 then c
         else if s_recv_window s > 0x7fffffff - n then c
         else if c_recv_window c > 0x7fffffff - n then c
         else let c1 = (put_strm c i (s\<lparr>s_recv_window := s_recv_window s + n\<rparr>))\<lparr>c_recv_window := c_recv_window c + n\<rparr>;
                  c2 = snd (frame_write_window_update e c1 (s_id s) n_total)
              in snd (frame_write_window_update e c2 0 n_total))"

text \<open>The five-byte message header is complete: check it and start the body; \<open>False\<close> ends the feed.\<close>

definition rasm_begin :: "h2_env \<Rightarrow> strim_h2c \<Rightarrow> nat \<Rightarrow> bool \<times> strim_h2c" where
  "rasm_begin e c i =
     (let s = strm c i; msglen = be_nat (tl (s_rasm_hdr s))
      in if hd (s_rasm_hdr s) \<noteq> 0 then (False, stream_abort e c i H2_ERR_INTERNAL H2C_ERR_PROTO)
         else if msglen > H2C_MAX_MSG then
           (False, stream_abort e (put_strm c i (s\<lparr>s_rasm_msglen := msglen\<rparr>)) i H2_ERR_FRAME_SIZE H2C_ERR_TOOBIG)
         else let s1 = s\<lparr>s_rasm_msglen := msglen, s_rasm_got := 0\<rparr>; c1 = put_strm c i s1
              in if s_type s = ST_SUBSCRIBE then
                   if \<not> he_mem e (max msglen 1) then (False, stream_abort e c1 i H2_ERR_INTERNAL H2C_ERR_IO)
                   else (True, put_strm c1 i (s1\<lparr>s_rasm_state := 1\<rparr>))
                 else if s_resp s \<noteq> None \<and> msglen > s_resp_cap s then
                   let c2 = snd (frame_write_rst e c1 (s_id s) H2_ERR_CANCEL)
                   in (False, put_strm c2 i (s1\<lparr>s_state := SS_DONE, s_err := H2C_ERR_TOOBIG, s_status := 0, s_q_closed := True\<rparr>))
                 else (True, put_strm c1 i (s1\<lparr>s_rasm_state := 1\<rparr>)))"

text \<open>The body is complete: hand the message over; \<open>False\<close> ends the feed.\<close>

definition rasm_finish :: "h2_env \<Rightarrow> strim_h2c \<Rightarrow> nat \<Rightarrow> bool \<times> strim_h2c" where
  "rasm_finish e c i =
     (let s = strm c i
      in if s_type s = ST_SUBSCRIBE then
           if s_q_bytes s + s_rasm_msglen s > H2C_QUEUE_MAX_BYTES then
             (False, stream_abort e c i H2_ERR_FLOW_CONTROL H2C_ERR_PROTO)
           else (True, put_strm c i ((queue_push e s (take (s_rasm_msglen s) (s_rasm_buf s)))
                         \<lparr>s_rasm_buf := [], s_rasm_state := 0, s_rasm_hdr := []\<rparr>))
         else
           let s1 = s\<lparr>s_resp_len := s_rasm_got s, s_msg_count := s_msg_count s + 1\<rparr>; c1 = put_strm c i s1
           in if s_msg_count s1 > 1 then (False, stream_abort e c1 i H2_ERR_PROTOCOL H2C_ERR_PROTO)
              else let c2 = stream_credit_message e c1 i (s_rasm_got s + 5)
                   in (True, put_strm c2 i ((strm c2 i)\<lparr>s_rasm_state := 0, s_rasm_hdr := []\<rparr>)))"

text \<open>Body bytes: into the reassembly buffer, or straight into the caller's response buffer.\<close>

definition rasm_store :: "strim_h2c_stream \<Rightarrow> bytes \<Rightarrow> strim_h2c_stream" where
  "rasm_store s chunk =
     (let s1 = (if s_type s = ST_SUBSCRIBE then s\<lparr>s_rasm_buf := take (s_rasm_got s) (s_rasm_buf s) @ chunk\<rparr>
                else case s_resp s of
                       None \<Rightarrow> s
                     | Some buf \<Rightarrow> s\<lparr>s_resp := Some (take (s_rasm_got s) buf @ chunk)\<rparr>)
      in s1\<lparr>s_rasm_got := s_rasm_got s + length chunk\<rparr>)"

text \<open>The second half of an iteration of the feeding loop, and the bytes it took.\<close>

definition rasm_body :: "h2_env \<Rightarrow> strim_h2c \<Rightarrow> nat \<Rightarrow> bytes \<Rightarrow> bool \<times> strim_h2c \<times> nat" where
  "rasm_body e c i data =
     (let s = strm c i; take_n = min (length data) (s_rasm_msglen s - s_rasm_got s);
          s1 = rasm_store s (take take_n data); c1 = put_strm c i s1
      in if s_rasm_got s1 \<ge> s_rasm_msglen s1 then
           (case rasm_finish e c1 i of (go, c2) \<Rightarrow> (go, c2, take_n))
         else (True, c1, take_n))"

definition rasm_header :: "h2_env \<Rightarrow> strim_h2c \<Rightarrow> nat \<Rightarrow> bytes \<Rightarrow> bool \<times> strim_h2c \<times> nat" where
  "rasm_header e c i data =
     (let s = strm c i; take_n = min (length data) (5 - length (s_rasm_hdr s));
          s1 = s\<lparr>s_rasm_hdr := s_rasm_hdr s @ take take_n data\<rparr>; c1 = put_strm c i s1
      in if length (s_rasm_hdr s1) < 5 then (False, c1, take_n)
         else case rasm_begin e c1 i of (go, c2) \<Rightarrow> (go, c2, take_n))"

text \<open>One iteration: the header if it is due, then the body if the header is there.\<close>

definition feed_step :: "h2_env \<Rightarrow> strim_h2c \<Rightarrow> nat \<Rightarrow> bytes \<Rightarrow> bool \<times> strim_h2c \<times> nat" where
  "feed_step e c i data =
     (if s_rasm_state (strm c i) = 0 then
        case rasm_header e c i data of
          (go, c1, n) \<Rightarrow>
            if go then case rasm_body e c1 i (drop n data) of (go2, c2, m) \<Rightarrow> (go2, c2, n + m) else (False, c1, n)
      else rasm_body e c i data)"

fun feed_loop :: "nat \<Rightarrow> h2_env \<Rightarrow> strim_h2c \<Rightarrow> nat \<Rightarrow> bytes \<Rightarrow> strim_h2c" where
  "feed_loop 0 e c i data = c"
| "feed_loop (Suc fuel) e c i data =
     (if data = [] then c
      else case feed_step e c i data of
             (go, c1, n) \<Rightarrow> if go then feed_loop fuel e c1 i (drop n data) else c1)"

definition stream_feed_data :: "h2_env \<Rightarrow> strim_h2c \<Rightarrow> nat \<Rightarrow> bytes \<Rightarrow> strim_h2c" where
  "stream_feed_data e c i data = feed_loop (2 * length data) e c i data"

definition handle_data_frame :: "h2_env \<Rightarrow> strim_h2c \<Rightarrow> byte \<Rightarrow> u32 \<Rightarrow> bytes \<Rightarrow> int \<times> strim_h2c" where
  "handle_data_frame e c flags sid payload =
     (let len = length payload; padded = has_flag flags H2_FLAG_PADDED
      in case stream_find c sid of
           None \<Rightarrow> (-1, c)
         | Some i \<Rightarrow>
             let s = strm c i
             in if s_state s = SS_DONE then (if s_err s \<noteq> 0 then 0 else -1, c)
                else if c_recv_window c < int len \<or> s_recv_window s < int len then (-1, c)
                else if padded \<and> (payload = [] \<or> unat (hd payload) > len - 1) then (-1, c)
                else let data = (if padded then take (len - 1 - unat (hd payload)) (tl payload) else payload);
                         c1 = (put_strm c i (s\<lparr>s_recv_window := s_recv_window s - int len\<rparr>))
                                \<lparr>c_recv_window := c_recv_window c - int len\<rparr>;
                         c2 = stream_feed_data e c1 i data
                     in (0, if has_flag flags H2_FLAG_END_STREAM \<and> s_rasm_state (strm c2 i) \<noteq> 0
                            then stream_abort e c2 i H2_ERR_PROTOCOL H2C_ERR_PROTO else c2))"

section \<open>The other frames and the dispatch\<close>

definition handle_window_update :: "strim_h2c \<Rightarrow> u32 \<Rightarrow> bytes \<Rightarrow> int \<times> strim_h2c" where
  "handle_window_update c sid payload =
     (let inc = be_nat payload
      in if length payload \<noteq> 4 then (-1, c)
         else if inc = 0 then (-1, c)
         else if sid = 0 then
           let c1 = c\<lparr>c_send_window := s32 (c_send_window c + s32 (int inc))\<rparr>
           in (if c_send_window c1 > 0x7fffffff then -1 else 0, c1)
         else case stream_find c sid of
                None \<Rightarrow> (0, c)
              | Some i \<Rightarrow>
                  let s = (strm c i)\<lparr>s_send_window := s32 (s_send_window (strm c i) + s32 (int inc))\<rparr>
                  in (if s_send_window s > 0x7fffffff then -1 else 0, put_strm c i s))"

definition handle_goaway :: "strim_h2c \<Rightarrow> bytes \<Rightarrow> int \<times> strim_h2c" where
  "handle_goaway c payload =
     (if length payload < 8 then (-1, c)
      else (0, (complete_all_streams (c\<lparr>c_goaway_seen := True, c_goaway_last_sid := be_nat (take 4 payload)\<rparr>)
                  H2C_STATUS_UNAVAILABLE (c_bytes ''server GOAWAY''))
               \<lparr>c_dead := True, c_dead_code := H2C_ERR_GOAWAY\<rparr>))"

definition handle_rst_stream :: "strim_h2c \<Rightarrow> u32 \<Rightarrow> bytes \<Rightarrow> int \<times> strim_h2c" where
  "handle_rst_stream c sid payload =
     (if length payload \<noteq> 4 then (-1, c)
      else case stream_find c sid of
             None \<Rightarrow> (0, c)
           | Some i \<Rightarrow>
               let s = strm c i
               in if s_state s = SS_DONE then (0, put_strm c i (stream_destroy s))
                  else (0, put_strm c i (s\<lparr>s_state := SS_DONE, s_status := H2C_STATUS_CANCELLED, s_err := 0,
                                          s_q_closed := True, s_rasm_buf := []\<rparr>)))"

definition handle_ping :: "h2_env \<Rightarrow> strim_h2c \<Rightarrow> byte \<Rightarrow> bytes \<Rightarrow> int \<times> strim_h2c" where
  "handle_ping e c flags payload =
     (if length payload \<noteq> 8 then (-1, c)
      else if has_flag flags H2_FLAG_ACK then (0, c)
      else case frame_write_ping_ack e c payload of (rc, c1) \<Rightarrow> (if rc < 0 then -1 else 0, c1))"

definition dispatch_frame :: "h2_env \<Rightarrow> strim_h2c \<Rightarrow> h2_frame \<Rightarrow> int \<times> strim_h2c" where
  "dispatch_frame e c f =
     (let t = fr_type f; p = fr_payload f; flags = fr_flags f; sid = fr_sid f
      in if t = H2_SETTINGS then
           if sid \<noteq> 0 then (-1, c)
           else if has_flag flags H2_FLAG_ACK then (if p = [] then 0 else -1, c)
           else handle_settings e c p
         else if t = H2_PING then handle_ping e c flags p
         else if t = H2_WINDOW_UPDATE then handle_window_update c sid p
         else if t = H2_DATA then handle_data_frame e c flags sid p
         else if t = H2_HEADERS then handle_headers_frame e c flags sid p
         else if t = H2_CONTINUATION then handle_continuation_frame e c flags p
         else if t = H2_RST_STREAM then handle_rst_stream c sid p
         else if t = H2_GOAWAY then handle_goaway c p
         else if t = H2_PRIORITY then (if length p = 5 then 0 else -1, c)
         else (-1, c))"

definition process_one_frame :: "h2_env \<Rightarrow> strim_h2c \<Rightarrow> read_event list \<Rightarrow> int \<times> strim_h2c \<times> read_event list" where
  "process_one_frame e c sc =
     (case frame_reader_fill (he_mem e) (c_rx c) sc of
        (fr, r, sc') \<Rightarrow>
          let c1 = c\<lparr>c_rx := r\<rparr>
          in if fr < 0 then (H2C_ERR_IO, c1, sc')
             else if fr = 0 then (0, c1, sc')
             else case dispatch_frame e c1 (rx_frame r) of
                    (rc, c2) \<Rightarrow>
                      let c3 = c2\<lparr>c_rx := frame_reader_reset (c_rx c2)\<rparr>
                      in (if rc < 0 then H2C_ERR_PROTO else 1, c3, sc'))"

text \<open>The frames of one poll: at most \<open>budget\<close> of them; the value is the returned code.\<close>

fun poll_frames :: "nat \<Rightarrow> h2_env \<Rightarrow> strim_h2c \<Rightarrow> read_event list \<Rightarrow> int \<times> strim_h2c \<times> read_event list" where
  "poll_frames 0 e c sc = (if c_dead c then c_dead_code c else 1, c, sc)"
| "poll_frames (Suc budget) e c sc =
     (case process_one_frame e c sc of
        (r, c1, sc1) \<Rightarrow>
          if r < 0 then (c_dead_code (conn_fail c1 r), conn_fail c1 r, sc1)
          else if r = 0 then (if c_dead c1 then c_dead_code c1 else 1, c1, sc1)
          else poll_frames budget e c1 sc1)"

datatype poll_event = Poll_intr | Poll_error | Poll_timeout | Poll_ready

definition conn_poll_once ::
  "h2_env \<Rightarrow> strim_h2c \<Rightarrow> poll_event \<Rightarrow> read_event list \<Rightarrow> int \<times> strim_h2c \<times> read_event list" where
  "conn_poll_once e c pe sc =
     (if c_dead c then (c_dead_code c, c, sc)
      else case pe of
             Poll_intr \<Rightarrow> (0, c, sc)
           | Poll_error \<Rightarrow> (H2C_ERR_IO, conn_fail c H2C_ERR_IO, sc)
           | Poll_timeout \<Rightarrow> (0, c, sc)
           | Poll_ready \<Rightarrow> poll_frames H2C_FRAME_BUDGET e c sc)"

end
