(* ===== verification/H2c_Inv.thy ===== *)
theory H2c_Inv
  imports H2c_Conn
begin

text \<open>
  The invariant of a client connection and its preservation by every incoming frame: buffers are
  never overrun, the receive windows account for every byte that is still held, the header
  tables stay well-formed, and a dead connection has no live stream.
\<close>

section \<open>The invariant\<close>

text \<open>Bytes received on a stream that have not been credited back to the peer.\<close>

definition held :: "strim_h2c_stream \<Rightarrow> int" where
  "held s = int (length (s_rasm_hdr s) + (if s_rasm_state s \<noteq> 0 then s_rasm_got s else 0) +
     sum_list (map (\<lambda>m. length m + 5) (s_queue s)))"

definition rasm_ok :: "strim_h2c_stream \<Rightarrow> bool" where
  "rasm_ok s \<longleftrightarrow> s_rasm_state s \<le> 1 \<and> length (s_rasm_hdr s) \<le> 5 \<and>
     (s_rasm_state s = 1 \<longrightarrow> length (s_rasm_hdr s) = 5 \<and> s_rasm_got s \<le> s_rasm_msglen s \<and>
        s_rasm_msglen s \<le> H2C_MAX_MSG)"

text \<open>The caller's response buffer is never overrun.\<close>

definition resp_ok :: "strim_h2c_stream \<Rightarrow> bool" where
  "resp_ok s \<longleftrightarrow> (\<forall>buf. s_type s = ST_UNARY \<and> s_resp s = Some buf \<longrightarrow>
     length buf \<le> s_resp_cap s \<and>
     (s_rasm_state s = 1 \<longrightarrow> s_rasm_msglen s \<le> s_resp_cap s \<and> s_rasm_got s \<le> length buf))"

definition queue_ok :: "strim_h2c_stream \<Rightarrow> bool" where
  "queue_ok s \<longleftrightarrow> s_q_bytes s = sum_list (map length (s_queue s)) \<and> s_q_bytes s \<le> H2C_QUEUE_MAX_BYTES \<and>
     (s_type s = ST_UNARY \<longrightarrow> s_queue s = [])"

text \<open>\<open>n\<close> bytes of the window are spoken for by data still to be processed.\<close>

definition stream_room :: "nat \<Rightarrow> strim_h2c_stream \<Rightarrow> bool" where
  "stream_room n s \<longleftrightarrow> rasm_ok s \<and> resp_ok s \<and> queue_ok s \<and>
     0 \<le> s_recv_window s \<and> s_recv_window s + held s + int n \<le> H2_INIT_WINDOW"

definition tables_ok :: "strim_h2c \<Rightarrow> bool" where
  "tables_ok c \<longleftrightarrow> dyn_ok (c_dyn_enc c) \<and> dyn_ok (c_dyn_dec c) \<and>
     16384 \<le> c_srv_max_frame c \<and> c_srv_max_frame c \<le> 16777215 \<and> length (c_hdr_block c) \<le> H2C_HDR_BLOCK_MAX"

definition dead_done :: "strim_h2c \<Rightarrow> bool" where
  "dead_done c \<longleftrightarrow> (c_dead c \<longrightarrow> (\<forall>s \<in> set (c_streams c). s_in_use s \<longrightarrow> s_state s = SS_DONE))"

definition conn_room :: "nat \<Rightarrow> nat \<Rightarrow> strim_h2c \<Rightarrow> bool" where
  "conn_room n i c \<longleftrightarrow> length (c_streams c) = H2C_MAX_STREAMS \<and>
     (\<forall>j < H2C_MAX_STREAMS. stream_room (if j = i then n else 0) (strm c j)) \<and>
     0 \<le> c_recv_window c \<and> c_recv_window c + sum_list (map held (c_streams c)) + int n \<le> H2_INIT_WINDOW \<and>
     tables_ok c \<and> dead_done c"

definition conn_ok :: "strim_h2c \<Rightarrow> bool" where
  "conn_ok c \<longleftrightarrow> conn_room 0 0 c"

lemma conn_room_0: "conn_room 0 i c \<longleftrightarrow> conn_ok c"
  by (simp add: conn_ok_def conn_room_def cong: if_cong)

lemma conn_room_streams: "conn_room n i c \<Longrightarrow> length (c_streams c) = 8"
  by (simp add: conn_room_def H2C_MAX_STREAMS_def)

section \<open>Updating a stream\<close>

lemma sum_list_map_update:
  "i < length xs \<Longrightarrow> sum_list (map f (xs[i := v])) = sum_list (map f xs) + f v - (f (xs ! i) :: int)"
  by (induction xs arbitrary: i) (auto split: nat.splits)

lemma conn_room_put_window:
  assumes "conn_room n i c" "i < H2C_MAX_STREAMS" "stream_room m s"
    and "0 \<le> w" "w + held s + int m \<le> c_recv_window c + held (strm c i) + int n"
    and "s_in_use s \<Longrightarrow> s_state s = SS_DONE \<or> s_in_use (strm c i) \<and> s_state (strm c i) \<noteq> SS_DONE"
  shows "conn_room m i ((put_strm c i s)\<lparr>c_recv_window := w\<rparr>)"
proof -
  have len: "i < length (c_streams c)" using assms(1,2) by (simp add: conn_room_def)
  have "dead_done (put_strm c i s)"
    using assms(1,6) len nth_mem [OF len] unfolding conn_room_def dead_done_def
    by (auto dest!: set_update_subset_insert [THEN subsetD])
  then have "dead_done ((put_strm c i s)\<lparr>c_recv_window := w\<rparr>)" by (simp add: dead_done_def)
  then show ?thesis using assms len
    by (auto simp: conn_room_def sum_list_map_update nth_list_update tables_ok_def)
qed

lemma conn_room_put:
  assumes "conn_room n i c" "i < H2C_MAX_STREAMS" "stream_room m s"
    and "held s + int m \<le> held (strm c i) + int n"
    and "s_in_use s \<Longrightarrow> s_state s = SS_DONE \<or> s_in_use (strm c i) \<and> s_state (strm c i) \<noteq> SS_DONE"
  shows "conn_room m i (put_strm c i s)"
proof -
  have "0 \<le> c_recv_window c" using assms(1) by (simp add: conn_room_def)
  then have "conn_room m i ((put_strm c i s)\<lparr>c_recv_window := c_recv_window c\<rparr>)"
    using assms by (intro conn_room_put_window [OF assms(1)]) auto
  then show ?thesis by simp
qed

lemma conn_room_less: "conn_room n i c \<Longrightarrow> m \<le> n \<Longrightarrow> conn_room m i c"
  by (auto simp: conn_room_def stream_room_def)

lemma conn_room_out [simp]: "conn_room n i (c\<lparr>c_out := x\<rparr>) = conn_room n i c"
  by (simp add: conn_room_def tables_ok_def dead_done_def)

lemma frame_write_room [simp]: "conn_room n i (snd (frame_write e c t f sid p)) = conn_room n i c"
  by (simp add: frame_write_def)

lemma frame_write_streams [simp]: "c_streams (snd (frame_write e c t f sid p)) = c_streams c"
  by (simp add: frame_write_def)

lemma frame_write_recv [simp]: "c_recv_window (snd (frame_write e c t f sid p)) = c_recv_window c"
  by (simp add: frame_write_def)

lemma stream_room_at: "conn_room n i c \<Longrightarrow> i < H2C_MAX_STREAMS \<Longrightarrow> stream_room n (strm c i)"
  by (auto simp: conn_room_def)

text \<open>Changes to a stream that the invariant does not look at, or that only end it.\<close>

lemma held_upd [simp]:
  "held (s\<lparr>s_state := x0\<rparr>) = held s"
  "held (s\<lparr>s_status := x1\<rparr>) = held s"
  "held (s\<lparr>s_err := x2\<rparr>) = held s"
  "held (s\<lparr>s_rasm_buf := x3\<rparr>) = held s"
  "held (s\<lparr>s_saw_headers := x4\<rparr>) = held s"
  "held (s\<lparr>s_q_closed := x5\<rparr>) = held s"
  "held (s\<lparr>s_send_window := x6\<rparr>) = held s"
  by (simp_all add: held_def)

lemma stream_room_upd [simp]:
  "stream_room n (s\<lparr>s_state := x0\<rparr>) = stream_room n s"
  "stream_room n (s\<lparr>s_status := x1\<rparr>) = stream_room n s"
  "stream_room n (s\<lparr>s_err := x2\<rparr>) = stream_room n s"
  "stream_room n (s\<lparr>s_rasm_buf := x3\<rparr>) = stream_room n s"
  "stream_room n (s\<lparr>s_saw_headers := x4\<rparr>) = stream_room n s"
  "stream_room n (s\<lparr>s_q_closed := x5\<rparr>) = stream_room n s"
  "stream_room n (s\<lparr>s_send_window := x6\<rparr>) = stream_room n s"
  by (simp_all only: stream_room_def held_upd) (simp_all add: rasm_ok_def resp_ok_def queue_ok_def)

lemma recv_window_upd [simp]:
  "held (s\<lparr>s_recv_window := w\<rparr>) = held s" "rasm_ok (s\<lparr>s_recv_window := w\<rparr>) = rasm_ok s"
  "resp_ok (s\<lparr>s_recv_window := w\<rparr>) = resp_ok s" "queue_ok (s\<lparr>s_recv_window := w\<rparr>) = queue_ok s"
  by (simp_all add: held_def rasm_ok_def resp_ok_def queue_ok_def)

lemma abort_room:
  assumes "conn_room n i c" "i < H2C_MAX_STREAMS"
  shows "conn_room n i (stream_abort e c i h2_code err)"
  unfolding stream_abort_def frame_write_rst_def Let_def
  using assms stream_room_at [OF assms]
  by (intro conn_room_put [where n = n]) simp_all


section \<open>The reassembler keeps the invariant\<close>

definition live :: "strim_h2c \<Rightarrow> nat \<Rightarrow> bool" where
  "live c i \<longleftrightarrow> s_in_use (strm c i) \<and> s_state (strm c i) \<noteq> SS_DONE"

lemma held_nonneg: "0 \<le> held s"
  by (simp add: held_def)

lemma begin_room:
  assumes c: "conn_room n i c" "i < H2C_MAX_STREAMS" "live c i"
    and s: "s_rasm_state (strm c i) = 0" "length (s_rasm_hdr (strm c i)) = 5"
    and r: "rasm_begin e c i = (go, c')"
  shows "conn_room n i c' \<and> (go \<longrightarrow> live c' i \<and> s_rasm_state (strm c' i) = 1)"
proof -
  let ?s = "strm c i" and ?m = "be_nat (tl (s_rasm_hdr (strm c i)))"
  have len: "i < length (c_streams c)" using c by (simp add: conn_room_def)
  note sr = stream_room_at [OF c(1,2)]
  have upd: "stream_room n (?s\<lparr>s_rasm_msglen := m, s_rasm_got := g\<rparr>)" "stream_room n (?s\<lparr>s_rasm_msglen := m\<rparr>)"
    "held (?s\<lparr>s_rasm_msglen := m, s_rasm_got := g\<rparr>) = held ?s" "held (?s\<lparr>s_rasm_msglen := m\<rparr>) = held ?s" for m g
    using sr s by (simp_all add: stream_room_def rasm_ok_def resp_ok_def queue_ok_def held_def)
  have begun: "stream_room n (?s\<lparr>s_rasm_msglen := ?m, s_rasm_got := 0, s_rasm_state := 1\<rparr>)"
      "held (?s\<lparr>s_rasm_msglen := ?m, s_rasm_got := 0, s_rasm_state := 1\<rparr>) = held ?s"
    if "?m \<le> H2C_MAX_MSG" "s_type ?s = ST_SUBSCRIBE \<or> \<not> (s_resp ?s \<noteq> None \<and> ?m > s_resp_cap ?s)"
    using that sr s by (auto simp: stream_room_def rasm_ok_def resp_ok_def queue_ok_def held_def)
  have put: "conn_room n i (put_strm c i (?s\<lparr>s_rasm_msglen := m, s_rasm_got := g\<rparr>))"
      "conn_room n i (put_strm c i (?s\<lparr>s_rasm_msglen := m\<rparr>))" for m g
    using c upd by (intro conn_room_put [OF c(1,2)]; simp add: live_def)+
  let ?c1 = "put_strm c i (?s\<lparr>s_rasm_msglen := ?m, s_rasm_got := 0\<rparr>)"
  consider (abort) X h err where "conn_room n i X" "c' = stream_abort e X i h err" "\<not> go"
    | (toobig) "\<not> go" "c' = put_strm (snd (frame_write_rst e ?c1 (s_id ?s) H2_ERR_CANCEL)) i
        (?s\<lparr>s_rasm_msglen := ?m, s_rasm_got := 0, s_state := SS_DONE, s_err := H2C_ERR_TOOBIG, s_status := 0, s_q_closed := True\<rparr>)"
    | (go) "go" "c' = put_strm c i (?s\<lparr>s_rasm_msglen := ?m, s_rasm_got := 0, s_rasm_state := 1\<rparr>)"
        "?m \<le> H2C_MAX_MSG" "s_type ?s = ST_SUBSCRIBE \<or> \<not> (s_resp ?s \<noteq> None \<and> ?m > s_resp_cap ?s)"
    using r c(1) put(1) [of 0 ?m] put(2) [of ?m] unfolding rasm_begin_def Let_def
    by (auto split: if_splits)
  then show ?thesis
  proof cases
    case abort
    then show ?thesis using abort_room c(2) by simp
  next
    case toobig
    have w: "conn_room n i (snd (frame_write_rst e ?c1 (s_id ?s) H2_ERR_CANCEL))"
      using put by (simp add: frame_write_rst_def)
    have "conn_room n i c'" unfolding toobig(2)
      by (rule conn_room_put [OF w c(2)]) (use upd len in \<open>simp_all add: frame_write_rst_def\<close>)
    then show ?thesis using toobig(1) by simp
  next
    case go
    note b = begun [OF go(3,4)]
    have "conn_room n i c'" unfolding go(2)
      by (rule conn_room_put [OF c(1,2) b(1)]) (use b(2) c(3) in \<open>simp_all add: live_def\<close>)
    then show ?thesis using go(2) len c(3) by (simp add: live_def)
  qed
qed


lemma header_room:
  assumes c: "conn_room (length data) i c" "i < H2C_MAX_STREAMS" "live c i"
    and s: "s_rasm_state (strm c i) = 0"
    and r: "rasm_header e c i data = (go, c', n)"
  shows "conn_room (length data - n) i c' \<and> n \<le> length data \<and> (go \<longrightarrow> live c' i \<and> s_rasm_state (strm c' i) = 1)"
proof -
  let ?s = "strm c i" and ?n = "min (length data) (5 - length (s_rasm_hdr (strm c i)))"
  let ?s1 = "?s\<lparr>s_rasm_hdr := s_rasm_hdr ?s @ take ?n data\<rparr>"
  have len: "i < length (c_streams c)" using c by (simp add: conn_room_def)
  note sr = stream_room_at [OF c(1,2)]
  have h1: "held ?s1 = held ?s + int ?n" using s by (simp add: held_def)
  moreover have "rasm_ok ?s1" "resp_ok ?s1" "queue_ok ?s1"
    using sr s by (auto simp: stream_room_def rasm_ok_def resp_ok_def queue_ok_def)
  ultimately have r1: "stream_room (length data - ?n) ?s1" using sr by (simp add: stream_room_def)
  let ?c1 = "put_strm c i ?s1"
  have c1: "conn_room (length data - ?n) i ?c1" "live ?c1 i" "s_rasm_state (strm ?c1 i) = 0"
    using r1 h1 c len s by (auto intro!: conn_room_put [OF c(1,2)] simp: live_def)
  have eq: "rasm_header e c i data =
      (if length (s_rasm_hdr ?s1) < 5 then (False, ?c1, ?n)
       else case rasm_begin e ?c1 i of (go, c2) \<Rightarrow> (go, c2, ?n))"
    by (simp only: rasm_header_def Let_def)
  show ?thesis
  proof (cases "length (s_rasm_hdr ?s1) < 5")
    case True
    then have "(go, c', n) = (False, ?c1, ?n)" using eq r by (simp only: if_True)
    then show ?thesis using c1 by simp
  next
    case False
    then have "length (s_rasm_hdr (strm ?c1 i)) = 5"
      using sr len by (simp add: stream_room_def rasm_ok_def)
    moreover obtain go' c2 where b: "rasm_begin e ?c1 i = (go', c2)" by force
    ultimately have "conn_room (length data - ?n) i c2 \<and> (go' \<longrightarrow> live c2 i \<and> s_rasm_state (strm c2 i) = 1)"
      using begin_room [OF c1(1) c(2) c1(2,3)] by simp
    moreover have "(go, c', n) = (go', c2, ?n)" using eq r b False by (simp only: if_False prod.case)
    ultimately show ?thesis by simp
  qed
qed

lemma window_update_write:
  "snd (frame_write_window_update e c sid k) =
   c\<lparr>c_out := c_out c @ [\<lparr>fr_type = H2_WINDOW_UPDATE, fr_flags = 0, fr_sid = sid, fr_payload = be_bytes 4 k\<rparr>]\<rparr>"
proof -
  have "\<not> length (be_bytes 4 k) > 0xffffff" unfolding length_be_bytes by simp
  then show ?thesis by (simp only: frame_write_window_update_def frame_write_def if_False snd_conv)
qed

lemma credit_eq:
  assumes "0 < k" "k \<le> 65540" "s_recv_window (strm c i) \<le> H2_INIT_WINDOW" "c_recv_window c \<le> H2_INIT_WINDOW"
  shows "\<exists>fs. stream_credit_message e c i k =
    (put_strm c i ((strm c i)\<lparr>s_recv_window := s_recv_window (strm c i) + int k\<rparr>))
      \<lparr>c_recv_window := c_recv_window c + int k, c_out := c_out c @ fs\<rparr>"
proof -
  have "s32 (int k) = int k" using assms(2) by (simp add: s32_def)
  moreover have "\<not> s_recv_window (strm c i) > 0x7fffffff - int k" "\<not> c_recv_window c > 0x7fffffff - int k" "k \<noteq> 0"
    using assms by (simp_all add: H2_INIT_WINDOW_def)
  ultimately have "stream_credit_message e c i k =
      (put_strm c i ((strm c i)\<lparr>s_recv_window := s_recv_window (strm c i) + int k\<rparr>))
      \<lparr>c_recv_window := c_recv_window c + int k, c_out := c_out c @
         [\<lparr>fr_type = H2_WINDOW_UPDATE, fr_flags = 0, fr_sid = s_id (strm c i), fr_payload = be_bytes 4 k\<rparr>,
          \<lparr>fr_type = H2_WINDOW_UPDATE, fr_flags = 0, fr_sid = 0, fr_payload = be_bytes 4 k\<rparr>]\<rparr>"
    by (simp only: stream_credit_message_def Let_def window_update_write if_False) simp
  then show ?thesis by blast
qed

lemma queue_push_sel [simp]:
  "s_recv_window (queue_push e s m) = s_recv_window s" "s_in_use (queue_push e s m) = s_in_use s"
  "s_state (queue_push e s m) = s_state s" "s_type (queue_push e s m) = s_type s"
  by (simp_all add: queue_push_def)

lemma finish_room:
  assumes c: "conn_room n i c" "i < H2C_MAX_STREAMS" "live c i"
    and s: "s_rasm_state (strm c i) = 1" "s_rasm_got (strm c i) = s_rasm_msglen (strm c i)"
    and r: "rasm_finish e c i = (go, c')"
  shows "conn_room n i c' \<and> (go \<longrightarrow> live c' i \<and> s_rasm_state (strm c' i) = 0)"
proof -
  let ?s = "strm c i"
  have len: "i < length (c_streams c)" using c by (simp add: conn_room_def)
  note sr = stream_room_at [OF c(1,2)]
  have hdr: "length (s_rasm_hdr ?s) = 5" using sr s by (simp add: stream_room_def rasm_ok_def)
  show ?thesis
  proof (cases "s_type ?s")
    case ST_SUBSCRIBE
    let ?m = "take (s_rasm_msglen ?s) (s_rasm_buf ?s)"
    let ?s1 = "(queue_push e ?s ?m)\<lparr>s_rasm_buf := [], s_rasm_state := 0, s_rasm_hdr := []\<rparr>"
    show ?thesis
    proof (cases "s_q_bytes ?s + s_rasm_msglen ?s > H2C_QUEUE_MAX_BYTES")
      case True
      then show ?thesis using r ST_SUBSCRIBE abort_room [OF c(1,2)] by (auto simp: rasm_finish_def)
    next
      case False
      have "rasm_ok ?s1" "resp_ok ?s1" "queue_ok ?s1"
        using sr False ST_SUBSCRIBE
        by (auto simp: stream_room_def rasm_ok_def resp_ok_def queue_ok_def queue_push_def)
      moreover have h: "held ?s1 \<le> held ?s" using s hdr by (simp add: held_def queue_push_def)
      ultimately have "stream_room n ?s1" using sr by (simp add: stream_room_def)
      moreover have "c' = put_strm c i ?s1" "go" using r False ST_SUBSCRIBE by (auto simp: rasm_finish_def Let_def)
      ultimately show ?thesis using h c len
        by (auto intro!: conn_room_put [OF c(1,2)] simp: live_def)
    qed
  next
    case ST_UNARY
    let ?s1 = "?s\<lparr>s_resp_len := s_rasm_got ?s, s_msg_count := s_msg_count ?s + 1\<rparr>"
    let ?c1 = "put_strm c i ?s1"
    have s1: "held ?s1 = held ?s" "stream_room n ?s1"
    proof -
      show h: "held ?s1 = held ?s" by (simp add: held_def)
      show "stream_room n ?s1" using sr unfolding stream_room_def h
        by (simp add: rasm_ok_def resp_ok_def queue_ok_def)
    qed
    have c1: "conn_room n i ?c1" using s1 c by (intro conn_room_put [OF c(1,2)]) (auto simp: live_def)
    show ?thesis
    proof (cases "s_msg_count ?s1 > 1")
      case True
      then show ?thesis using r ST_UNARY abort_room [OF c1 c(2)] by (auto simp: rasm_finish_def Let_def)
    next
      case False
      let ?k = "s_rasm_got ?s + 5"
      have hk: "held ?s = int ?k" using s hdr sr ST_UNARY by (simp add: held_def stream_room_def queue_ok_def)
      have w: "s_recv_window ?s \<ge> 0" "s_recv_window ?s + int ?k + int n \<le> H2_INIT_WINDOW"
        using sr hk by (auto simp: stream_room_def)
      have "(\<Sum>x\<leftarrow>c_streams c. held x) \<ge> 0" using held_nonneg by (intro sum_list_nonneg) auto
      then have wc: "c_recv_window c \<ge> 0" "c_recv_window c \<le> H2_INIT_WINDOW"
        using c(1) by (auto simp: conn_room_def)
      obtain fs where cr: "stream_credit_message e ?c1 i ?k =
          (put_strm ?c1 i (?s1\<lparr>s_recv_window := s_recv_window ?s + int ?k\<rparr>))
            \<lparr>c_recv_window := c_recv_window c + int ?k, c_out := c_out c @ fs\<rparr>"
        using credit_eq [of ?k ?c1 i e] w wc len by (auto simp: H2_INIT_WINDOW_def)
      let ?s2 = "?s1\<lparr>s_recv_window := s_recv_window ?s + int ?k, s_rasm_state := 0, s_rasm_hdr := []\<rparr>"
      have h2: "held ?s2 = 0" using sr ST_UNARY by (simp add: held_def stream_room_def queue_ok_def)
      have "rasm_ok ?s2" "resp_ok ?s2" "queue_ok ?s2"
        using sr by (auto simp: stream_room_def rasm_ok_def resp_ok_def queue_ok_def)
      then have "stream_room n ?s2" using w h2 by (simp add: stream_room_def)
      then have "conn_room n i ((put_strm c i ?s2)\<lparr>c_recv_window := c_recv_window c + int ?k\<rparr>)"
        using wc h2 hk c by (intro conn_room_put_window [OF c(1,2)]) (auto simp: live_def)
      moreover have "go" "c' = (put_strm c i ?s2)\<lparr>c_recv_window := c_recv_window c + int ?k, c_out := c_out c @ fs\<rparr>"
        using r ST_UNARY False cr len by (auto simp: rasm_finish_def Let_def)
      ultimately show ?thesis using c len by (simp add: live_def)
    qed
  qed
qed


lemma rasm_store_sel [simp]:
  "s_rasm_got (rasm_store s chunk) = s_rasm_got s + length chunk"
  "s_rasm_msglen (rasm_store s chunk) = s_rasm_msglen s" "s_rasm_state (rasm_store s chunk) = s_rasm_state s"
  "s_rasm_hdr (rasm_store s chunk) = s_rasm_hdr s" "s_queue (rasm_store s chunk) = s_queue s"
  "s_q_bytes (rasm_store s chunk) = s_q_bytes s" "s_type (rasm_store s chunk) = s_type s"
  "s_in_use (rasm_store s chunk) = s_in_use s" "s_state (rasm_store s chunk) = s_state s"
  "s_recv_window (rasm_store s chunk) = s_recv_window s" "s_resp_cap (rasm_store s chunk) = s_resp_cap s"
  by (simp_all add: rasm_store_def Let_def split: option.splits)

lemma store_room:
  assumes s: "stream_room n s" "s_rasm_state s = 1" and k: "length chunk \<le> s_rasm_msglen s - s_rasm_got s" "length chunk \<le> n"
  shows "stream_room (n - length chunk) (rasm_store s chunk)" "held (rasm_store s chunk) = held s + int (length chunk)"
proof -
  show h: "held (rasm_store s chunk) = held s + int (length chunk)" using s(2) by (simp add: held_def)
  have ok: "rasm_ok s" "resp_ok s" "queue_ok s" using s(1) by (simp_all add: stream_room_def)
  have "rasm_ok (rasm_store s chunk)" "queue_ok (rasm_store s chunk)"
    using ok k(1) s(2) by (auto simp: rasm_ok_def queue_ok_def)
  moreover have "resp_ok (rasm_store s chunk)"
  proof (cases "s_type s = ST_UNARY \<and> s_resp s \<noteq> None")
    case True
    then obtain buf where buf: "s_type s = ST_UNARY" "s_resp s = Some buf" by auto
    then have "s_resp (rasm_store s chunk) = Some (take (s_rasm_got s) buf @ chunk)"
      by (simp add: rasm_store_def Let_def)
    then show ?thesis using ok(1,2) buf k(1) s(2) by (auto simp: resp_ok_def rasm_ok_def)
  next
    case False
    then have "s_type s \<noteq> ST_UNARY \<or> s_resp (rasm_store s chunk) = None"
      by (auto simp: rasm_store_def Let_def split: option.splits)
    then show ?thesis by (auto simp: resp_ok_def)
  qed
  ultimately show "stream_room (n - length chunk) (rasm_store s chunk)"
    using s(1) k(2) h by (simp add: stream_room_def)
qed

lemma body_room:
  assumes c: "conn_room (length data) i c" "i < H2C_MAX_STREAMS" "live c i"
    and s: "s_rasm_state (strm c i) = 1"
    and r: "rasm_body e c i data = (go, c', n)"
  shows "conn_room (length data - n) i c' \<and> n \<le> length data \<and> (go \<longrightarrow> live c' i)"
proof -
  let ?s = "strm c i"
  define k where "k = min (length data) (s_rasm_msglen ?s - s_rasm_got ?s)"
  define s1 where "s1 = rasm_store ?s (take k data)"
  have len: "i < length (c_streams c)" using c by (simp add: conn_room_def)
  note sr = stream_room_at [OF c(1,2)]
  have k: "length (take k data) = k" "k \<le> s_rasm_msglen ?s - s_rasm_got ?s" "k \<le> length data" by (auto simp: k_def)
  have st: "stream_room (length data - k) s1" "held s1 = held ?s + int k"
    using store_room [OF sr s, of "take k data"] k by (simp_all add: s1_def)
  have c1: "conn_room (length data - k) i (put_strm c i s1)" "live (put_strm c i s1) i"
    using st c len k(3) by (auto intro!: conn_room_put [OF c(1,2)] simp: live_def s1_def)
  have eq: "rasm_body e c i data =
      (if s_rasm_got s1 \<ge> s_rasm_msglen s1 then (case rasm_finish e (put_strm c i s1) i of (go, c2) \<Rightarrow> (go, c2, k))
       else (True, put_strm c i s1, k))"
    by (simp only: rasm_body_def Let_def k_def [symmetric] s1_def [symmetric])
  show ?thesis
  proof (cases "s_rasm_got s1 \<ge> s_rasm_msglen s1")
    case True
    obtain go' c2 where f: "rasm_finish e (put_strm c i s1) i = (go', c2)" by force
    have "s_rasm_state s1 = 1" "s_rasm_got s1 = s_rasm_msglen s1"
      using True st(1) s by (auto simp: s1_def stream_room_def rasm_ok_def)
    then have "conn_room (length data - k) i c2 \<and> (go' \<longrightarrow> live c2 i)"
      using finish_room [OF c1(1) c(2) c1(2) _ _ f] len by simp
    moreover have "(go, c', n) = (go', c2, k)" using eq r f True by (simp only: if_True prod.case)
    ultimately show ?thesis using k(3) by simp
  next
    case False
    then have "(go, c', n) = (True, put_strm c i s1, k)" using eq r by (simp only: if_False)
    then show ?thesis using c1 k(3) by simp
  qed
qed

lemma step_room:
  assumes c: "conn_room (length data) i c" "i < H2C_MAX_STREAMS" "live c i"
    and r: "feed_step e c i data = (go, c', n)"
  shows "conn_room (length data - n) i c' \<and> n \<le> length data \<and> (go \<longrightarrow> live c' i)"
proof (cases "s_rasm_state (strm c i) = 0")
  case True
  obtain go1 c1 n1 where h: "rasm_header e c i data = (go1, c1, n1)" by (metis prod_cases3)
  note hr = header_room [OF c True h]
  show ?thesis
  proof (cases go1)
    case go: True
    obtain go2 c2 n2 where b: "rasm_body e c1 i (drop n1 data) = (go2, c2, n2)" by (metis prod_cases3)
    have "conn_room (length (drop n1 data) - n2) i c2 \<and> n2 \<le> length (drop n1 data) \<and> (go2 \<longrightarrow> live c2 i)"
      using body_room [OF _ c(2) _ _ b] hr go by simp
    moreover have "n1 \<le> length data" using hr by simp
    ultimately show ?thesis using r True h b go by (auto simp: feed_step_def)
  next
    case False
    then show ?thesis using r True h hr by (simp add: feed_step_def)
  qed
next
  case False
  then have "s_rasm_state (strm c i) = 1"
    using stream_room_at [OF c(1,2)] by (auto simp: stream_room_def rasm_ok_def)
  then show ?thesis using body_room [OF c] r False by (simp add: feed_step_def)
qed

lemma feed_room:
  assumes "i < H2C_MAX_STREAMS"
  shows "conn_room (length data) i c \<Longrightarrow> live c i \<Longrightarrow> conn_ok (feed_loop fuel e c i data)"
proof (induction fuel arbitrary: c data)
  case 0
  then show ?case using conn_room_less conn_room_0 by (metis feed_loop.simps(1) zero_le)
next
  case (Suc fuel)
  obtain go c1 n where st: "feed_step e c i data = (go, c1, n)" by (metis prod_cases3)
  have s: "conn_room (length data - n) i c1 \<and> n \<le> length data \<and> (go \<longrightarrow> live c1 i)"
    by (rule step_room [OF Suc.prems(1) assms Suc.prems(2) st])
  show ?case
  proof (cases "data = [] \<or> \<not> go")
    case True
    then show ?thesis using st s Suc.prems(1) conn_room_less [of _ i _ 0] conn_room_0 by auto
  next
    case False
    then show ?thesis using Suc.IH [of "drop n data" c1] st s by simp
  qed
qed


section \<open>The frame handlers keep the invariant\<close>

lemma conn_ok_upd [simp]:
  "conn_ok (c\<lparr>c_out := x\<rparr>) = conn_ok c" "conn_ok (c\<lparr>c_rx := r\<rparr>) = conn_ok c"
  "conn_ok (c\<lparr>c_msg_head := h, c_msg_ring := g\<rparr>) = conn_ok c" "conn_ok (c\<lparr>c_ready := b\<rparr>) = conn_ok c"
  "conn_ok (c\<lparr>c_hdr_block_pending := b\<rparr>) = conn_ok c" "conn_ok (c\<lparr>c_send_window := w\<rparr>) = conn_ok c"
  "conn_ok (c\<lparr>c_srv_max_streams := n\<rparr>) = conn_ok c"
  "conn_ok (c\<lparr>c_goaway_seen := b, c_goaway_last_sid := n\<rparr>) = conn_ok c"
  "conn_ok (c\<lparr>c_hdr_block_sid := sid\<rparr>) = conn_ok c" "conn_ok (c\<lparr>c_hdr_block_flags := f\<rparr>) = conn_ok c"
  "conn_ok (c\<lparr>c_hdr_block_cap := n\<rparr>) = conn_ok c" "conn_ok (c\<lparr>c_srv_initial_window := w\<rparr>) = conn_ok c"
  by (simp_all add: conn_ok_def conn_room_def tables_ok_def dead_done_def)

lemma conn_ok_write [simp]: "conn_ok (snd (frame_write e c t f sid p)) = conn_ok c"
  by (simp add: conn_ok_def)

lemma conn_ok_store [simp]: "conn_ok (conn_store_message c st m) = conn_ok c"
  by (simp add: conn_store_message_def Let_def)

lemma conn_ok_put:
  assumes "conn_ok c" "i < H2C_MAX_STREAMS" "stream_room 0 s" "held s \<le> held (strm c i)"
    and "s_in_use s \<Longrightarrow> s_state s = SS_DONE \<or> live c i"
  shows "conn_ok (put_strm c i s)"
  using conn_room_put [of 0 i c 0 s] assms by (auto simp: conn_room_0 live_def)

lemma conn_ok_tables:
  "conn_ok c \<Longrightarrow> tables_ok c' \<Longrightarrow> c_streams c' = c_streams c \<Longrightarrow> c_recv_window c' = c_recv_window c \<Longrightarrow>
   c_dead c' = c_dead c \<Longrightarrow> conn_ok c'"
  by (simp add: conn_ok_def conn_room_def dead_done_def)

lemma conn_ok_stream: "conn_ok c \<Longrightarrow> i < H2C_MAX_STREAMS \<Longrightarrow> stream_room 0 (strm c i)"
  using stream_room_at conn_room_0 by blast

lemma conn_ok_map:
  assumes c: "conn_ok c" and f: "\<And>s. stream_room 0 s \<Longrightarrow> stream_room 0 (f s)" "\<And>s. held (f s) = held s"
    and dd: "dead_done (c\<lparr>c_streams := map f (c_streams c)\<rparr>)"
  shows "conn_ok (c\<lparr>c_streams := map f (c_streams c)\<rparr>)"
  using assms by (auto simp: conn_ok_def conn_room_def tables_ok_def o_def)

lemma stream_find_Some:
  assumes "stream_find c sid = Some i"
  shows "i < H2C_MAX_STREAMS" "s_in_use (strm c i)" "s_id (strm c i) = sid"
  using find_Some_in_set [OF assms [unfolded stream_find_def]] by auto

lemma complete_all_ok:
  assumes "conn_ok c"
  shows "conn_ok ((complete_all_streams c st m)\<lparr>c_dead := b, c_dead_code := k\<rparr>)"
proof -
  let ?c = "c\<lparr>c_streams := map (complete_stream st) (c_streams c)\<rparr>"
  have "stream_room 0 s \<Longrightarrow> stream_room 0 (complete_stream st s)" "held (complete_stream st s) = held s" for s
    by (simp_all add: complete_stream_def)
  moreover have fin: "s_in_use s \<Longrightarrow> s_state s = SS_DONE" if "s \<in> set (map (complete_stream st) (c_streams c))" for s
    using that by (auto simp: complete_stream_def split: if_splits)
  ultimately have "conn_ok ?c" using assms by (intro conn_ok_map) (auto simp: dead_done_def)
  then show ?thesis using fin
    by (auto simp: conn_ok_def conn_room_def complete_all_streams_def conn_store_message_def Let_def
        tables_ok_def dead_done_def)
qed

lemma conn_fail_ok: "conn_ok c \<Longrightarrow> conn_ok (conn_fail c k)"
proof -
  assume c: "conn_ok c"
  have "complete_all_streams (c\<lparr>c_dead := True, c_dead_code := k\<rparr>) st m =
      (complete_all_streams c st m)\<lparr>c_dead := True, c_dead_code := k\<rparr>" for st m
    by (simp add: complete_all_streams_def conn_store_message_def Let_def)
  then show ?thesis using complete_all_ok [OF c] c by (simp add: conn_fail_def)
qed

lemma conn_ok_windows:
  assumes "conn_ok c"
  shows "conn_ok (c\<lparr>c_srv_initial_window := x,
    c_streams := map (\<lambda>s. if s_in_use s then s\<lparr>s_send_window := w s\<rparr> else s) (c_streams c)\<rparr>)"
proof -
  let ?f = "\<lambda>s. if s_in_use s then s\<lparr>s_send_window := w s\<rparr> else s"
  let ?c = "c\<lparr>c_srv_initial_window := x\<rparr>"
  have "dead_done c" using assms by (simp add: conn_ok_def conn_room_def)
  then have "dead_done (?c\<lparr>c_streams := map ?f (c_streams ?c)\<rparr>)"
    unfolding dead_done_def by (auto split: if_splits)
  moreover have "stream_room 0 s \<Longrightarrow> stream_room 0 (?f s)" "held (?f s) = held s" for s by simp_all
  moreover have "conn_ok ?c" using assms by simp
  ultimately have "conn_ok (?c\<lparr>c_streams := map ?f (c_streams ?c)\<rparr>)" by (intro conn_ok_map)
  moreover have "c_streams ?c = c_streams c" by simp
  ultimately show ?thesis by (simp only:)
qed

lemma apply_setting_ok:
  assumes c: "conn_ok c"
  shows "conn_ok (snd (apply_setting c k v))"
proof -
  have t: "tables_ok c" using c by (simp add: conn_ok_def conn_room_def)
  consider "k = 1" | "k = 4" | "k = 5" | "k \<notin> {1, 4, 5}" by auto
  then show ?thesis
  proof cases
    case 1
    have "conn_ok (c\<lparr>c_dyn_enc := dyn_set_max (c_dyn_enc c) v, c_enc_size_update := True\<rparr>)"
      by (rule conn_ok_tables [OF c]) (use t dyn_set_max_ok in \<open>simp_all add: tables_ok_def\<close>)
    then show ?thesis using 1 c by (simp add: apply_setting_def)
  next
    case 2
    then show ?thesis using conn_ok_windows [OF c] by (simp add: apply_setting_def Let_def)
  next
    case 3
    have "16384 \<le> v \<Longrightarrow> v \<le> 16777215 \<Longrightarrow> conn_ok (c\<lparr>c_srv_max_frame := v\<rparr>)"
      by (rule conn_ok_tables [OF c]) (use t in \<open>simp_all add: tables_ok_def\<close>)
    then show ?thesis using 3 c by (simp add: apply_setting_def)
  next
    case 4
    then show ?thesis using c by (simp add: apply_setting_def)
  qed
qed

lemma settings_ok: "conn_ok c \<Longrightarrow> conn_ok (snd (settings_loop c p))"
proof (induction c p rule: settings_loop.induct)
  case (1 c i1 i0 v3 v2 v1 v0 rest)
  obtain ok c' where st: "apply_setting c (be_nat [i1, i0]) (be_nat [v3, v2, v1, v0]) = (ok, c')" by force
  have "conn_ok c'" using apply_setting_ok [OF 1(2), of "be_nat [i1, i0]" "be_nat [v3, v2, v1, v0]"] st by simp
  then show ?case using 1(1) [OF st [symmetric]] st by (cases ok) (simp_all del: be_nat.simps)
qed simp_all

lemma handle_settings_ok: "conn_ok c \<Longrightarrow> conn_ok (snd (handle_settings e c p))"
  using settings_ok [of c p]
  by (auto simp: handle_settings_def frame_write_settings_def frame_write_def split: prod.splits bool.splits)

lemma dyn_dec_ok:
  assumes "conn_ok c" "hpack_decode_block mem (c_dyn_dec c) inp n = (d, r)"
  shows "conn_ok (c\<lparr>c_dyn_dec := d\<rparr>)"
proof -
  have "tables_ok c" using assms(1) by (simp add: conn_ok_def conn_room_def)
  then have "tables_ok (c\<lparr>c_dyn_dec := d\<rparr>)"
    using decode_loop_ok [OF _ _ assms(2) [unfolded hpack_decode_block_def]] by (simp add: tables_ok_def)
  then show ?thesis using conn_ok_tables [OF assms(1)] by simp
qed

lemma apply_headers_ok:
  assumes "conn_ok c" "i < H2C_MAX_STREAMS" "s_in_use (strm c i)"
  shows "conn_ok (snd (apply_headers c i h))"
proof -
  have "conn_ok (put_strm c i ((strm c i)\<lparr>s_state := SS_DONE, s_status := st, s_err := 0, s_q_closed := True, s_rasm_buf := []\<rparr>))" for st
    using conn_ok_stream [OF assms(1,2)] by (intro conn_ok_put [OF assms(1,2)]) auto
  moreover have "conn_ok (put_strm c i ((strm c i)\<lparr>s_state := SS_HEADERS, s_saw_headers := True\<rparr>))"
    if "s_state (strm c i) = SS_SENT"
    using conn_ok_stream [OF assms(1,2)] that assms(3) by (intro conn_ok_put [OF assms(1,2)]) (auto simp: live_def)
  ultimately show ?thesis using assms(1) by (auto simp: apply_headers_def Let_def split: option.splits)
qed

lemma header_block_ok: "conn_ok c \<Longrightarrow> conn_ok (snd (handle_header_block e c sid block flags))"
  unfolding handle_header_block_def
  by (auto simp: Let_def dest: dyn_dec_ok stream_find_Some intro!: apply_headers_ok split: option.splits prod.splits)

lemma conn_ok_block: "conn_ok c \<Longrightarrow> length b \<le> H2C_HDR_BLOCK_MAX \<Longrightarrow> conn_ok (c\<lparr>c_hdr_block := b\<rparr>)"
  by (simp add: conn_ok_def conn_room_def tables_ok_def dead_done_def)

lemma headers_frame_ok: "conn_ok c \<Longrightarrow> conn_ok (snd (handle_headers_frame e c flags sid p))"
  by (simp add: handle_headers_frame_def header_block_ok conn_ok_block)

lemma continuation_frame_ok: "conn_ok c \<Longrightarrow> conn_ok (snd (handle_continuation_frame e c flags p))"
proof -
  assume c: "conn_ok c"
  let ?c1 = "c\<lparr>c_hdr_block := c_hdr_block c @ p, c_hdr_block_cap := max (c_hdr_block_cap c) (length (c_hdr_block c) + length p)\<rparr>"
  have c1: "conn_ok ?c1" if "length (c_hdr_block c) + length p \<le> H2C_HDR_BLOCK_MAX"
    using conn_ok_block [OF c, of "c_hdr_block c @ p"] that by simp
  then show ?thesis
    using c header_block_ok [of ?c1 e "c_hdr_block_sid c" "c_hdr_block c @ p" "c_hdr_block_flags c"]
    by (auto simp: handle_continuation_frame_def Let_def not_less split: prod.splits)
qed

lemma data_frame_ok: "conn_ok c \<Longrightarrow> conn_ok (snd (handle_data_frame e c flags sid p))"
proof -
  assume c: "conn_ok c"
  show ?thesis
  proof (cases "stream_find c sid")
    case None
    then show ?thesis using c by (simp add: handle_data_frame_def)
  next
    case (Some i)
    note i = stream_find_Some [OF Some]
    let ?s = "strm c i"
    let ?c1 = "(put_strm c i (?s\<lparr>s_recv_window := s_recv_window ?s - int (length p)\<rparr>))
        \<lparr>c_recv_window := c_recv_window c - int (length p)\<rparr>"
    have len: "i < length (c_streams c)" using c i by (simp add: conn_ok_def conn_room_def)
    note sr = conn_ok_stream [OF c i(1)]
    have feed: "conn_ok (stream_feed_data e ?c1 i d) \<and> i < H2C_MAX_STREAMS"
      if "s_state ?s \<noteq> SS_DONE" "int (length p) \<le> c_recv_window c" "int (length p) \<le> s_recv_window ?s" "length d \<le> length p" for d
    proof -
      have "stream_room (length p) (?s\<lparr>s_recv_window := s_recv_window ?s - int (length p)\<rparr>)"
          "held (?s\<lparr>s_recv_window := s_recv_window ?s - int (length p)\<rparr>) = held ?s"
        using sr that(3) by (simp_all add: stream_room_def)
      then have "conn_room (length p) i ?c1"
        using c i that(1,2) conn_room_0 [of i c] by (intro conn_room_put_window [of 0]) auto
      then have "conn_room (length d) i ?c1" "live ?c1 i"
        using that(1,4) conn_room_less i len by (auto simp: live_def)
      then show ?thesis using feed_room [OF i(1)] i(1) by (simp add: stream_feed_data_def)
    qed
    have ab: "conn_ok c' \<Longrightarrow> conn_ok (stream_abort e c' i h k)" for c' h k
      using abort_room [of 0 i c'] i(1) conn_room_0 by blast
    show ?thesis
      using c feed [of p] feed [of "take (length p - 1 - unat (hd p)) (tl p)"] ab Some
      by (auto simp: handle_data_frame_def Let_def not_less)
  qed
qed

lemma window_update_ok: "conn_ok c \<Longrightarrow> conn_ok (snd (handle_window_update c sid p))"
proof -
  assume c: "conn_ok c"
  have "conn_ok (put_strm c i ((strm c i)\<lparr>s_send_window := w\<rparr>))" if "i < H2C_MAX_STREAMS" for i w
  proof -
    have "\<forall>s \<in> set (c_streams c). s_in_use s \<longrightarrow> s_state s = SS_DONE" if "c_dead c"
      using c that by (simp add: conn_ok_def conn_room_def dead_done_def)
    then have "conn_room 0 i (put_strm c i ((strm c i)\<lparr>s_send_window := w\<rparr>))"
      using c \<open>i < H2C_MAX_STREAMS\<close> conn_ok_stream [OF c \<open>i < H2C_MAX_STREAMS\<close>]
      by (auto simp: conn_ok_def conn_room_def sum_list_map_update nth_list_update tables_ok_def dead_done_def
          dest!: set_update_subset_insert [THEN subsetD])
    then show ?thesis by (simp add: conn_room_0)
  qed
  then show ?thesis using c
    by (auto simp: handle_window_update_def Let_def dest: stream_find_Some split: option.splits)
qed

lemma goaway_ok: "conn_ok c \<Longrightarrow> conn_ok (snd (handle_goaway c p))"
  using complete_all_ok [of "c\<lparr>c_goaway_seen := True, c_goaway_last_sid := be_nat (take 4 p)\<rparr>"]
  by (simp add: handle_goaway_def)

lemma rst_stream_ok: "conn_ok c \<Longrightarrow> conn_ok (snd (handle_rst_stream c sid p))"
proof -
  assume c: "conn_ok c"
  have "conn_ok (put_strm c i (stream_destroy (strm c i)))"
    "conn_ok (put_strm c i ((strm c i)\<lparr>s_state := SS_DONE, s_status := st, s_err := 0, s_q_closed := True, s_rasm_buf := []\<rparr>))"
    if "i < H2C_MAX_STREAMS" for i st
  proof -
    note sr = conn_ok_stream [OF c that]
    have "held (stream_destroy (strm c i)) \<le> held (strm c i)" by (simp add: held_def stream_destroy_def)
    moreover from this have "stream_room 0 (stream_destroy (strm c i))"
      using sr by (auto simp: stream_room_def rasm_ok_def resp_ok_def queue_ok_def stream_destroy_def)
    ultimately show "conn_ok (put_strm c i (stream_destroy (strm c i)))"
      by (intro conn_ok_put [OF c that]) (simp_all add: stream_destroy_def)
    show "conn_ok (put_strm c i ((strm c i)\<lparr>s_state := SS_DONE, s_status := st, s_err := 0, s_q_closed := True, s_rasm_buf := []\<rparr>))"
      using sr by (intro conn_ok_put [OF c that]) auto
  qed
  then show ?thesis using c
    by (auto simp: handle_rst_stream_def Let_def dest: stream_find_Some split: option.splits)
qed

lemma ping_ok: "conn_ok c \<Longrightarrow> conn_ok (snd (handle_ping e c flags p))"
  by (simp add: handle_ping_def frame_write_ping_ack_def frame_write_def)

lemma dispatch_ok: "conn_ok c \<Longrightarrow> conn_ok (snd (dispatch_frame e c f))"
  by (simp add: dispatch_frame_def Let_def handle_settings_ok ping_ok window_update_ok data_frame_ok
      headers_frame_ok continuation_frame_ok rst_stream_ok goaway_ok)


section \<open>Polling\<close>

lemma process_ok:
  assumes "conn_ok c" "process_one_frame e c sc = (rc, c', sc')"
  shows "conn_ok c'"
proof -
  obtain fr r sc1 where f: "frame_reader_fill (he_mem e) (c_rx c) sc = (fr, r, sc1)" by (metis prod_cases3)
  have "conn_ok (snd (dispatch_frame e (c\<lparr>c_rx := r\<rparr>) (rx_frame r)))"
    using dispatch_ok [of "c\<lparr>c_rx := r\<rparr>"] assms(1) by simp
  then show ?thesis using assms f by (auto simp: process_one_frame_def Let_def split: if_splits prod.splits)
qed

lemma conn_fail_dead: "c_dead (conn_fail c k)"
  by (simp add: conn_fail_def complete_all_streams_def conn_store_message_def Let_def)

lemma poll_frames_ok:
  "conn_ok c \<Longrightarrow> poll_frames budget e c sc = (rc, c', sc') \<Longrightarrow> conn_ok c' \<and> (rc < 0 \<longrightarrow> c_dead c')"
proof (induction budget arbitrary: c sc)
  case (Suc budget)
  obtain r c1 sc1 where p: "process_one_frame e c sc = (r, c1, sc1)" by (metis prod_cases3)
  have c1: "conn_ok c1" by (rule process_ok [OF Suc.prems(1) p])
  show ?case using Suc.prems(2) Suc.IH [OF c1] p c1 conn_fail_ok [OF c1] conn_fail_dead
    by (auto split: if_splits)
qed (auto split: if_splits)

lemma poll_once_ok:
  "conn_ok c \<Longrightarrow> conn_poll_once e c pe sc = (rc, c', sc') \<Longrightarrow> conn_ok c' \<and> (rc < 0 \<longrightarrow> c_dead c')"
  using poll_frames_ok [of c H2C_FRAME_BUDGET e sc rc c' sc'] conn_fail_ok [of c] conn_fail_dead
  by (cases pe) (auto simp: conn_poll_once_def split: if_splits)

text \<open>
  Whatever the server sends and however the socket and the allocator behave, polling keeps the
  connection well-formed: header tables within their limits, reassembly state consistent,
  the caller's response buffer never overrun, queues within their cap. Both receive
  windows stay non-negative and, together with the bytes still held, within the advertised 65535;
  and when polling reports a failure the connection is dead and no stream in use is left
  waiting.
\<close>

lemma polling_keeps_connection:
  assumes "conn_ok c" and "conn_poll_once e c pe sc = (rc, c', sc')"
  shows "conn_ok c' \<and> 0 \<le> c_recv_window c' \<and> c_recv_window c' \<le> 65535 \<and>
    (\<forall>i < 8. 0 \<le> s_recv_window (strm c' i) \<and> s_recv_window (strm c' i) \<le> 65535) \<and>
    (rc < 0 \<longrightarrow> c_dead c' \<and> (\<forall>s \<in> set (c_streams c'). s_in_use s \<longrightarrow> s_state s = SS_DONE))"
proof -
  have ok: "conn_ok c'" "rc < 0 \<longrightarrow> c_dead c'" using poll_once_ok [OF assms] by auto
  have "(\<Sum>x\<leftarrow>c_streams c'. held x) \<ge> 0" using held_nonneg by (intro sum_list_nonneg) auto
  then have "0 \<le> c_recv_window c'" "c_recv_window c' \<le> 65535"
    using ok(1) by (auto simp: conn_ok_def conn_room_def H2_INIT_WINDOW_def)
  moreover have "0 \<le> s_recv_window (strm c' i) \<and> s_recv_window (strm c' i) \<le> 65535" if "i < 8" for i
    using conn_ok_stream [OF ok(1), of i] that held_nonneg [of "strm c' i"]
    by (auto simp: stream_room_def H2C_MAX_STREAMS_def H2_INIT_WINDOW_def)
  moreover have "dead_done c'" using ok(1) by (simp add: conn_ok_def conn_room_def)
  ultimately show ?thesis using ok by (auto simp: dead_done_def)
qed

text \<open>A connection as \<open>h2c_connect\<close> sets it up, before the handshake.\<close>

definition fresh_conn :: "string \<Rightarrow> strim_h2c" where
  "fresh_conn ns = \<lparr>c_ready = False, c_dead = False, c_dead_code = 0, c_namespace = ns, c_next_sid = 1,
     c_streams = replicate H2C_MAX_STREAMS zero_stream, c_recv_window = H2_INIT_WINDOW, c_send_window = H2_INIT_WINDOW,
     c_srv_max_frame = 16384, c_srv_max_streams = 100, c_srv_initial_window = H2_INIT_WINDOW,
     c_dyn_enc = dyn_reset, c_dyn_dec = dyn_reset, c_enc_size_update = False,
     c_rx = \<lparr>rx_hdr = [], rx_payload = [], rx_cap = 0, rx_len = 0, rx_type = 0, rx_flags = 0, rx_sid = 0\<rparr>,
     c_hdr_block = [], c_hdr_block_cap = 0, c_hdr_block_sid = 0, c_hdr_block_flags = 0, c_hdr_block_pending = False,
     c_goaway_seen = False, c_goaway_last_sid = 0, c_msg_ring = [(0, []), (0, [])], c_msg_head = -1, c_out = []\<rparr>"

lemma fresh_conn_ok: "conn_ok (fresh_conn ns)"
proof -
  have z: "stream_room 0 zero_stream" "held zero_stream = 0"
    by (simp_all add: stream_room_def held_def rasm_ok_def resp_ok_def queue_ok_def zero_stream_def
        H2_INIT_WINDOW_def H2C_QUEUE_MAX_BYTES_def)
  then show ?thesis using dyn_reset_ok
    by (simp add: conn_ok_def conn_room_def fresh_conn_def tables_ok_def dead_done_def zero_stream_def
        H2_INIT_WINDOW_def H2C_HDR_BLOCK_MAX_def sum_list_replicate)
qed

lemma polling_keeps_connection_witness:
  "c_dead (fst (snd (conn_poll_once \<lparr>he_mem = ample, he_send = (\<lambda>_. True)\<rparr> (fresh_conn ''default'') Poll_error [])))"
proof -
  let ?e = "\<lparr>he_mem = ample, he_send = (\<lambda>_. True)\<rparr>"
  obtain rc c' sc' where r: "conn_poll_once ?e (fresh_conn ''default'') Poll_error [] = (rc, c', sc')"
    by (metis prod_cases3)
  have "rc < 0" using r by (auto simp: conn_poll_once_def fresh_conn_def H2C_ERR_IO_def split: if_splits)
  then show ?thesis using polling_keeps_connection [OF fresh_conn_ok r] r by simp
qed

text \<open>
  The other side of the accounting: credit is only returned for whole messages, so no
  message longer than 65530 bytes can ever be received, although messages of up to 16 MiB are
  announced as acceptable. The peer runs out of window in the middle of it.
\<close>

lemma message_window_limit:
  assumes "conn_ok c" "i < 8" "m \<in> set (s_queue (strm c i))"
  shows "length m \<le> 65530"
proof -
  have "stream_room 0 (strm c i)" using conn_ok_stream [OF assms(1)] assms(2) by (simp add: H2C_MAX_STREAMS_def)
  moreover have "length m + 5 \<le> sum_list (map (\<lambda>m. length m + 5) (s_queue (strm c i)))"
    using assms(3) by (intro member_le_sum_list) auto
  ultimately show ?thesis by (auto simp: stream_room_def held_def H2_INIT_WINDOW_def)
qed

lemma partial_message_limit:
  assumes "conn_ok c" "i < 8" "s_rasm_state (strm c i) = 1"
  shows "s_rasm_got (strm c i) \<le> 65530"
proof -
  have "stream_room 0 (strm c i)" using conn_ok_stream [OF assms(1)] assms(2) by (simp add: H2C_MAX_STREAMS_def)
  then show ?thesis using assms(3) by (auto simp: stream_room_def held_def rasm_ok_def H2_INIT_WINDOW_def)
qed

end
