(* ===== verification/H2c_Calls.thy ===== *)
theory H2c_Calls
  imports H2c_Inv
begin

text \<open>
  The calls of \<open>containerd/h2c.c\<close>: building and sending a request under flow control, the
  handshake, unary calls and server streams. A loop that waits for the server consumes one
  \<open>round\<close> per iteration: a clock reading, what \<open>poll\<close> reports and what arrives on the socket.
  Rounds that run out are a call that still waits; a write behind the end of a buffer is an outcome
  of its own.
\<close>

section \<open>Waiting\<close>

record wait_round =
  wr_now :: int
  wr_poll :: poll_event
  wr_events :: "read_event list"

text \<open>A clock reading taken outside the loops, by the number of frames written so far.\<close>

type_synonym base_clock = "nat \<Rightarrow> int"

record session =
  se_conn :: strim_h2c
  se_socket :: "read_event list"
  se_rounds :: "wait_round list"

datatype 'a outcome = Ret 'a | Blocked | Overrun

definition time_left_ms :: "int \<Rightarrow> int \<Rightarrow> int" where
  "time_left_ms deadline now = (let left = deadline - now in if left > 0 then left else 0)"

section \<open>Requests\<close>

definition H2C_REQ_HDR_BLOCK :: nat where "H2C_REQ_HDR_BLOCK = 1024"
definition H2C_DATA_BUF :: nat where "H2C_DATA_BUF = 16384 + 5"
definition H2C_DEFAULT_UNARY_TIMEOUT_MS :: int where "H2C_DEFAULT_UNARY_TIMEOUT_MS = 30000"
definition H2C_STREAM_OPEN_GRACE_MS :: int where "H2C_STREAM_OPEN_GRACE_MS = 250"
definition H2C_HANDSHAKE_MS :: int where "H2C_HANDSHAKE_MS = 5000"

definition request_fields :: "string \<Rightarrow> string \<Rightarrow> hpack_field list" where
  "request_fields path ns =
     [\<lparr>hf_name = c_bytes '':path'', hf_value = c_bytes path\<rparr>,
      \<lparr>hf_name = c_bytes '':authority'', hf_value = c_bytes ''localhost''\<rparr>,
      \<lparr>hf_name = c_bytes ''content-type'', hf_value = c_bytes ''application/grpc''\<rparr>,
      \<lparr>hf_name = c_bytes ''te'', hf_value = c_bytes ''trailers''\<rparr>,
      \<lparr>hf_name = c_bytes ''user-agent'', hf_value = c_bytes ''grpc-c/1.0''\<rparr>,
      \<lparr>hf_name = c_bytes ''containerd-namespace'', hf_value = c_bytes ns\<rparr>]"

text \<open>The table-size update if one is due, two indexed fields, then the literal ones.\<close>

definition build_request_headers :: "h2_env \<Rightarrow> strim_h2c \<Rightarrow> string \<Rightarrow> nat \<Rightarrow> strim_h2c \<times> bytes option" where
  "build_request_headers e c path cap =
     (let upd = (if c_enc_size_update c then hpack_write_int_ex cap (dt_max_size (c_dyn_enc c) mod 2 ^ 32) 5 0x20 else []);
          c1 = c\<lparr>c_enc_size_update := False\<rparr>;
          m = hpack_write_int_ex (cap - length upd) 3 7 0x80;
          sch = hpack_write_int_ex (cap - length upd - length m) 6 7 0x80
      in if c_enc_size_update c \<and> upd = [] then (c, None)
         else if m = [] then (c1, None)
         else if sch = [] then (c1, None)
         else case encode_fields (he_mem e) (cap - length upd - length m - length sch) (c_dyn_enc c1)
                     (request_fields path (c_namespace c)) of
                (d, out) \<Rightarrow> (c1\<lparr>c_dyn_enc := d\<rparr>, map_option (\<lambda>b. upd @ m @ sch @ b) out))"

definition grpc_frame :: "bytes \<Rightarrow> bytes" where
  "grpc_frame m = 0 # be_bytes 4 (length m) @ m"

definition has_credit :: "strim_h2c \<Rightarrow> nat \<Rightarrow> nat \<Rightarrow> bool" where
  "has_credit c i chunk \<longleftrightarrow> \<not> (s_send_window (strm c i) < s32 (int chunk) \<or> c_send_window c < s32 (int chunk))"

text \<open>Wait until both send windows cover the chunk: \<open>Inr\<close> when they do, \<open>Inl\<close> the error to return.\<close>

fun wait_window ::
  "h2_env \<Rightarrow> int \<Rightarrow> nat \<Rightarrow> nat \<Rightarrow> strim_h2c \<Rightarrow> read_event list \<Rightarrow> wait_round list \<Rightarrow> (int option \<times> session) outcome" where
  "wait_window e deadline i chunk c sc [] =
     (if has_credit c i chunk then Ret (None, \<lparr>se_conn = c, se_socket = sc, se_rounds = []\<rparr>) else Blocked)"
| "wait_window e deadline i chunk c sc (r # rs) =
     (if has_credit c i chunk then Ret (None, \<lparr>se_conn = c, se_socket = sc, se_rounds = r # rs\<rparr>)
      else if time_left_ms deadline (wr_now r) \<le> 0
           then Ret (Some H2C_ERR_TIMEOUT, \<lparr>se_conn = c, se_socket = sc, se_rounds = r # rs\<rparr>)
      else case conn_poll_once e c (wr_poll r) (sc @ wr_events r) of
             (wr, c1, sc1) \<Rightarrow>
               if wr < 0 then
                 Ret (Some (if c_dead_code c1 = H2C_ERR_GOAWAY then H2C_ERR_GOAWAY else H2C_ERR_IO),
                      \<lparr>se_conn = c1, se_socket = sc1, se_rounds = rs\<rparr>)
               else if s_state (strm c1 i) = SS_DONE then
                 Ret (Some H2C_ERR_PROTO, \<lparr>se_conn = c1, se_socket = sc1, se_rounds = rs\<rparr>)
               else wait_window e deadline i chunk c1 sc1 rs)"

text \<open>One DATA frame: fill the buffer, wait for credit, take it from both windows, write.\<close>

definition send_chunk ::
  "h2_env \<Rightarrow> base_clock \<Rightarrow> nat \<Rightarrow> bytes \<Rightarrow> bool \<Rightarrow> session \<Rightarrow> (int \<times> session) outcome" where
  "send_chunk e clk i chunk fin s =
     (if length chunk > H2C_DATA_BUF then Overrun
      else case wait_window e (clk (length (c_out (se_conn s))) + H2C_DEFAULT_UNARY_TIMEOUT_MS) i (length chunk)
                  (se_conn s) (se_socket s) (se_rounds s) of
             Blocked \<Rightarrow> Blocked
           | Overrun \<Rightarrow> Overrun
           | Ret (Some err, s1) \<Rightarrow> Ret (err, s1)
           | Ret (None, s1) \<Rightarrow>
               let c = se_conn s1; st = strm c i; n = int (length chunk);
                   c1 = (put_strm c i (st\<lparr>s_send_window := s_send_window st - n\<rparr>))\<lparr>c_send_window := c_send_window c - n\<rparr>
               in case frame_write e c1 H2_DATA (if fin then H2_FLAG_END_STREAM else 0) (s_id st) chunk of
                    (rc, c2) \<Rightarrow> Ret (if rc < 0 then H2C_ERR_IO else 0, s1\<lparr>se_conn := c2\<rparr>))"

text \<open>
  The loop over the framed message. The fuel is its length: every frame takes a byte, since the
  peer's frame limit is at least 16384.
\<close>

fun send_loop ::
  "nat \<Rightarrow> h2_env \<Rightarrow> base_clock \<Rightarrow> nat \<Rightarrow> nat \<Rightarrow> bytes \<Rightarrow> session \<Rightarrow> (int \<times> session) outcome" where
  "send_loop 0 e clk frame_max i body s = (if body = [] then Ret (0, s) else Blocked)"
| "send_loop (Suc fuel) e clk frame_max i body s =
     (if body = [] then Ret (0, s)
      else let n = min (length body) frame_max
           in case send_chunk e clk i (take n body) (n \<ge> length body) s of
                Ret (rc, s1) \<Rightarrow> if rc < 0 then Ret (rc, s1) else send_loop fuel e clk frame_max i (drop n body) s1
              | Blocked \<Rightarrow> Blocked
              | Overrun \<Rightarrow> Overrun)"

definition send_request ::
  "h2_env \<Rightarrow> base_clock \<Rightarrow> nat \<Rightarrow> string \<Rightarrow> bytes \<Rightarrow> session \<Rightarrow> (int \<times> session) outcome" where
  "send_request e clk i path req s =
     (let c = se_conn s; frame_max = c_srv_max_frame c; body = grpc_frame req
      in case build_request_headers e c path H2C_REQ_HDR_BLOCK of
           (c1, None) \<Rightarrow> Ret (H2C_ERR_PROTO, s\<lparr>se_conn := c1\<rparr>)
         | (c1, Some block) \<Rightarrow>
             case frame_write e c1 H2_HEADERS H2_FLAG_END_HEADERS (s_id (strm c1 i)) block of
               (rc, c2) \<Rightarrow>
                 if rc < 0 then Ret (H2C_ERR_IO, s\<lparr>se_conn := c2\<rparr>)
                 else send_loop (length body) e clk frame_max i body (s\<lparr>se_conn := c2\<rparr>))"

section \<open>The handshake\<close>

definition our_settings :: bytes where
  "our_settings =
     [0x00, 2, 0, 0, 0, 0,
      0x00, 3, 0, 0, 0, 100,
      0x00, 4, 0, 0, 0xff, 0xff,
      0x00, 5, 0, 0, 0x40, 0x00,
      0x00, 1, 0, 0, 0x10, 0x00]"

fun await_ready :: "h2_env \<Rightarrow> int \<Rightarrow> strim_h2c \<Rightarrow> read_event list \<Rightarrow> wait_round list \<Rightarrow> (int \<times> session) outcome" where
  "await_ready e deadline c sc [] =
     (if c_ready c \<or> c_dead c then Ret (0, \<lparr>se_conn = c, se_socket = sc, se_rounds = []\<rparr>) else Blocked)"
| "await_ready e deadline c sc (r # rs) =
     (if c_ready c \<or> c_dead c then Ret (0, \<lparr>se_conn = c, se_socket = sc, se_rounds = r # rs\<rparr>)
      else if time_left_ms deadline (wr_now r) \<le> 0
           then Ret (H2C_ERR_TIMEOUT, \<lparr>se_conn = c, se_socket = sc, se_rounds = rs\<rparr>)
      else case conn_poll_once e c (wr_poll r) (sc @ wr_events r) of
             (rc, c1, sc1) \<Rightarrow>
               if rc < 0 then Ret (H2C_ERR_IO, \<lparr>se_conn = c1, se_socket = sc1, se_rounds = rs\<rparr>)
               else await_ready e deadline c1 sc1 rs)"

text \<open>
  \<open>h2c_connect\<close>: \<open>up\<close> says whether the connection object, the socket, \<open>connect\<close> and the
  non-blocking mode were obtained, \<open>preface_ok\<close> whether the preface could be written. A failure
  leaves the caller without a connection.
\<close>

definition H2C_MAX_SOCK_PATH :: nat where "H2C_MAX_SOCK_PATH = 108"
definition H2C_MAX_NAMESPACE :: nat where "H2C_MAX_NAMESPACE = 64"

definition h2c_connect ::
  "h2_env \<Rightarrow> base_clock \<Rightarrow> string \<Rightarrow> string \<Rightarrow> bool \<Rightarrow> bool \<Rightarrow> wait_round list \<Rightarrow> (int \<times> session option) outcome" where
  "h2c_connect e clk path ns up preface_ok rs =
     (let path' = (if path = '''' then ''/run/containerd/containerd.sock'' else path);
          ns' = (if ns = '''' then ''default'' else ns);
          c = fresh_conn ns'
      in if length path' \<ge> H2C_MAX_SOCK_PATH then Ret (H2C_ERR_BADARG, None)
         else if length ns' \<ge> H2C_MAX_NAMESPACE then Ret (H2C_ERR_BADARG, None)
         else if \<not> up then Ret (H2C_ERR_IO, None)
         else case frame_write_settings e c 0 our_settings of
                (rc, c1) \<Rightarrow>
                  if \<not> preface_ok \<or> rc < 0 then Ret (H2C_ERR_IO, None)
                  else case await_ready e (clk (length (c_out c1)) + H2C_HANDSHAKE_MS) c1 [] rs of
                         Blocked \<Rightarrow> Blocked
                       | Overrun \<Rightarrow> Overrun
                       | Ret (r, s) \<Rightarrow> Ret (r, if r < 0 then None else Some s))"

definition h2c_close :: "h2_env \<Rightarrow> strim_h2c \<Rightarrow> strim_h2c" where
  "h2c_close e c =
     (let c1 = fold (\<lambda>i c. let c1 = (if s_in_use (strm c i) \<and> s_state (strm c i) \<noteq> SS_DONE
                                       then snd (frame_write_rst e c (s_id (strm c i)) H2_ERR_CANCEL) else c)
                            in put_strm c1 i (stream_destroy (strm c1 i))) [0..<H2C_MAX_STREAMS] c
      in c1\<lparr>c_dyn_enc := dyn_reset, c_dyn_dec := dyn_reset\<rparr>)"

section \<open>Unary calls\<close>

definition destroy_strm :: "strim_h2c \<Rightarrow> nat \<Rightarrow> strim_h2c" where
  "destroy_strm c i = put_strm c i (stream_destroy (strm c i))"

definition death_code :: "strim_h2c \<Rightarrow> int" where
  "death_code c = (if c_dead_code c = H2C_ERR_GOAWAY then H2C_ERR_GOAWAY
                   else if c_dead_code c = H2C_ERR_PROTO then H2C_ERR_PROTO else H2C_ERR_IO)"

text \<open>
  The final lines: the result and, when the status is 0, what is stored through \<open>resp_len\<close> with the
  bytes the caller's buffer then holds (none without a buffer, whatever the length).
\<close>

definition unary_result :: "session \<Rightarrow> nat \<Rightarrow> (int \<times> (nat \<times> bytes) option) \<times> session" where
  "unary_result s i =
     (let st = strm (se_conn s) i; s' = s\<lparr>se_conn := destroy_strm (se_conn s) i\<rparr>
      in if s_err st \<noteq> 0 then ((s_err st, None), s')
         else if s_status st = 0 then
           ((0, Some (s_resp_len st, case s_resp st of None \<Rightarrow> [] | Some buf \<Rightarrow> take (s_resp_len st) buf)), s')
         else ((s_status st, None), s'))"

fun await_done ::
  "h2_env \<Rightarrow> int \<Rightarrow> nat \<Rightarrow> strim_h2c \<Rightarrow> read_event list \<Rightarrow> wait_round list \<Rightarrow>
   ((int \<times> (nat \<times> bytes) option) \<times> session) outcome" where
  "await_done e deadline i c sc [] =
     (if s_state (strm c i) = SS_DONE then Ret (unary_result \<lparr>se_conn = c, se_socket = sc, se_rounds = []\<rparr> i) else Blocked)"
| "await_done e deadline i c sc (r # rs) =
     (if s_state (strm c i) = SS_DONE then Ret (unary_result \<lparr>se_conn = c, se_socket = sc, se_rounds = r # rs\<rparr> i)
      else if time_left_ms deadline (wr_now r) \<le> 0 then
        let c1 = snd (frame_write_rst e c (s_id (strm c i)) H2_ERR_CANCEL)
        in Ret ((H2C_ERR_TIMEOUT, None), \<lparr>se_conn = destroy_strm c1 i, se_socket = sc, se_rounds = rs\<rparr>)
      else case conn_poll_once e c (wr_poll r) (sc @ wr_events r) of
             (rc, c1, sc1) \<Rightarrow>
               let s1 = \<lparr>se_conn = c1, se_socket = sc1, se_rounds = rs\<rparr>
               in if rc < 0 then
                    if s_state (strm c1 i) = SS_DONE then Ret (unary_result s1 i)
                    else Ret ((death_code c1, None), s1\<lparr>se_conn := destroy_strm c1 i\<rparr>)
                  else await_done e deadline i c1 sc1 rs)"

definition h2c_unary ::
  "h2_env \<Rightarrow> base_clock \<Rightarrow> string \<Rightarrow> bytes \<Rightarrow> bytes option \<Rightarrow> nat \<Rightarrow> int \<Rightarrow> session \<Rightarrow>
   ((int \<times> (nat \<times> bytes) option) \<times> session) outcome" where
  "h2c_unary e clk path req resp resp_cap timeout_ms s =
     (let c = se_conn s
      in if c_dead c then
           Ret ((if c_dead_code c = H2C_ERR_GOAWAY then H2C_ERR_GOAWAY else H2C_ERR_IO, None), s)
         else if resp = None \<and> resp_cap \<noteq> 0 then Ret ((H2C_ERR_BADARG, None), s)
         else if length req > H2C_MAX_MSG then Ret ((H2C_ERR_TOOBIG, None), s)
         else case stream_alloc c ST_UNARY of
                (c1, None) \<Rightarrow> Ret ((H2C_ERR_NOSTREAM, None), s)
              | (c1, Some i) \<Rightarrow>
                  let c2 = put_strm c1 i ((strm c1 i)\<lparr>s_resp := resp, s_resp_cap := resp_cap, s_resp_len := 0\<rparr>);
                      timeout = (if timeout_ms > 0 then timeout_ms mod 2 ^ 32 else H2C_DEFAULT_UNARY_TIMEOUT_MS)
                  in case send_request e clk i path req (s\<lparr>se_conn := c2\<rparr>) of
                       Blocked \<Rightarrow> Blocked
                     | Overrun \<Rightarrow> Overrun
                     | Ret (rc, s1) \<Rightarrow>
                         if rc < 0 then Ret ((rc, None), s1\<lparr>se_conn := destroy_strm (se_conn s1) i\<rparr>)
                         else await_done e (clk (length (c_out (se_conn s1))) + timeout) i
                                (se_conn s1) (se_socket s1) (se_rounds s1))"

section \<open>Server streams\<close>

text \<open>The grace window of \<open>h2c_stream_open\<close>: \<open>Some\<close> an error that ends the call.\<close>

fun stream_grace ::
  "h2_env \<Rightarrow> int \<Rightarrow> nat \<Rightarrow> strim_h2c \<Rightarrow> read_event list \<Rightarrow> wait_round list \<Rightarrow> (int option \<times> session) outcome" where
  "stream_grace e grace i c sc [] =
     (if s_state (strm c i) \<noteq> SS_SENT then Ret (None, \<lparr>se_conn = c, se_socket = sc, se_rounds = []\<rparr>) else Blocked)"
| "stream_grace e grace i c sc (r # rs) =
     (if s_state (strm c i) \<noteq> SS_SENT \<or> time_left_ms grace (wr_now r) \<le> 0
      then Ret (None, \<lparr>se_conn = c, se_socket = sc, se_rounds = r # rs\<rparr>)
      else if c_dead c then Ret (Some (death_code c), \<lparr>se_conn = destroy_strm c i, se_socket = sc, se_rounds = r # rs\<rparr>)
      else case conn_poll_once e c (wr_poll r) (sc @ wr_events r) of
             (rc, c1, sc1) \<Rightarrow>
               if rc < 0 \<and> s_state (strm c1 i) = SS_SENT
               then Ret (Some (death_code c1), \<lparr>se_conn = destroy_strm c1 i, se_socket = sc1, se_rounds = rs\<rparr>)
               else stream_grace e grace i c1 sc1 rs)"

definition open_result :: "session \<Rightarrow> nat \<Rightarrow> (int \<times> nat option) \<times> session" where
  "open_result s i =
     (let st = strm (se_conn s) i; s' = s\<lparr>se_conn := destroy_strm (se_conn s) i\<rparr>
      in if s_err st \<noteq> 0 then ((s_err st, None), s')
         else if s_state st = SS_DONE \<and> \<not> s_saw_headers st then
           ((if s_status st = 0 then H2C_ERR_STREAM_END else s_status st, None), s')
         else ((0, Some i), s))"

definition h2c_stream_open ::
  "h2_env \<Rightarrow> base_clock \<Rightarrow> string \<Rightarrow> bytes \<Rightarrow> session \<Rightarrow> ((int \<times> nat option) \<times> session) outcome" where
  "h2c_stream_open e clk path req s =
     (let c = se_conn s
      in if c_dead c then
           Ret ((if c_dead_code c = H2C_ERR_GOAWAY then H2C_ERR_GOAWAY else H2C_ERR_IO, None), s)
         else if length req > H2C_MAX_MSG then Ret ((H2C_ERR_TOOBIG, None), s)
         else case stream_alloc c ST_SUBSCRIBE of
                (c1, None) \<Rightarrow> Ret ((H2C_ERR_NOSTREAM, None), s)
              | (c1, Some i) \<Rightarrow>
                  case send_request e clk i path req (s\<lparr>se_conn := c1\<rparr>) of
                    Blocked \<Rightarrow> Blocked
                  | Overrun \<Rightarrow> Overrun
                  | Ret (rc, s1) \<Rightarrow>
                      if rc < 0 then Ret ((rc, None), s1\<lparr>se_conn := destroy_strm (se_conn s1) i\<rparr>)
                      else case stream_grace e (clk (length (c_out (se_conn s1))) + H2C_STREAM_OPEN_GRACE_MS) i
                                  (se_conn s1) (se_socket s1) (se_rounds s1) of
                             Blocked \<Rightarrow> Blocked
                           | Overrun \<Rightarrow> Overrun
                           | Ret (Some err, s2) \<Rightarrow> Ret ((err, None), s2)
                           | Ret (None, s2) \<Rightarrow> Ret (open_result s2 i))"

text \<open>
  A queued message is handed out and its bytes are credited. The source keeps the buffer alive
  until the next call (\<open>last_msg\<close>); the model hands out the bytes themselves.
\<close>

definition pop_message :: "h2_env \<Rightarrow> strim_h2c \<Rightarrow> nat \<Rightarrow> bytes \<times> strim_h2c" where
  "pop_message e c i =
     (let st = strm c i; m = hd (s_queue st);
          c1 = put_strm c i (st\<lparr>s_queue := tl (s_queue st), s_q_bytes := s_q_bytes st - length m\<rparr>)
      in (m, stream_credit_message e c1 i (length m + 5)))"

definition next_result :: "h2_env \<Rightarrow> session \<Rightarrow> nat \<Rightarrow> ((int \<times> bytes option) \<times> session) option" where
  "next_result e s i =
     (let st = strm (se_conn s) i
      in if s_queue st \<noteq> [] then
           case pop_message e (se_conn s) i of (m, c1) \<Rightarrow> Some ((0, Some m), s\<lparr>se_conn := c1\<rparr>)
         else if s_state st = SS_DONE then
           Some ((if s_err st \<noteq> 0 then s_err st else if s_status st = 0 then H2C_ERR_STREAM_END else s_status st, None), s)
         else None)"

fun next_loop ::
  "h2_env \<Rightarrow> int option \<Rightarrow> nat \<Rightarrow> strim_h2c \<Rightarrow> read_event list \<Rightarrow> wait_round list \<Rightarrow> ((int \<times> bytes option) \<times> session) outcome" where
  "next_loop e deadline i c sc [] =
     (case next_result e \<lparr>se_conn = c, se_socket = sc, se_rounds = []\<rparr> i of Some r \<Rightarrow> Ret r | None \<Rightarrow> Blocked)"
| "next_loop e deadline i c sc (r # rs) =
     (case next_result e \<lparr>se_conn = c, se_socket = sc, se_rounds = r # rs\<rparr> i of
        Some res \<Rightarrow> Ret res
      | None \<Rightarrow>
          if (case deadline of None \<Rightarrow> False | Some d \<Rightarrow> time_left_ms d (wr_now r) \<le> 0)
          then Ret ((H2C_ERR_TIMEOUT, None), \<lparr>se_conn = c, se_socket = sc, se_rounds = rs\<rparr>)
          else case conn_poll_once e c (wr_poll r) (sc @ wr_events r) of
                 (rc, c1, sc1) \<Rightarrow>
                   if rc < 0 \<and> \<not> (s_queue (strm c1 i) \<noteq> [] \<or> s_state (strm c1 i) = SS_DONE)
                   then Ret ((death_code c1, None), \<lparr>se_conn = c1, se_socket = sc1, se_rounds = rs\<rparr>)
                   else next_loop e deadline i c1 sc1 rs)"

definition h2c_stream_next ::
  "h2_env \<Rightarrow> base_clock \<Rightarrow> nat \<Rightarrow> int \<Rightarrow> session \<Rightarrow> ((int \<times> bytes option) \<times> session) outcome" where
  "h2c_stream_next e clk i timeout_ms s =
     (let c = se_conn s
      in if \<not> s_in_use (strm c i) then Ret ((H2C_ERR_CLOSED, None), s)
         else next_loop e (if timeout_ms < 0 then None else Some (clk (length (c_out c)) + timeout_ms)) i
                c (se_socket s) (se_rounds s))"

definition h2c_stream_close :: "h2_env \<Rightarrow> strim_h2c \<Rightarrow> nat \<Rightarrow> strim_h2c" where
  "h2c_stream_close e c i =
     (if s_in_use (strm c i) then
        let c1 = (if \<not> c_dead c \<and> s_state (strm c i) \<noteq> SS_DONE
                  then snd (frame_write_rst e c (s_id (strm c i)) H2_ERR_CANCEL) else c);
            st = (strm c1 i)\<lparr>s_q_closed := True, s_state := SS_DONE, s_err := H2C_ERR_CLOSED, s_status := 0\<rparr>
        in put_strm c1 i (stream_destroy st)
      else c)"

end
