(* ===== verification/H2c_Props.thy ===== *)
theory H2c_Props
  imports H2c_Calls
begin

text \<open>
  What the client connection of \<open>containerd/h2c.c\<close> does for its callers: messages arrive whole and
  in order however they are cut into DATA frames, requests go out complete and within flow
  control, a peer reads back the headers, and calls end by their deadline and give back
  their stream slot.
\<close>

section \<open>Reassembly\<close>

text \<open>The part of the current message that has arrived.\<close>

definition holds :: "strim_h2c_stream \<Rightarrow> bytes \<Rightarrow> bool" where
  "holds s pend \<longleftrightarrow>
     s_rasm_state s = 0 \<and> s_rasm_hdr s = pend \<and> length pend < 5 \<or>
     s_rasm_state s = 1 \<and> length (s_rasm_hdr s) = 5 \<and> s_rasm_msglen s = be_nat (tl (s_rasm_hdr s)) \<and>
       s_rasm_got s < s_rasm_msglen s \<and> s_rasm_got s \<le> length (s_rasm_buf s) \<and>
       pend = s_rasm_hdr s @ take (s_rasm_got s) (s_rasm_buf s)"

text \<open>The stream's identity is untouched, and \<open>c'\<close> differs from \<open>c\<close> in this stream only.\<close>

definition only_stream :: "strim_h2c \<Rightarrow> nat \<Rightarrow> strim_h2c \<Rightarrow> bool" where
  "only_stream c i c' \<longleftrightarrow> c' = put_strm c i (strm c' i) \<and> length (c_streams c') = length (c_streams c) \<and>
     s_type (strm c' i) = s_type (strm c i) \<and> s_state (strm c' i) = s_state (strm c i) \<and>
     s_in_use (strm c' i) = s_in_use (strm c i) \<and> s_err (strm c' i) = s_err (strm c i)"

lemma only_stream_put:
  "i < length (c_streams c) \<Longrightarrow> s_type s = s_type (strm c i) \<Longrightarrow> s_state s = s_state (strm c i) \<Longrightarrow>
   s_in_use s = s_in_use (strm c i) \<Longrightarrow> s_err s = s_err (strm c i) \<Longrightarrow> only_stream c i (put_strm c i s)"
  by (simp add: only_stream_def)

lemma only_stream_trans: "only_stream c i c1 \<Longrightarrow> only_stream c1 i c2 \<Longrightarrow> only_stream c i c2"
proof -
  assume a: "only_stream c i c1" and b: "only_stream c1 i c2"
  have "c2 = put_strm (put_strm c i (strm c1 i)) i (strm c2 i)"
    using a b unfolding only_stream_def by metis
  then have "c2 = put_strm c i (strm c2 i)" by simp
  then show ?thesis using a b by (simp add: only_stream_def)
qed

lemma grpc_frame_length [simp]: "length (grpc_frame m) = 5 + length m"
  by (simp add: grpc_frame_def)

lemma grpc_frame_parts: "take 5 (grpc_frame m) = 0 # be_bytes 4 (length m)" "drop 5 (grpc_frame m) = m"
  by (simp_all add: grpc_frame_def)

text \<open>The state when the first \<open>p\<close> bytes of the frame of \<open>m\<close> are in: at its end the message is queued.\<close>

definition arrived :: "strim_h2c \<Rightarrow> nat \<Rightarrow> bytes \<Rightarrow> nat \<Rightarrow> strim_h2c \<Rightarrow> bool" where
  "arrived c i m p c' \<longleftrightarrow> only_stream c i c' \<and>
     (if p = 5 + length m
      then holds (strm c' i) [] \<and> s_queue (strm c' i) = s_queue (strm c i) @ [m] \<and>
        s_q_bytes (strm c' i) = s_q_bytes (strm c i) + length m
      else holds (strm c' i) (take p (grpc_frame m)) \<and> s_queue (strm c' i) = s_queue (strm c i) \<and>
        s_q_bytes (strm c' i) = s_q_bytes (strm c i))"

lemma arrived_later:
  "only_stream c i c1 \<Longrightarrow> s_queue (strm c1 i) = s_queue (strm c i) \<Longrightarrow> s_q_bytes (strm c1 i) = s_q_bytes (strm c i) \<Longrightarrow>
   arrived c1 i m p c' \<Longrightarrow> arrived c i m p c'"
  by (auto simp: arrived_def intro: only_stream_trans)

text \<open>The body step on a subscribed stream: \<open>m\<close> is the message under way, \<open>g\<close> bytes of it are in.\<close>

lemma body_step:
  assumes c: "i < length (c_streams c)" "s_type (strm c i) = ST_SUBSCRIBE" "he_mem e = ample"
    and st: "s_rasm_state (strm c i) = 1" "s_rasm_hdr (strm c i) = take 5 (grpc_frame m)"
      "s_rasm_msglen (strm c i) = length m" "s_rasm_got (strm c i) = g" "g \<le> length m"
      "take g (s_rasm_buf (strm c i)) = take g m" "g \<le> length (s_rasm_buf (strm c i))"
    and q: "s_q_bytes (strm c i) + length m \<le> H2C_QUEUE_MAX_BYTES"
    and d: "data = take k (drop g m) @ rest" "k = length m - g \<or> rest = [] \<and> k < length m - g"
  shows "\<exists>c'. rasm_body e c i data = (True, c', k) \<and> arrived c i m (5 + g + k) c'"
proof -
  let ?s = "strm c i"
  have lk: "length (take k (drop g m)) = k" using d(2) by auto
  define n where "n = min (length data) (s_rasm_msglen ?s - s_rasm_got ?s)"
  have n: "n = k" "take n data = take k (drop g m)" using d st(3,4) lk by (auto simp: n_def)
  define s1 where "s1 = ?s\<lparr>s_rasm_buf := take (g + k) m, s_rasm_got := g + k\<rparr>"
  have "take g m @ take k (drop g m) = take (g + k) m" by (simp add: take_add)
  then have store: "rasm_store ?s (take k (drop g m)) = s1"
    using c(2) st(4,6) lk by (simp add: rasm_store_def Let_def s1_def)
  have body: "rasm_body e c i data =
      (if s_rasm_got s1 \<ge> s_rasm_msglen s1 then (case rasm_finish e (put_strm c i s1) i of (go, c2) \<Rightarrow> (go, c2, k))
       else (True, put_strm c i s1, k))"
    unfolding rasm_body_def Let_def n_def [symmetric] n(2) store by (simp add: n(1))
  show ?thesis
  proof (cases "k = length m - g")
    case True
    then have full: "take (g + k) m = m" "g + k = length m" using st(5) by auto
    define s2 where "s2 = ?s\<lparr>s_rasm_got := length m, s_queue := s_queue ?s @ [m],
        s_q_bytes := s_q_bytes ?s + length m, s_rasm_buf := [], s_rasm_state := 0, s_rasm_hdr := []\<rparr>"
    have "rasm_finish e (put_strm c i s1) i = (True, put_strm c i s2)"
      using c q st(3) full by (simp add: rasm_finish_def Let_def s1_def s2_def queue_push_def ample_def)
    then have "rasm_body e c i data = (True, put_strm c i s2, k)"
      using body st(3) full by (simp add: s1_def)
    moreover have "only_stream c i (put_strm c i s2)" using c(1) by (intro only_stream_put) (simp_all add: s2_def)
    ultimately show ?thesis using True st(5) c(1) by (simp add: arrived_def s2_def holds_def)
  next
    case False
    then have less: "g + k < length m" using d(2) by auto
    then have "rasm_body e c i data = (True, put_strm c i s1, k)"
      using body st(3) by (simp add: s1_def)
    moreover have "only_stream c i (put_strm c i s1)" using c(1) by (intro only_stream_put) (simp_all add: s1_def)
    moreover have "holds s1 (take (5 + g + k) (grpc_frame m))"
    proof -
      have "take (5 + g + k) (grpc_frame m) = take 5 (grpc_frame m) @ take (g + k) m"
        using grpc_frame_parts(2) [of m] by (metis add.assoc take_add)
      moreover have "be_nat (be_bytes 4 (length m)) = length m"
        using q by (simp add: be_nat_bytes H2C_QUEUE_MAX_BYTES_def)
      ultimately show ?thesis using st less
        by (simp add: holds_def s1_def grpc_frame_parts)
    qed
    ultimately show ?thesis using less c(1) by (simp add: arrived_def s1_def)
  qed
qed


lemma grpc_header_nat: "length m \<le> H2C_QUEUE_MAX_BYTES \<Longrightarrow> be_nat (be_bytes 4 (length m)) = length m"
  by (simp add: be_nat_bytes H2C_QUEUE_MAX_BYTES_def)

lemma begin_step:
  assumes c: "i < length (c_streams c)" "s_type (strm c i) = ST_SUBSCRIBE" "he_mem e = ample"
    and m: "length m \<le> H2C_QUEUE_MAX_BYTES" "s_rasm_hdr (strm c i) = take 5 (grpc_frame m)"
  shows "rasm_begin e c i = (True, put_strm c i ((strm c i)\<lparr>s_rasm_msglen := length m, s_rasm_got := 0, s_rasm_state := 1\<rparr>))"
proof -
  have "\<not> length m > H2C_MAX_MSG" using m(1) by (simp add: H2C_QUEUE_MAX_BYTES_def H2C_MAX_MSG_def)
  then show ?thesis using c m grpc_header_nat [OF m(1)]
    by (simp add: rasm_begin_def Let_def grpc_frame_parts ample_def)
qed

lemma feed_step_msg:
  assumes c: "i < length (c_streams c)" "s_type (strm c i) = ST_SUBSCRIBE" "he_mem e = ample"
    and st: "holds (strm c i) (take p (grpc_frame m))" "p < 5 + length m"
    and q: "s_q_bytes (strm c i) + length m \<le> H2C_QUEUE_MAX_BYTES"
    and d: "data = take k (drop p (grpc_frame m)) @ rest"
      "k = 5 + length m - p \<or> rest = [] \<and> k < 5 + length m - p"
  shows "\<exists>c' go. feed_step e c i data = (go, c', k) \<and> arrived c i m (p + k) c' \<and> (p + k = 5 + length m \<longrightarrow> go)"
proof (cases "s_rasm_state (strm c i) = 0")
  case False
  let ?g = "s_rasm_got (strm c i)"
  have h: "s_rasm_state (strm c i) = 1" "length (s_rasm_hdr (strm c i)) = 5"
      "s_rasm_msglen (strm c i) = be_nat (tl (s_rasm_hdr (strm c i)))" "?g \<le> length (s_rasm_buf (strm c i))"
      "take p (grpc_frame m) = s_rasm_hdr (strm c i) @ take ?g (s_rasm_buf (strm c i))"
    using st(1) False by (auto simp: holds_def)
  have p: "p = 5 + ?g" using arg_cong [OF h(5), of length] h(2,4) st(2) by simp
  have hdr: "s_rasm_hdr (strm c i) = take 5 (grpc_frame m)"
    using arg_cong [OF h(5), of "take 5"] h(2) p by simp
  have buf: "take ?g (s_rasm_buf (strm c i)) = take ?g m"
    using arg_cong [OF h(5), of "drop 5"] h(2) p grpc_frame_parts(2) [of m] by (simp add: drop_take)
  have len: "s_rasm_msglen (strm c i) = length m"
    using h(3) hdr q grpc_header_nat [of m] by (simp add: grpc_frame_parts)
  have dr: "drop p (grpc_frame m) = drop ?g m" using p grpc_frame_parts(2) [of m] by (metis add.commute drop_drop)
  have k: "k = length m - ?g \<or> rest = [] \<and> k < length m - ?g" using d(2) p by auto
  have "data = take k (drop ?g m) @ rest" using d(1) dr by simp
  from body_step [OF c h(1) hdr len refl _ buf h(4) q this k]
  show ?thesis using st(2) p False by (auto simp: feed_step_def)
next
  case True
  then have hdr: "s_rasm_hdr (strm c i) = take p (grpc_frame m)" "p < 5"
    using st by (auto simp: holds_def)
  let ?s = "strm c i"
  have dl: "length data = length (take k (drop p (grpc_frame m))) + length rest" using d(1) by simp
  have lk: "length (take k (drop p (grpc_frame m))) = k" using d(2) by auto
  define n where "n = min (length data) (5 - length (s_rasm_hdr ?s))"
  define s1 where "s1 = ?s\<lparr>s_rasm_hdr := s_rasm_hdr ?s @ take n data\<rparr>"
  have len1: "length (s_rasm_hdr ?s) = p" using hdr st(2) by simp
  have n: "n = min (k + length rest) (5 - p)" using dl lk len1 by (simp add: n_def)
  have head: "rasm_header e c i data =
      (if length (s_rasm_hdr s1) < 5 then (False, put_strm c i s1, n)
       else case rasm_begin e (put_strm c i s1) i of (go, c2) \<Rightarrow> (go, c2, n))"
    by (simp only: rasm_header_def Let_def n_def [symmetric] s1_def [symmetric])
  show ?thesis
  proof (cases "p + k < 5")
    case True
    then have r: "rest = []" "n = k" using d(2) n by auto
    have h1: "s_rasm_hdr s1 = take (p + k) (grpc_frame m)"
      using hdr(1) d(1) r by (simp add: s1_def take_add)
    have sel: "s_rasm_state s1 = 0" "s_queue s1 = s_queue ?s" "s_q_bytes s1 = s_q_bytes ?s"
      using \<open>s_rasm_state ?s = 0\<close> by (simp_all add: s1_def)
    have "rasm_header e c i data = (False, put_strm c i s1, k)" using head h1 True r(2) by simp
    then have step: "feed_step e c i data = (False, put_strm c i s1, k)"
      using \<open>s_rasm_state ?s = 0\<close> by (simp add: feed_step_def)
    have "only_stream c i (put_strm c i s1)" using c(1) by (intro only_stream_put) (simp_all add: s1_def)
    then have "arrived c i m (p + k) (put_strm c i s1)"
      using sel h1 True c(1) by (simp add: arrived_def holds_def)
    then show ?thesis using step True by auto
  next
    case False
    then have n5: "n = 5 - p" using n hdr(2) by auto
    have tk: "take n data = take (5 - p) (drop p (grpc_frame m))" using d(1) n5 lk False by simp
    have "take p (grpc_frame m) @ take (5 - p) (drop p (grpc_frame m)) = take 5 (grpc_frame m)"
      using hdr(2) take_add [of p "5 - p" "grpc_frame m"] by simp
    then have h1: "s_rasm_hdr s1 = take 5 (grpc_frame m)" using hdr(1) tk by (simp add: s1_def)
    define c2 where "c2 = put_strm c i (s1\<lparr>s_rasm_msglen := length m, s_rasm_got := 0, s_rasm_state := 1\<rparr>)"
    have "rasm_begin e (put_strm c i s1) i = (True, c2)"
      using begin_step [of i "put_strm c i s1" e m] c q h1 by (simp add: c2_def s1_def)
    then have hd: "rasm_header e c i data = (True, c2, 5 - p)" using head h1 n5 by simp
    have dr: "drop (5 - p) data = take (k - (5 - p)) m @ rest"
    proof -
      have "drop (5 - p) (take k (drop p (grpc_frame m))) = take (k - (5 - p)) (drop 5 (grpc_frame m))"
        using hdr(2) by (simp add: drop_take)
      then show ?thesis using d(1) lk False by (simp add: grpc_frame_parts)
    qed
    have k2: "k - (5 - p) = length m - 0 \<or> rest = [] \<and> k - (5 - p) < length m - 0" using d(2) hdr(2) False by auto
    have "\<exists>c'. rasm_body e c2 i (drop (5 - p) data) = (True, c', k - (5 - p)) \<and> arrived c2 i m (5 + 0 + (k - (5 - p))) c'"
      by (rule body_step [of i c2 e m 0 _ "k - (5 - p)" rest])
        (use c q h1 dr k2 in \<open>simp_all add: c2_def s1_def\<close>)
    then obtain c' where b: "rasm_body e c2 i (drop (5 - p) data) = (True, c', k - (5 - p))"
        "arrived c2 i m (p + k) c'" using False hdr(2) by (auto simp: algebra_simps)
    have "only_stream c i c2" using c(1) unfolding c2_def by (intro only_stream_put) (simp_all add: s1_def)
    moreover have "s_queue (strm c2 i) = s_queue ?s" "s_q_bytes (strm c2 i) = s_q_bytes ?s"
      using c(1) by (simp_all add: c2_def s1_def)
    ultimately have "arrived c i m (p + k) c'" using b(2) arrived_later by blast
    moreover have "feed_step e c i data = (True, c', 5 - p + (k - (5 - p)))"
      using hd b(1) \<open>s_rasm_state (strm c i) = 0\<close> by (simp add: feed_step_def)
    ultimately show ?thesis using False hdr(2) by auto
  qed
qed


lemma feed_loop_Nil [simp]: "feed_loop fuel e c i [] = c"
  by (cases fuel) auto

text \<open>Where a stream stands in a sequence of framed messages: inside the first of them.\<close>

definition in_front :: "bytes \<Rightarrow> bytes list \<Rightarrow> bool" where
  "in_front pend ms \<longleftrightarrow> (case ms of [] \<Rightarrow> pend = [] | m # _ \<Rightarrow> length pend < length (grpc_frame m))"

text \<open>The messages \<open>ms\<close> have been queued, and \<open>pend\<close> is there of the next.\<close>

definition fed :: "strim_h2c \<Rightarrow> nat \<Rightarrow> bytes list \<Rightarrow> bytes \<Rightarrow> strim_h2c \<Rightarrow> bool" where
  "fed c i ms pend c' \<longleftrightarrow> only_stream c i c' \<and> s_queue (strm c' i) = s_queue (strm c i) @ ms \<and>
     s_q_bytes (strm c' i) = s_q_bytes (strm c i) + sum_list (map length ms) \<and> holds (strm c' i) pend"

lemma fed_refl: "i < length (c_streams c) \<Longrightarrow> holds (strm c i) pend \<Longrightarrow> fed c i [] pend c"
  by (simp add: fed_def only_stream_def)

lemma fed_trans: "fed c i ms1 pend1 c1 \<Longrightarrow> fed c1 i ms2 pend2 c2 \<Longrightarrow> fed c i (ms1 @ ms2) pend2 c2"
  by (auto simp: fed_def intro: only_stream_trans)

lemma fed_arrived:
  "arrived c i m p c' \<Longrightarrow> if p = 5 + length m then fed c i [m] [] c' else fed c i [] (take p (grpc_frame m)) c'"
  by (auto simp: arrived_def fed_def)

lemma feed_msgs:
  assumes "he_mem e = ample"
  shows "i < length (c_streams c) \<Longrightarrow> s_type (strm c i) = ST_SUBSCRIBE \<Longrightarrow> holds (strm c i) pend \<Longrightarrow> in_front pend ms \<Longrightarrow>
    pend @ data @ rest = concat (map grpc_frame ms) \<Longrightarrow>
    s_q_bytes (strm c i) + sum_list (map length ms) \<le> H2C_QUEUE_MAX_BYTES \<Longrightarrow> length data \<le> fuel \<Longrightarrow>
    \<exists>ms1 ms2 pend'. ms = ms1 @ ms2 \<and> fed c i ms1 pend' (feed_loop fuel e c i data) \<and> in_front pend' ms2 \<and>
      pend' @ rest = concat (map grpc_frame ms2)"
proof (induction fuel arbitrary: c data ms pend)
  case 0
  then show ?case by (intro exI [of _ "[]"] exI [of _ ms] exI [of _ pend]) (simp add: fed_refl)
next
  case (Suc fuel)
  show ?case
  proof (cases "data = []")
    case True
    then show ?thesis using Suc.prems
      by (intro exI [of _ "[]"] exI [of _ ms] exI [of _ pend]) (simp add: fed_refl)
  next
    case False
    then obtain m ms' where ms: "ms = m # ms'" using Suc.prems(5) by (cases ms) auto
    let ?G = "grpc_frame m" and ?p = "length pend"
    have p: "?p < 5 + length m" using Suc.prems(4) ms by (simp add: in_front_def)
    have pend: "pend = take ?p ?G" and tail: "data @ rest = drop ?p ?G @ concat (map grpc_frame ms')"
      using Suc.prems(5) p ms by (auto simp: append_eq_append_conv_if)
    have q: "s_q_bytes (strm c i) + length m \<le> H2C_QUEUE_MAX_BYTES" using Suc.prems(6) ms by simp
    define k where "k = min (length data) (5 + length m - ?p)"
    define d2 where "d2 = drop k data"
    have tk: "take k data = take k (drop ?p ?G)"
      using arg_cong [OF tail, of "take k"] by (simp add: k_def)
    have d: "data = take k (drop ?p ?G) @ d2" using tk append_take_drop_id [of k data] by (simp add: d2_def)
    have kc: "k = 5 + length m - ?p \<or> d2 = [] \<and> k < 5 + length m - ?p" by (auto simp: k_def d2_def)
    have k0: "0 < k" using False p by (simp add: k_def)
    from feed_step_msg [OF Suc.prems(1,2) assms _ p q d kc] pend Suc.prems(3)
    obtain c' go where st: "feed_step e c i data = (go, c', k)" "arrived c i m (?p + k) c'"
        "?p + k = 5 + length m \<longrightarrow> go" by auto
    show ?thesis
    proof (cases "?p + k = 5 + length m")
      case True
      have c': "fed c i [m] [] c'" using fed_arrived [OF st(2)] True by simp
      have rest2: "d2 @ rest = concat (map grpc_frame ms')"
        using arg_cong [OF tail, of "drop k"] True p by (simp add: d2_def k_def)
      have "\<exists>ms1 ms2 pend'. ms' = ms1 @ ms2 \<and> fed c' i ms1 pend' (feed_loop fuel e c' i d2) \<and> in_front pend' ms2 \<and>
          pend' @ rest = concat (map grpc_frame ms2)"
        using c' rest2 Suc.prems(1,2,6,7) ms k0
        by (intro Suc.IH [of c' "[]"]) (auto simp: fed_def only_stream_def in_front_def d2_def split: list.splits)
      then obtain ms1 ms2 pend' where "ms' = ms1 @ ms2" "fed c' i ms1 pend' (feed_loop fuel e c' i d2)"
          "in_front pend' ms2" "pend' @ rest = concat (map grpc_frame ms2)" by blast
      moreover have "feed_loop (Suc fuel) e c i data = feed_loop fuel e c' i d2"
        using st True False by (simp add: d2_def)
      ultimately show ?thesis using ms fed_trans [OF c']
        by (intro exI [of _ "m # ms1"] exI [of _ ms2] exI [of _ pend']) (simp del: feed_loop.simps)
    next
      case part: False
      then have e: "d2 = []" "k = length data" "?p + k < 5 + length m" using kc p by (auto simp: d2_def k_def)
      have r: "feed_loop (Suc fuel) e c i data = c'" using st False e by simp
      have "pend @ data = take (?p + k) ?G" using pend tk e by (simp add: take_add)
      then have "fed c i [] (pend @ data) c'" using fed_arrived [OF st(2)] part by simp
      then show ?thesis unfolding r using ms Suc.prems(5) e
        by (intro exI [of _ "[]"] exI [of _ ms] exI [of _ "pend @ data"]) (simp add: in_front_def)
    qed
  qed
qed


lemma feed_chunks:
  assumes "he_mem e = ample"
  shows "i < length (c_streams c) \<Longrightarrow> s_type (strm c i) = ST_SUBSCRIBE \<Longrightarrow> holds (strm c i) pend \<Longrightarrow> in_front pend ms \<Longrightarrow>
    pend @ concat ds = concat (map grpc_frame ms) \<Longrightarrow>
    s_q_bytes (strm c i) + sum_list (map length ms) \<le> H2C_QUEUE_MAX_BYTES \<Longrightarrow>
    fed c i ms [] (fold (\<lambda>d c. stream_feed_data e c i d) ds c)"
proof (induction ds arbitrary: c pend ms)
  case Nil
  then have "ms = []" by (cases ms) (auto simp: in_front_def)
  then show ?case using Nil by (simp add: fed_refl in_front_def)
next
  case (Cons d ds)
  let ?c = "stream_feed_data e c i d"
  obtain ms1 ms2 pend' where f: "ms = ms1 @ ms2" "fed c i ms1 pend' ?c" "in_front pend' ms2"
      "pend' @ concat ds = concat (map grpc_frame ms2)"
    using feed_msgs [OF assms Cons.prems(1-4), of d "concat ds" "2 * length d"] Cons.prems(5,6)
    by (auto simp: stream_feed_data_def)
  have "fed ?c i ms2 [] (fold (\<lambda>d c. stream_feed_data e c i d) ds ?c)"
    using f Cons.prems(1,2,6) by (intro Cons.IH [of _ pend']) (auto simp: fed_def only_stream_def)
  then show ?case using fed_trans [OF f(2)] f(1) by simp
qed

text \<open>
  C37: Messages survive any division into DATA frames: when the payloads fed to an idle
  subscribed stream are together the gRPC framing of a list of messages that fits the queue, cut
  anywhere, even inside a header, the stream's queue grows by exactly these messages in order, the
  reassembler is idle again, and nothing else of the connection changes: no reset is sent and the
  stream stays as it was.
\<close>

theorem messages_survive_chunking:
  assumes "he_mem e = ample" and "i < length (c_streams c)" and "s_type (strm c i) = ST_SUBSCRIBE"
    and "s_rasm_state (strm c i) = 0" and "s_rasm_hdr (strm c i) = []"
    and "s_q_bytes (strm c i) + sum_list (map length ms) \<le> H2C_QUEUE_MAX_BYTES"
    and "concat ds = concat (map grpc_frame ms)"
    and "c' = fold (\<lambda>d c. stream_feed_data e c i d) ds c"
  shows "s_queue (strm c' i) = s_queue (strm c i) @ ms \<and> s_rasm_state (strm c' i) = 0 \<and>
    s_rasm_hdr (strm c' i) = [] \<and> s_state (strm c' i) = s_state (strm c i) \<and> c' = put_strm c i (strm c' i)"
proof -
  have "holds (strm c i) []" "in_front [] ms" using assms(4,5) by (auto simp: holds_def in_front_def split: list.splits)
  then have "fed c i ms [] c'"
    unfolding assms(8) using assms(2,3,6,7) by (intro feed_chunks [OF assms(1)]) auto
  then show ?thesis by (auto simp: fed_def holds_def only_stream_def)
qed

definition demo_stream :: strim_h2c where
  "demo_stream = put_strm (fresh_conn ''default'') 0 (stream_init (fresh_conn ''default'') ST_SUBSCRIBE)"

definition demo_h2_env :: h2_env where
  "demo_h2_env = \<lparr>he_mem = ample, he_send = (\<lambda>_. True)\<rparr>"

lemma demo_stream_sel:
  "length (c_streams demo_stream) = 8" "strm demo_stream 0 = stream_init (fresh_conn ''default'') ST_SUBSCRIBE"
  by (simp_all add: demo_stream_def fresh_conn_def H2C_MAX_STREAMS_def)

theorem messages_survive_chunking_witness:
  "s_queue (strm (fold (\<lambda>d c. stream_feed_data demo_h2_env c 0 d) [[0, 0, 0], [0, 2, 7, 8, 0], [0, 0, 0, 0]] demo_stream) 0) =
     [[7, 8], []]"
  using messages_survive_chunking [of demo_h2_env 0 demo_stream "[[7, 8], []]" "[[0, 0, 0], [0, 2, 7, 8, 0], [0, 0, 0, 0]]"]
  by (simp add: demo_h2_env_def demo_stream_sel stream_init_def zero_stream_def grpc_frame_def be_bytes_4 be_bytes_3
      H2C_QUEUE_MAX_BYTES_def)


section \<open>Request headers\<close>

definition all_request_fields :: "string \<Rightarrow> string \<Rightarrow> hpack_field list" where
  "all_request_fields path ns =
     [\<lparr>hf_name = c_bytes '':method'', hf_value = c_bytes ''POST''\<rparr>,
      \<lparr>hf_name = c_bytes '':scheme'', hf_value = c_bytes ''http''\<rparr>] @ request_fields path ns"

text \<open>
  The peer's table is in step with the encoder's: equal, or about to become equal by the
  table-size update that is due.
\<close>

definition peer_in_step :: "strim_h2c \<Rightarrow> hpack_dyn \<Rightarrow> bool" where
  "peer_in_step c d \<longleftrightarrow>
     (if c_enc_size_update c
      then dt_max_size (c_dyn_enc c) \<le> dt_max_size d \<and> dt_max_size (c_dyn_enc c) \<le> 0x7fffffff \<and>
        dyn_set_max d (dt_max_size (c_dyn_enc c)) = c_dyn_enc c
      else d = c_dyn_enc c)"

lemma decode_loop_step:
  assumes "decode_step mem d (w @ rest) = Some (d', fs', length w)" "w \<noteq> []" "length fs < m"
  shows "decode_loop mem m d (w @ rest) fs = decode_loop mem m d' rest (fs @ fs')"
  using assms by (subst decode_loop.simps) simp

lemma size_update_step:
  assumes "n \<le> 0x7fffffff" "n \<le> dt_max_size d" "w = hpack_write_int_ex cap n 5 0x20" "w \<noteq> []"
  shows "decode_step ample d (w @ rest) = Some (dyn_set_max d n, [], length w)"
proof -
  have "0x20 AND mask 5 = (0 :: byte)" "NOT (mask 5) = (0xe0 :: byte)" by (simp_all add: mask_eq_exp_minus_1)
  then have r: "hpack_read_int (w @ rest) 5 = Some (n, length w)" and h: "hd w AND 0xe0 = 0x20"
    using read_write_int [of n 5 "0x20" cap rest] write_int_hd [of 5 cap n "0x20"] assms by auto
  have "hd w AND 0x80 = (hd w AND 0xe0) AND 0x80" "hd w AND 0xc0 = (hd w AND 0xe0) AND 0xc0" by (simp_all add: and.assoc)
  then have "hd w AND 0x80 = 0" "hd w AND 0xc0 \<noteq> 0x40" unfolding h by simp_all
  then show ?thesis using r h assms(2,4) by (simp add: decode_step_def Let_def)
qed

lemma static_step:
  assumes "w = hpack_write_int_ex cap (Suc i) 7 0x80" "w \<noteq> []" "i < 61"
  shows "decode_step ample d (w @ rest) = Some (d, [static_field i], length w)"
  by (rule indexed_in_step [OF _ assms(1,2)]) (use assms(3) in \<open>simp add: decode_indexed_def\<close>)

lemma request_fields_fit:
  assumes "length path + length ns \<le> 800"
  shows "list_all field_sane (request_fields path ns)" "sum_list (map field_need (request_fields path ns)) \<le> 1010"
  using assms by (simp_all add: request_fields_def field_sane_def field_need_def c_bytes_def)

lemma static_method_scheme:
  "static_field 2 = \<lparr>hf_name = c_bytes '':method'', hf_value = c_bytes ''POST''\<rparr>"
  "static_field 5 = \<lparr>hf_name = c_bytes '':scheme'', hf_value = c_bytes ''http''\<rparr>"
  by (simp_all add: static_field_def HPACK_STATIC_def)

text \<open>
  The request headers reach the peer: for every method path and namespace that fit, building
  the header block succeeds within its buffer, and a peer whose table is in step with the encoder's
  decodes it to exactly the eight gRPC request fields and is in step again afterwards, also when
  the block starts with a table-size update.
\<close>

lemma request_headers_decoded:
  assumes "dyn_ok (c_dyn_enc c)" and "he_mem e = ample" and "length path + length (c_namespace c) \<le> 800"
    and "peer_in_step c d"
  shows "\<exists>c' block. build_request_headers e c path H2C_REQ_HDR_BLOCK = (c', Some block) \<and>
    length block \<le> H2C_REQ_HDR_BLOCK \<and>
    hpack_decode_block ample d block H2C_MAX_FIELDS =
      (c_dyn_enc c', Some (all_request_fields path (c_namespace c))) \<and>
    dyn_ok (c_dyn_enc c') \<and> peer_in_step c' (c_dyn_enc c')"
proof -
  let ?enc = "c_dyn_enc c" and ?fs = "request_fields path (c_namespace c)"
  define u where "u = (if c_enc_size_update c then hpack_write_int_ex 1024 (dt_max_size ?enc mod 2 ^ 32) 5 0x20 else [])"
  define m where "m = hpack_write_int_ex (1024 - length u) 3 7 0x80"
  define sch where "sch = hpack_write_int_ex (1024 - length u - length m) 6 7 0x80"
  have u: "length u \<le> 6" "c_enc_size_update c \<longrightarrow> u \<noteq> []"
    using write_int_fits [of "dt_max_size ?enc mod 2 ^ 32" 1024] by (auto simp: u_def)
  have ms: "length m = 1" "length sch = 1"
    using u(1) by (auto simp: m_def sch_def hpack_write_int_ex_def mask_eq_exp_minus_1)
  let ?cap = "1024 - length u - length m - length sch"
  have "sum_list (map field_need ?fs) \<le> ?cap" using request_fields_fit(2) [OF assms(3)] u ms by simp
  from hpack.run_in_step [OF assms(1) request_fields_fit(1) [OF assms(3)] this, of "[static_field 2, static_field 5]" 32]
  obtain d' out where enc: "encode_fields ample ?cap ?enc ?fs = (d', Some out)" "length out \<le> sum_list (map field_need ?fs)"
      "decode_loop ample 32 ?enc out [static_field 2, static_field 5] = (d', Some ([static_field 2, static_field 5] @ ?fs))"
      "dyn_ok d'" by (auto simp: request_fields_def)
  have upd: "decode_loop ample 32 d (u @ m @ sch @ out) [] = decode_loop ample 32 ?enc (m @ sch @ out) []"
  proof (cases "c_enc_size_update c")
    case True
    then have dd: "dt_max_size ?enc \<le> dt_max_size d" "dt_max_size ?enc \<le> 0x7fffffff" "dyn_set_max d (dt_max_size ?enc) = ?enc"
      using assms(4) by (auto simp: peer_in_step_def)
    then have "u = hpack_write_int_ex 1024 (dt_max_size ?enc) 5 0x20" using True by (simp add: u_def)
    from size_update_step [OF dd(2,1) this] u True dd(3) show ?thesis by (simp add: decode_loop_step)
  next
    case False
    then show ?thesis using assms(4) by (simp add: peer_in_step_def u_def)
  qed
  have nm: "m \<noteq> []" "sch \<noteq> []" using ms by auto
  have built: "build_request_headers e c path H2C_REQ_HDR_BLOCK =
      (if c_enc_size_update c \<and> u = [] then (c, None)
       else if m = [] then (c\<lparr>c_enc_size_update := False\<rparr>, None)
       else if sch = [] then (c\<lparr>c_enc_size_update := False\<rparr>, None)
       else case encode_fields (he_mem e) ?cap (c_dyn_enc (c\<lparr>c_enc_size_update := False\<rparr>)) ?fs of
         (d, out) \<Rightarrow> (c\<lparr>c_enc_size_update := False, c_dyn_enc := d\<rparr>, map_option (\<lambda>b. u @ m @ sch @ b) out))"
    by (simp only: build_request_headers_def H2C_REQ_HDR_BLOCK_def Let_def
        u_def [symmetric] m_def [symmetric] sch_def [symmetric])
  have s1: "decode_step ample ?enc (m @ rest) = Some (?enc, [static_field 2], length m)" for rest
    by (rule static_step [of _ "1024 - length u"]) (use nm in \<open>simp_all add: m_def\<close>)
  have s2: "decode_step ample ?enc (sch @ rest) = Some (?enc, [static_field 5], length sch)" for rest
    by (rule static_step [of _ "1024 - length u - length m"]) (use nm in \<open>simp_all add: sch_def\<close>)
  have "decode_loop ample 32 ?enc (m @ sch @ out) [] = decode_loop ample 32 ?enc out [static_field 2, static_field 5]"
    using decode_loop_step [OF s1 nm(1), of "[]" 32] decode_loop_step [OF s2 nm(2), of "[static_field 2]" 32] by simp
  moreover have "build_request_headers e c path H2C_REQ_HDR_BLOCK =
      (c\<lparr>c_enc_size_update := False, c_dyn_enc := d'\<rparr>, Some (u @ m @ sch @ out))"
    using built u(2) nm enc(1) by (simp add: assms(2))
  moreover have "length (u @ m @ sch @ out) \<le> H2C_REQ_HDR_BLOCK"
    using u ms enc(2) request_fields_fit(2) [OF assms(3)] by (simp add: H2C_REQ_HDR_BLOCK_def)
  ultimately show ?thesis using upd enc(3,4)
    by (simp add: hpack_decode_block_def H2C_MAX_FIELDS_def all_request_fields_def static_method_scheme peer_in_step_def)
qed


lemma request_headers_decoded_witness:
  "\<exists>c' block. build_request_headers demo_h2_env (fresh_conn ''default'') ''/a.B/C'' H2C_REQ_HDR_BLOCK = (c', Some block) \<and>
    hpack_decode_block ample dyn_reset block H2C_MAX_FIELDS =
      (c_dyn_enc c', Some (all_request_fields ''/a.B/C'' ''default''))"
proof -
  have "peer_in_step (fresh_conn ''default'') dyn_reset" "dyn_ok (c_dyn_enc (fresh_conn ''default''))"
      "c_namespace (fresh_conn ''default'') = ''default''"
    using dyn_reset_ok by (simp_all add: peer_in_step_def fresh_conn_def)
  then show ?thesis
    using request_headers_decoded [of "fresh_conn ''default''" demo_h2_env "''/a.B/C''" dyn_reset]
    by (auto simp: demo_h2_env_def)
qed

end
