(* ===== verification/H2c_Served.thy ===== *)
theory H2c_Served
  imports H2c_Props
begin

text \<open>
  Polling only serves the streams there are: whatever the server sends, the handlers of
  \<open>containerd/h2c.c\<close> open no stream, rename none, and write neither HEADERS nor DATA frames. The
  relation \<open>served\<close> says so of two states of a connection.
\<close>

section \<open>Polling only serves\<close>

definition own_frame :: "h2_frame \<Rightarrow> bool" where
  "own_frame f \<longleftrightarrow> fr_type f = H2_DATA \<or> fr_type f = H2_HEADERS"

definition served :: "strim_h2c \<Rightarrow> strim_h2c \<Rightarrow> bool" where
  "served c c' \<longleftrightarrow> length (c_streams c') = length (c_streams c) \<and>
     (\<forall>j < length (c_streams c). s_id (strm c' j) = s_id (strm c j) \<and> (s_in_use (strm c' j) \<longrightarrow> s_in_use (strm c j))) \<and>
     (\<exists>fs. c_out c' = c_out c @ fs \<and> filter own_frame fs = [])"

lemma served_refl: "served c c"
  by (simp add: served_def)

lemma served_trans: "served c c1 \<Longrightarrow> served c1 c2 \<Longrightarrow> served c c2"
  unfolding served_def by (elim conjE exE) (intro conjI, simp, force, force)

lemma served_same: "c_streams c' = c_streams c \<Longrightarrow> c_out c' = c_out c \<Longrightarrow> served c c'"
  by (simp add: served_def)

lemma served_upd:
  "c_streams c2 = c_streams c1 \<Longrightarrow> c_out c2 = c_out c1 \<Longrightarrow> served c c1 \<Longrightarrow> served c c2"
  using served_same served_trans by blast

lemma served_write:
  "t \<noteq> H2_DATA \<Longrightarrow> t \<noteq> H2_HEADERS \<Longrightarrow> served c (snd (frame_write e c t f sid p))"
  by (simp add: served_def frame_write_def own_frame_def)

lemma served_put:
  "s_id s = s_id (strm c i) \<Longrightarrow> (s_in_use s \<Longrightarrow> s_in_use (strm c i)) \<Longrightarrow> served c (put_strm c i s)"
  unfolding served_def by (cases "i < length (c_streams c)") (auto simp: nth_list_update)

lemma served_if: "(P \<Longrightarrow> served c a) \<Longrightarrow> (\<not> P \<Longrightarrow> served c b) \<Longrightarrow> served c (if P then a else b)"
  by simp

lemma served_map:
  "c_streams c' = map f (c_streams c) \<Longrightarrow> c_out c' = c_out c \<Longrightarrow>
   (\<And>s. s_id (f s) = s_id s \<and> (s_in_use (f s) \<longrightarrow> s_in_use s)) \<Longrightarrow> served c c'"
  by (auto simp: served_def)

lemma served_control [simp]:
  "served c (snd (frame_write_rst e c sid code))" "served c (snd (frame_write_settings e c f p))"
  "served c (snd (frame_write_ping_ack e c p))" "served c (snd (frame_write_window_update e c sid n))"
  by (simp_all add: frame_write_rst_def frame_write_settings_def frame_write_ping_ack_def
      frame_write_window_update_def served_write h2_types)

lemma control_streams [simp]:
  "c_streams (snd (frame_write_rst e c sid code)) = c_streams c" "c_streams (snd (frame_write_settings e c f p)) = c_streams c"
  "c_streams (snd (frame_write_ping_ack e c p)) = c_streams c" "c_streams (snd (frame_write_window_update e c sid n)) = c_streams c"
  by (simp_all add: frame_write_rst_def frame_write_settings_def frame_write_ping_ack_def frame_write_window_update_def)

lemma served_abort: "served c (stream_abort e c i h k)"
  unfolding stream_abort_def Let_def by (rule served_trans [OF served_control(1) served_put]) simp_all

lemma served_complete_all: "served c (complete_all_streams c st m)"
  by (rule served_map [of _ "complete_stream st"])
    (simp_all add: complete_all_streams_def conn_store_message_def Let_def complete_stream_def)

lemma served_fail: "served c (conn_fail c k)"
proof -
  have "served c (complete_all_streams (c\<lparr>c_dead := True, c_dead_code := k\<rparr>) st m)" for st m
    by (rule served_trans [OF served_same served_complete_all]) simp_all
  then show ?thesis by (simp add: conn_fail_def served_refl)
qed

lemma served_setting: "served c (snd (apply_setting c k v))"
proof (cases "k = 4")
  case True
  then show ?thesis
    by (intro served_map [of _ "\<lambda>s. if s_in_use s then s\<lparr>s_send_window := s32 (s_send_window s +
        s32 (s32 (int v) - c_srv_initial_window c))\<rparr> else s"]) (simp_all add: apply_setting_def Let_def)
next
  case False
  then show ?thesis by (intro served_same) (simp_all add: apply_setting_def Let_def)
qed

lemma served_settings_loop: "served c (snd (settings_loop c p))"
proof (induction c p rule: settings_loop.induct)
  case (1 c i1 i0 v3 v2 v1 v0 rest)
  obtain ok c' where a: "apply_setting c (be_nat [i1, i0]) (be_nat [v3, v2, v1, v0]) = (ok, c')" by force
  have "served c c'" using served_setting [of c "be_nat [i1, i0]" "be_nat [v3, v2, v1, v0]"] a by simp
  then show ?case using 1 [OF a [symmetric]] a by (auto simp del: be_nat.simps intro: served_trans)
qed (simp_all add: served_refl)

lemma served_settings: "served c (snd (handle_settings e c p))"
proof -
  obtain ok c1 where l: "settings_loop c p = (ok, c1)" by force
  obtain rc c2 where w: "frame_write_settings e c1 H2_FLAG_ACK [] = (rc, c2)" by force
  have "served c c1" "served c1 c2"
    using served_settings_loop [of c p] served_control(2) [of c1 e H2_FLAG_ACK "[]"] l w by simp_all
  then show ?thesis using l w served_trans [of c c1 c2] served_upd [of "c2\<lparr>c_ready := True\<rparr>" c2 c]
    by (cases ok) (auto simp: handle_settings_def served_refl)
qed

lemma served_headers: "served c (snd (apply_headers c i h))"
  by (auto simp: apply_headers_def Let_def served_refl conn_store_message_def split: option.splits
      intro!: served_put served_upd [OF _ _ served_put])

lemma served_header_block: "served c (snd (handle_header_block e c sid block flags))"
proof -
  have "served c (c\<lparr>c_dyn_dec := d\<rparr>)" for d by (rule served_same) simp_all
  then show ?thesis
    by (auto simp: handle_header_block_def Let_def served_refl split: option.splits prod.splits
        intro: served_trans [OF _ served_headers])
qed

lemma served_headers_frames:
  "served c (snd (handle_headers_frame e c flags sid p))" "served c (snd (handle_continuation_frame e c flags p))"
proof -
  show "served c (snd (handle_headers_frame e c flags sid p))"
    using served_header_block by (auto simp: handle_headers_frame_def served_refl intro: served_same)
  let ?c = "c\<lparr>c_hdr_block := c_hdr_block c @ p,
    c_hdr_block_cap := max (c_hdr_block_cap c) (length (c_hdr_block c) + length p)\<rparr>"
  obtain rc c2 where h: "handle_header_block e ?c (c_hdr_block_sid ?c) (c_hdr_block ?c) (c_hdr_block_flags ?c) = (rc, c2)"
    by force
  have "served c ?c" by (rule served_same) simp_all
  moreover have "served ?c c2" by (metis h served_header_block snd_conv)
  ultimately have "served c c2" "served c (c2\<lparr>c_hdr_block_pending := False\<rparr>)"
    using served_trans served_upd [of "c2\<lparr>c_hdr_block_pending := False\<rparr>" c2] by auto
  then show "served c (snd (handle_continuation_frame e c flags p))"
    using h \<open>served c ?c\<close> by (auto simp: handle_continuation_frame_def Let_def served_refl)
qed

lemma served_credit: "served c (stream_credit_message e c i n)"
proof -
  let ?s = "strm c i" and ?n = "s32 (int n)"
  let ?c1 = "(put_strm c i (?s\<lparr>s_recv_window := s_recv_window ?s + ?n\<rparr>))\<lparr>c_recv_window := c_recv_window c + ?n\<rparr>"
  have "served c (put_strm c i (?s\<lparr>s_recv_window := s_recv_window ?s + ?n\<rparr>))" by (rule served_put) simp_all
  then have "served c ?c1" by (rule served_upd [rotated 2]) simp_all
  from served_trans [OF served_trans [OF this served_control(4)] served_control(4)]
  show ?thesis by (simp add: stream_credit_message_def Let_def served_refl)
qed

lemma served_store: "served c (put_strm c i (rasm_store (strm c i) ch))"
  by (rule served_put) (auto simp: rasm_store_def Let_def split: option.splits if_splits)

lemma served_begin: "served c (snd (rasm_begin e c i))"
proof -
  let ?s = "strm c i" and ?m = "be_nat (tl (s_rasm_hdr (strm c i)))"
  let ?s1 = "?s\<lparr>s_rasm_msglen := ?m, s_rasm_got := 0\<rparr>"
  have c1: "served c (put_strm c i (?s\<lparr>s_rasm_msglen := ?m\<rparr>))" "served c (put_strm c i ?s1)"
    by (rule served_put, simp, simp)+
  have "served c (put_strm c i (?s1\<lparr>s_rasm_state := 1\<rparr>))" by (rule served_put) simp_all
  then have c3: "served c (put_strm (put_strm c i ?s1) i (?s1\<lparr>s_rasm_state := 1\<rparr>))"
    by (rule served_upd [rotated 2]) simp_all
  define W where "W = snd (frame_write_rst e (put_strm c i ?s1) (s_id ?s) H2_ERR_CANCEL)"
  have w: "served c W" unfolding W_def by (rule served_trans [OF c1(2) served_control(1)])
  have "c_streams W = (c_streams c)[i := ?s1]" by (simp add: W_def)
  then have "s_id (strm W i) = s_id ?s \<and> s_in_use (strm W i) = s_in_use ?s" by (cases "i < length (c_streams c)") (simp_all add: list_update_beyond)
  then have c2: "served c (put_strm W i (?s1\<lparr>s_state := SS_DONE, s_err := H2C_ERR_TOOBIG, s_status := 0, s_q_closed := True\<rparr>))"
    by (intro served_trans [OF w served_put]) simp_all
  show ?thesis unfolding rasm_begin_def Let_def W_def [symmetric] if_distrib [of snd] snd_conv
    by (intro served_if served_abort c2 c3 served_trans [OF c1(1) served_abort] served_trans [OF c1(2) served_abort])
qed

lemma served_finish: "served c (snd (rasm_finish e c i))"
proof -
  let ?s = "strm c i"
  let ?s1 = "?s\<lparr>s_resp_len := s_rasm_got ?s, s_msg_count := s_msg_count ?s + 1\<rparr>"
  define c2 where "c2 = stream_credit_message e (put_strm c i ?s1) i (s_rasm_got ?s + 5)"
  have c1: "served c (put_strm c i ?s1)" by (rule served_put) simp_all
  have "served c c2" unfolding c2_def by (rule served_trans [OF c1 served_credit])
  then have cred: "served c (put_strm c2 i ((strm c2 i)\<lparr>s_rasm_state := 0, s_rasm_hdr := []\<rparr>))"
    by (rule served_trans [OF _ served_put]) simp_all
  have push: "served c (put_strm c i ((queue_push e ?s m)\<lparr>s_rasm_buf := [], s_rasm_state := 0, s_rasm_hdr := []\<rparr>))" for m
    by (rule served_put) (simp_all add: queue_push_def split: if_splits)
  show ?thesis unfolding rasm_finish_def Let_def c2_def [symmetric] if_distrib [of snd] snd_conv
    by (intro served_if served_abort cred push served_trans [OF c1 served_abort])
qed

lemma served_body: "served c (fst (snd (rasm_body e c i data)))"
  using served_store [of c i] served_trans [OF served_store served_finish]
  by (auto simp: rasm_body_def Let_def split: prod.splits) (metis snd_conv)

lemma served_header: "served c (fst (snd (rasm_header e c i data)))"
proof -
  have "served c (put_strm c i ((strm c i)\<lparr>s_rasm_hdr := x\<rparr>))" for x by (rule served_put) simp_all
  from this served_trans [OF this served_begin] show ?thesis
    by (auto simp: rasm_header_def Let_def split: prod.splits) (metis snd_conv)
qed

lemma served_feed_step: "served c (fst (snd (feed_step e c i data)))"
proof -
  have "served c c2" if "rasm_header e c i data = (g, c1, n)" "rasm_body e c1 i (drop n data) = (g2, c2, m)" for g c1 n g2 c2 m
    using served_trans [of c c1 c2] served_header [of c e i data] served_body [of c1 e i "drop n data"] that by simp
  then show ?thesis using served_body [of c e i data] served_header [of c e i data]
    by (auto simp: feed_step_def split: prod.splits)
qed

lemma served_feed_loop: "served c (feed_loop fuel e c i data)"
proof (induction fuel arbitrary: c data)
  case (Suc fuel)
  obtain go c1 n where f: "feed_step e c i data = (go, c1, n)" by (metis prod_cases3)
  then show ?case using served_feed_step [of c e i data] served_trans [OF _ Suc.IH] by (simp add: served_refl)
qed (simp add: served_refl)

lemma served_data_frame: "served c (snd (handle_data_frame e c flags sid p))"
proof (cases "stream_find c sid")
  case (Some i)
  let ?s = "strm c i" and ?n = "int (length p)"
  let ?c1 = "(put_strm c i (?s\<lparr>s_recv_window := s_recv_window ?s - ?n\<rparr>))\<lparr>c_recv_window := c_recv_window c - ?n\<rparr>"
  have "served c (put_strm c i (?s\<lparr>s_recv_window := s_recv_window ?s - ?n\<rparr>))" by (rule served_put) simp_all
  then have "served c ?c1" by (rule served_upd [rotated 2]) simp_all
  note fed = served_trans [OF this served_feed_loop]
  show ?thesis unfolding handle_data_frame_def Some Let_def option.case if_distrib [of snd] snd_conv stream_feed_data_def
    by (intro served_if served_refl fed served_trans [OF fed served_abort])
qed (simp add: handle_data_frame_def served_refl)

lemma served_rest:
  "served c (snd (handle_window_update c sid p))" "served c (snd (handle_goaway c p))"
  "served c (snd (handle_rst_stream c sid p))" "served c (snd (handle_ping e c flags p))"
proof -
  have "served c (c\<lparr>c_send_window := w\<rparr>)" for w by (rule served_same) simp_all
  moreover have "served c (put_strm c i ((strm c i)\<lparr>s_send_window := w\<rparr>))" for i w by (rule served_put) simp_all
  ultimately show "served c (snd (handle_window_update c sid p))"
    by (auto simp: handle_window_update_def Let_def served_refl split: option.splits)
  let ?c = "c\<lparr>c_goaway_seen := True, c_goaway_last_sid := be_nat (take 4 p)\<rparr>"
  have "served c ?c" by (rule served_same) simp_all
  from served_trans [OF this served_complete_all]
  have "served c ((complete_all_streams ?c st m)\<lparr>c_dead := True, c_dead_code := k\<rparr>)" for st m k
    by (rule served_upd [rotated 2]) simp_all
  then show "served c (snd (handle_goaway c p))" by (simp add: handle_goaway_def served_refl)
  have "served c (put_strm c i (stream_destroy (strm c i)))" for i by (rule served_put) (simp_all add: stream_destroy_def)
  moreover have "served c (put_strm c i ((strm c i)\<lparr>s_state := SS_DONE, s_status := k, s_err := 0,
      s_q_closed := True, s_rasm_buf := []\<rparr>))" for i k by (rule served_put) simp_all
  ultimately show "served c (snd (handle_rst_stream c sid p))"
    by (auto simp: handle_rst_stream_def Let_def served_refl split: option.splits)
  show "served c (snd (handle_ping e c flags p))"
    by (cases "frame_write_ping_ack e c p") (simp add: handle_ping_def served_refl, metis served_control(3) snd_conv)
qed

lemma served_dispatch: "served c (snd (dispatch_frame e c f))"
  unfolding dispatch_frame_def Let_def if_distrib [of snd] snd_conv
  by (intro served_if served_refl served_settings served_rest served_data_frame served_headers_frames)

lemma served_process: "process_one_frame e c sc = (rc, c', sc') \<Longrightarrow> served c c'"
proof -
  assume p: "process_one_frame e c sc = (rc, c', sc')"
  obtain fr r sc1 where f: "frame_reader_fill (he_mem e) (c_rx c) sc = (fr, r, sc1)" by (metis prod_cases3)
  obtain k c2 where d: "dispatch_frame e (c\<lparr>c_rx := r\<rparr>) (rx_frame r) = (k, c2)" by force
  have c1: "served c (c\<lparr>c_rx := r\<rparr>)" by (rule served_same) simp_all
  have "served (c\<lparr>c_rx := r\<rparr>) c2" by (metis d served_dispatch snd_conv)
  from served_trans [OF c1 this] have "served c (c2\<lparr>c_rx := frame_reader_reset (c_rx c2)\<rparr>)"
    by (rule served_upd [rotated 2]) simp_all
  then show ?thesis using p f d c1 by (auto simp: process_one_frame_def Let_def split: if_splits)
qed

lemma served_poll_frames: "poll_frames budget e c sc = (rc, c', sc') \<Longrightarrow> served c c'"
proof (induction budget arbitrary: c sc)
  case (Suc budget)
  obtain r c1 sc1 where p: "process_one_frame e c sc = (r, c1, sc1)" by (metis prod_cases3)
  show ?case using Suc.prems p served_process [OF p] served_trans [OF served_process [OF p] served_fail]
      served_trans [OF served_process [OF p] Suc.IH]
    by (auto split: if_splits)
qed (simp add: served_refl)

lemma served_poll: "conn_poll_once e c pe sc = (rc, c', sc') \<Longrightarrow> served c c'"
  using served_poll_frames [of H2C_FRAME_BUDGET e c sc rc c' sc'] served_fail [of c]
  by (cases pe) (auto simp: conn_poll_once_def served_refl split: if_splits)

end
