(* ===== verification/H2c_Session.thy ===== *)
theory H2c_Session
  imports H2c_Served
begin

text \<open>
  What the calls of \<open>containerd/h2c.c\<close> do to a connection. Two contracts of polling carry the
  proofs: it keeps the invariant of \<open>H2c_Inv\<close>, and it only serves the streams there are (it
  opens none, renames none and sends neither HEADERS nor DATA). The waiting loops are treated once,
  for every such contract, in the locale \<open>waiting\<close>. The properties: every connection a client can
  reach is well-formed, a request goes out complete and within its credit, and a unary call
  returns.
\<close>

section \<open>The waiting loops\<close>

text \<open>How a round of \<open>await_done\<close> ends: with a result, with the timeout, with a failure, or with another round.\<close>

lemma await_done_cases:
  assumes "await_done e dl i c sc (w # rs) = Ret (r, s)"
    and "conn_poll_once e c (wr_poll w) (sc @ wr_events w) = (rc, c1, sc1)"
  obtains s0 where "se_conn s0 = c" "unary_result s0 i = (r, s)"
  | s0 where "se_conn s0 = c1" "unary_result s0 i = (r, s)"
  | "se_conn s = destroy_strm (snd (frame_write_rst e c (s_id (strm c i)) H2_ERR_CANCEL)) i"
  | "se_conn s = destroy_strm c1 i"
  | "s_state (strm c i) \<noteq> SS_DONE" "\<not> time_left_ms dl (wr_now w) \<le> 0" "\<not> rc < 0" "await_done e dl i c1 sc1 rs = Ret (r, s)"
proof -
  let ?s = "\<lparr>se_conn = c, se_socket = sc, se_rounds = w # rs\<rparr>" and ?s1 = "\<lparr>se_conn = c1, se_socket = sc1, se_rounds = rs\<rparr>"
  show thesis
  proof (cases "s_state (strm c i) = SS_DONE \<or> time_left_ms dl (wr_now w) \<le> 0")
    case True
    then show thesis using assms(1) that(1) [of ?s] that(3) by (auto simp: Let_def split: if_splits)
  next
    case False
    then show thesis using assms that(2) [of ?s1] that(4,5) by (auto simp: Let_def split: if_splits)
  qed
qed

text \<open>
  What the calls rely on: a relation between connections that polling and the housekeeping of the
  calls respect is respected by every waiting loop.
\<close>

locale waiting =
  fixes kept :: "strim_h2c \<Rightarrow> strim_h2c \<Rightarrow> bool"
  assumes kept_refl: "kept c c"
    and kept_trans: "kept c c1 \<Longrightarrow> kept c1 c2 \<Longrightarrow> kept c c2"
    and kept_poll: "conn_poll_once e c pe sc = (rc, c', sc') \<Longrightarrow> kept c c'"
    and kept_rst: "kept c (snd (frame_write_rst e c sid code))"
    and kept_destroy: "i < H2C_MAX_STREAMS \<Longrightarrow> kept c (destroy_strm c i)"
    and kept_pop: "i < H2C_MAX_STREAMS \<Longrightarrow> s_queue (strm c i) \<noteq> [] \<Longrightarrow> kept c (snd (pop_message e c i))"
begin

lemma wait_window_kept:
  "wait_window e dl i n c sc rs = Ret (r, s) \<Longrightarrow> kept c (se_conn s)"
proof (induction e dl i n c sc rs rule: wait_window.induct)
  case (2 e dl i n c sc r rs)
  obtain rc c1 sc1 where p: "conn_poll_once e c (wr_poll r) (sc @ wr_events r) = (rc, c1, sc1)" by (metis prod_cases3)
  show ?case using "2.prems" "2.IH" [OF _ _ p [symmetric]] p kept_poll [OF p] kept_trans [of c c1] kept_refl
    by (auto split: if_splits)
qed (auto simp: kept_refl split: if_splits)

lemma await_ready_kept:
  "await_ready e dl c sc rs = Ret (r, s) \<Longrightarrow> kept c (se_conn s)"
proof (induction e dl c sc rs rule: await_ready.induct)
  case (2 e dl c sc r rs)
  obtain rc c1 sc1 where p: "conn_poll_once e c (wr_poll r) (sc @ wr_events r) = (rc, c1, sc1)" by (metis prod_cases3)
  show ?case using "2.prems" "2.IH" [OF _ _ p [symmetric]] p kept_poll [OF p] kept_trans [of c c1] kept_refl
    by (auto split: if_splits)
qed (auto simp: kept_refl split: if_splits)

lemma unary_result_kept:
  "i < H2C_MAX_STREAMS \<Longrightarrow> unary_result s i = (r, s') \<Longrightarrow> kept (se_conn s) (se_conn s')"
  by (auto simp: unary_result_def Let_def kept_destroy split: if_splits)

lemma await_done_kept:
  "i < H2C_MAX_STREAMS \<Longrightarrow> await_done e dl i c sc rs = Ret (r, s) \<Longrightarrow> kept c (se_conn s)"
proof (induction e dl i c sc rs rule: await_done.induct)
  case (1 e dl i c sc)
  then show ?case by (auto dest: unary_result_kept split: if_splits)
next
  case (2 e dl i c sc w rs)
  obtain rc c1 sc1 where p: "conn_poll_once e c (wr_poll w) (sc @ wr_events w) = (rc, c1, sc1)" by (metis prod_cases3)
  note c1 = kept_trans [OF kept_poll [OF p]]
  from "2.prems"(2) p show ?case
  proof (cases rule: await_done_cases)
    case (1 s0)
    then show ?thesis using unary_result_kept [OF "2.prems"(1)] by blast
  next
    case (2 s0)
    then show ?thesis using c1 unary_result_kept [OF "2.prems"(1)] by blast
  next
    case 3
    then show ?thesis using kept_trans [OF kept_rst kept_destroy [OF "2.prems"(1)]] by simp
  next
    case 4
    then show ?thesis using c1 kept_destroy [OF "2.prems"(1)] by simp
  next
    case 5
    then show ?thesis using c1 "2.IH" [OF 5(1,2) p [symmetric] refl refl 5(3) "2.prems"(1)] by blast
  qed
qed

lemma stream_grace_kept:
  "i < H2C_MAX_STREAMS \<Longrightarrow> stream_grace e g i c sc rs = Ret (r, s) \<Longrightarrow> kept c (se_conn s)"
proof (induction e g i c sc rs rule: stream_grace.induct)
  case (2 e g i c sc w rs)
  obtain rc c1 sc1 where p: "conn_poll_once e c (wr_poll w) (sc @ wr_events w) = (rc, c1, sc1)" by (metis prod_cases3)
  show ?case
    using "2.prems" "2.IH" [OF _ _ p [symmetric]] p kept_trans [OF kept_poll [OF p]] kept_destroy [OF "2.prems"(1)] kept_refl
    by (auto split: if_splits)
qed (auto simp: kept_refl split: if_splits)

lemma next_result_kept:
  "i < H2C_MAX_STREAMS \<Longrightarrow> next_result e s i = Some (r, s') \<Longrightarrow> kept (se_conn s) (se_conn s')"
  using kept_pop [of i "se_conn s" e] by (auto simp: next_result_def Let_def kept_refl split: if_splits prod.splits)

lemma next_loop_kept:
  "i < H2C_MAX_STREAMS \<Longrightarrow> next_loop e dl i c sc rs = Ret (r, s) \<Longrightarrow> kept c (se_conn s)"
proof (induction e dl i c sc rs rule: next_loop.induct)
  case (1 e dl i c sc)
  then show ?case by (auto dest: next_result_kept split: option.splits)
next
  case (2 e dl i c sc w rs)
  let ?s = "\<lparr>se_conn = c, se_socket = sc, se_rounds = w # rs\<rparr>"
  obtain rc c1 sc1 where p: "conn_poll_once e c (wr_poll w) (sc @ wr_events w) = (rc, c1, sc1)" by (metis prod_cases3)
  show ?case
  proof (cases "next_result e ?s i")
    case None
    then show ?thesis
      using "2.prems" "2.IH" [OF None _ p [symmetric]] p kept_trans [OF kept_poll [OF p]] kept_poll [OF p] kept_refl
      by (auto split: if_splits)
  next
    case (Some q)
    then show ?thesis using "2.prems" next_result_kept [of i e ?s] by (cases q) auto
  qed
qed

end

section \<open>The two contracts\<close>

lemma served_pop: "served c (snd (pop_message e c i))"
proof -
  have "served c (put_strm c i ((strm c i)\<lparr>s_queue := q, s_q_bytes := b\<rparr>))" for q b by (rule served_put) simp_all
  from served_trans [OF this served_credit] show ?thesis by (simp add: pop_message_def Let_def)
qed

lemma served_destroy: "served c (destroy_strm c i)"
  unfolding destroy_strm_def by (rule served_put) (simp_all add: stream_destroy_def)

interpretation serving: waiting served
  by unfold_locales (simp_all add: served_refl served_pop served_destroy, (fact served_trans served_poll)+)

lemma destroy_room: "stream_room n s \<Longrightarrow> stream_room 0 (stream_destroy s) \<and> held (stream_destroy s) \<le> held s"
  by (auto simp: stream_room_def stream_destroy_def held_def rasm_ok_def resp_ok_def queue_ok_def)

lemma destroy_ok: "conn_ok c \<Longrightarrow> i < H2C_MAX_STREAMS \<Longrightarrow> conn_ok (destroy_strm c i)"
  unfolding destroy_strm_def using destroy_room [OF conn_ok_stream [of c i]]
  by (intro conn_ok_put) (auto simp: stream_destroy_def)

lemma conn_ok_recv: "conn_ok c \<Longrightarrow> c_recv_window c \<le> H2_INIT_WINDOW"
  using sum_list_nonneg [of "map held (c_streams c)"] held_nonneg by (fastforce simp: conn_ok_def conn_room_def)

lemma pop_ok:
  assumes c: "conn_ok c" "i < H2C_MAX_STREAMS" and q: "s_queue (strm c i) = m # ms"
  shows "conn_ok (snd (pop_message e c i))"
proof -
  let ?s = "strm c i" and ?k = "length m + 5"
  let ?s1 = "?s\<lparr>s_queue := ms, s_q_bytes := s_q_bytes ?s - length m\<rparr>"
  let ?s2 = "?s1\<lparr>s_recv_window := s_recv_window ?s + int ?k\<rparr>"
  have i: "i < length (c_streams c)" using c by (simp add: conn_ok_def conn_room_def)
  have room: "stream_room 0 ?s" by (rule conn_ok_stream [OF c])
  have m: "length m \<le> 65530" using message_window_limit [OF c(1), of i m] c(2) q by (simp add: H2C_MAX_STREAMS_def)
  have h: "held ?s2 = held ?s - int ?k" "held ?s2 \<ge> 0" using q by (simp_all add: held_def)
  have r2: "stream_room 0 ?s2" using room q h by (auto simp: stream_room_def rasm_ok_def resp_ok_def queue_ok_def)
  have w: "s_recv_window (strm (put_strm c i ?s1) i) \<le> H2_INIT_WINDOW" "c_recv_window (put_strm c i ?s1) \<le> H2_INIT_WINDOW"
    using room conn_ok_recv [OF c(1)] i held_nonneg [of ?s] by (simp_all add: stream_room_def)
  obtain fs where "stream_credit_message e (put_strm c i ?s1) i ?k =
      (put_strm (put_strm c i ?s1) i ((strm (put_strm c i ?s1) i)\<lparr>s_recv_window := s_recv_window (strm (put_strm c i ?s1) i) + int ?k\<rparr>))
      \<lparr>c_recv_window := c_recv_window (put_strm c i ?s1) + int ?k, c_out := c_out (put_strm c i ?s1) @ fs\<rparr>"
    using credit_eq [OF _ _ w, of ?k e] m by auto
  then have eq: "snd (pop_message e c i) = ((put_strm c i ?s2)\<lparr>c_recv_window := c_recv_window c + int ?k\<rparr>)\<lparr>c_out := c_out c @ fs\<rparr>"
    using q i by (simp add: pop_message_def Let_def)
  have "conn_room 0 i ((put_strm c i ?s2)\<lparr>c_recv_window := c_recv_window c + int ?k\<rparr>)"
    by (rule conn_room_put_window [of 0]) (use c r2 h(1) in \<open>auto simp: conn_room_0 conn_ok_def conn_room_def\<close>)
  then show ?thesis unfolding eq by (simp add: conn_room_0)
qed

interpretation sound: waiting "\<lambda>c c'. conn_ok c \<longrightarrow> conn_ok c'"
proof unfold_locales
  show "conn_ok c \<longrightarrow> conn_ok (snd (pop_message e c i))" if "i < H2C_MAX_STREAMS" "s_queue (strm c i) \<noteq> []" for i c e
    using that pop_ok by (cases "s_queue (strm c i)") auto
qed (auto dest: poll_once_ok simp: destroy_ok frame_write_rst_def)

section \<open>The calls keep the invariant\<close>

lemma encode_fields_ok: "dyn_ok d \<Longrightarrow> dyn_ok (fst (encode_fields mem cap d fs))"
proof (induction fs arbitrary: d cap)
  case (Cons f fs)
  have "dyn_ok (fst (hpack_encode_field mem d cap (hf_name f) (hf_value f)))"
    using Cons.prems dyn_add_ok by (simp add: hpack_encode_field_def Let_def)
  then show ?case using Cons.IH by (auto split: prod.splits) (metis fst_conv)
qed simp

lemma build_headers_same:
  "c_streams (fst (build_request_headers e c path cap)) = c_streams c"
  "c_out (fst (build_request_headers e c path cap)) = c_out c"
  "c_dead (fst (build_request_headers e c path cap)) = c_dead c"
  "c_recv_window (fst (build_request_headers e c path cap)) = c_recv_window c"
  "c_send_window (fst (build_request_headers e c path cap)) = c_send_window c"
  by (simp_all add: build_request_headers_def Let_def split: prod.splits)

lemma build_headers_ok:
  assumes "conn_ok c"
  shows "conn_ok (fst (build_request_headers e c path cap))"
proof -
  have "tables_ok c" using assms by (simp add: conn_ok_def conn_room_def)
  then have "tables_ok (fst (build_request_headers e c path cap))"
    using encode_fields_ok [of "c_dyn_enc c"]
    by (auto simp: build_request_headers_def Let_def tables_ok_def split: prod.splits) (metis fst_conv)+
  then show ?thesis by (rule conn_ok_tables [OF assms]) (simp_all add: build_headers_same)
qed

lemma send_window_ok:
  assumes "conn_ok c" "i < H2C_MAX_STREAMS"
  shows "conn_ok ((put_strm c i ((strm c i)\<lparr>s_send_window := v\<rparr>))\<lparr>c_send_window := w\<rparr>)"
proof -
  have "conn_ok (put_strm c i ((strm c i)\<lparr>s_send_window := v\<rparr>))"
    by (rule conn_ok_put [OF assms]) (use conn_ok_stream [OF assms] in \<open>auto simp: live_def\<close>)
  then show ?thesis by (simp only: conn_ok_upd)
qed

text \<open>What a chunk that is sent does: after waiting, it takes the credit and writes one frame.\<close>

definition debited :: "strim_h2c \<Rightarrow> nat \<Rightarrow> nat \<Rightarrow> strim_h2c" where
  "debited c i n = (put_strm c i ((strm c i)\<lparr>s_send_window := s_send_window (strm c i) - int n\<rparr>))
     \<lparr>c_send_window := c_send_window c - int n\<rparr>"

lemma send_chunk_cases:
  assumes "send_chunk e clk i ch fin s = Ret (rc, s')"
  obtains dl err where "wait_window e dl i (length ch) (se_conn s) (se_socket s) (se_rounds s) = Ret (Some err, s')" "rc = err"
  | dl s1 where "wait_window e dl i (length ch) (se_conn s) (se_socket s) (se_rounds s) = Ret (None, s1)"
      "s' = s1\<lparr>se_conn := snd (frame_write e (debited (se_conn s1) i (length ch)) H2_DATA
         (if fin then H2_FLAG_END_STREAM else 0) (s_id (strm (se_conn s1) i)) ch)\<rparr>"
      "rc = (if fst (frame_write e (debited (se_conn s1) i (length ch)) H2_DATA
         (if fin then H2_FLAG_END_STREAM else 0) (s_id (strm (se_conn s1) i)) ch) < 0 then H2C_ERR_IO else 0)"
  using assms unfolding send_chunk_def debited_def Let_def
  by (auto split: if_splits outcome.splits option.splits prod.splits)

lemma send_chunk_ok:
  assumes "send_chunk e clk i ch fin s = Ret (rc, s')" "conn_ok (se_conn s)" "i < H2C_MAX_STREAMS"
  shows "conn_ok (se_conn s')"
  using assms(1)
proof (cases rule: send_chunk_cases)
  case (1 dl err)
  then show ?thesis using sound.wait_window_kept assms(2) by blast
next
  case (2 dl s1)
  have "conn_ok (se_conn s1)" using sound.wait_window_kept [OF 2(1)] assms(2) by blast
  then have "conn_ok (debited (se_conn s1) i (length ch))" unfolding debited_def by (rule send_window_ok [OF _ assms(3)])
  then show ?thesis using 2(2) by simp
qed

lemma send_loop_ok:
  "send_loop fuel e clk m i body s = Ret (rc, s') \<Longrightarrow> conn_ok (se_conn s) \<Longrightarrow> i < H2C_MAX_STREAMS \<Longrightarrow> conn_ok (se_conn s')"
proof (induction fuel arbitrary: body s)
  case (Suc fuel)
  then show ?case by (auto simp: Let_def dest: send_chunk_ok split: if_splits outcome.splits)
qed (auto split: if_splits)

lemma send_request_ok:
  assumes "send_request e clk i path req s = Ret (rc, s')" "conn_ok (se_conn s)" "i < H2C_MAX_STREAMS"
  shows "conn_ok (se_conn s')"
proof -
  obtain c1 blk where b: "build_request_headers e (se_conn s) path H2C_REQ_HDR_BLOCK = (c1, blk)" by force
  have c1: "conn_ok c1" using build_headers_ok [OF assms(2), of e path H2C_REQ_HDR_BLOCK] b by simp
  show ?thesis
  proof (cases blk)
    case (Some w)
    obtain r c2 where f: "frame_write e c1 H2_HEADERS H2_FLAG_END_HEADERS (s_id (strm c1 i)) w = (r, c2)" by force
    have "conn_ok c2" using conn_ok_write c1 f by (metis snd_conv)
    then show ?thesis using assms b Some f by (auto simp: send_request_def Let_def dest: send_loop_ok split: if_splits)
  qed (use assms(1) b c1 in \<open>auto simp: send_request_def Let_def\<close>)
qed

lemma alloc_eq:
  assumes "stream_alloc c typ = (c', Some i)"
  shows "i < H2C_MAX_STREAMS" "c' = (put_strm c i (stream_init c typ))\<lparr>c_next_sid := c_next_sid c + 2\<rparr>"
    "\<not> s_in_use (strm c i) \<or> s_state (strm c i) = SS_DONE"
proof -
  obtain Q where Q: "List.find Q [0..<H2C_MAX_STREAMS] = Some i" "Q i \<longrightarrow> \<not> s_in_use (strm c i) \<or> s_state (strm c i) = SS_DONE"
    and c': "c' = (put_strm c i (stream_init c typ))\<lparr>c_next_sid := c_next_sid c + 2\<rparr>"
    using assms unfolding stream_alloc_def by (auto split: option.splits)
  then show "i < H2C_MAX_STREAMS" "\<not> s_in_use (strm c i) \<or> s_state (strm c i) = SS_DONE"
    "c' = (put_strm c i (stream_init c typ))\<lparr>c_next_sid := c_next_sid c + 2\<rparr>"
    using find_Some_in_set [OF Q(1)] by auto
qed

lemma init_room: "stream_room 0 (stream_init c typ)" "held (stream_init c typ) = 0"
  by (simp_all add: stream_room_def held_def rasm_ok_def resp_ok_def queue_ok_def stream_init_def zero_stream_def
      H2_INIT_WINDOW_def H2C_QUEUE_MAX_BYTES_def)

lemma new_stream_ok:
  assumes "conn_ok c" "\<not> c_dead c" "i < H2C_MAX_STREAMS" "stream_room 0 s" "held s = 0"
  shows "conn_ok ((put_strm c i s)\<lparr>c_next_sid := sid\<rparr>)" "conn_ok (put_strm (c\<lparr>c_next_sid := sid\<rparr>) i s)"
proof -
  have i: "i < length (c_streams c)" using assms by (simp add: conn_ok_def conn_room_def)
  then show "conn_ok ((put_strm c i s)\<lparr>c_next_sid := sid\<rparr>)" "conn_ok (put_strm (c\<lparr>c_next_sid := sid\<rparr>) i s)"
    using assms held_nonneg [of "strm c i"]
    by (auto simp: conn_ok_def conn_room_def sum_list_map_update nth_list_update tables_ok_def dead_done_def)
qed

lemma unary_ok:
  assumes "h2c_unary e clk path req resp cap timeout s = Ret (r, s')" "conn_ok (se_conn s)"
    and "\<And>buf. resp = Some buf \<Longrightarrow> length buf \<le> cap"
  shows "conn_ok (se_conn s')"
proof -
  obtain c1 io where a: "stream_alloc (se_conn s) ST_UNARY = (c1, io)" by force
  define c2 where "c2 = (\<lambda>i. put_strm c1 i ((strm c1 i)\<lparr>s_resp := resp, s_resp_cap := cap, s_resp_len := 0\<rparr>))"
  consider (early) "s' = s"
    | (unsent) i s1 rc where "io = Some i" "\<not> c_dead (se_conn s)"
        "send_request e clk i path req (s\<lparr>se_conn := c2 i\<rparr>) = Ret (rc, s1)" "se_conn s' = destroy_strm (se_conn s1) i"
    | (sent) i dl s1 rc where "io = Some i" "\<not> c_dead (se_conn s)"
        "send_request e clk i path req (s\<lparr>se_conn := c2 i\<rparr>) = Ret (rc, s1)"
        "await_done e dl i (se_conn s1) (se_socket s1) (se_rounds s1) = Ret (r, s')"
    using assms(1) a unfolding h2c_unary_def Let_def c2_def
    by (auto split: if_splits option.splits outcome.splits)
  moreover have "i < H2C_MAX_STREAMS \<and> conn_ok (se_conn s1)"
    if "io = Some i" "\<not> c_dead (se_conn s)" "send_request e clk i path req (s\<lparr>se_conn := c2 i\<rparr>) = Ret (rc, s1)" for i s1 rc
  proof -
    note al = alloc_eq [OF a [unfolded that(1)]]
    let ?s = "(stream_init (se_conn s) ST_UNARY)\<lparr>s_resp := resp, s_resp_cap := cap, s_resp_len := 0\<rparr>"
    have i: "i < length (c_streams (se_conn s))" using al(1) assms(2) by (simp add: conn_ok_def conn_room_def)
    have "stream_room 0 ?s" "held ?s = 0" using init_room [of "se_conn s" ST_UNARY] assms(3)
      by (auto simp: stream_room_def held_def rasm_ok_def resp_ok_def queue_ok_def stream_init_def zero_stream_def)
    from new_stream_ok(2) [OF assms(2) that(2) al(1) this, of "c_next_sid (se_conn s) + 2"]
    have "conn_ok (c2 i)" using i by (simp add: c2_def al(2))
    then show ?thesis using send_request_ok [OF that(3) _ al(1)] al(1) by simp
  qed
  ultimately show ?thesis using assms(2) destroy_ok sound.await_done_kept by cases metis+
qed

lemma open_ok:
  assumes "h2c_stream_open e clk path req s = Ret (r, s')" "conn_ok (se_conn s)"
  shows "conn_ok (se_conn s')"
proof -
  obtain c1 io where a: "stream_alloc (se_conn s) ST_SUBSCRIBE = (c1, io)" by force
  consider (early) "s' = s"
    | (unsent) i s1 rc where "io = Some i" "\<not> c_dead (se_conn s)"
        "send_request e clk i path req (s\<lparr>se_conn := c1\<rparr>) = Ret (rc, s1)" "se_conn s' = destroy_strm (se_conn s1) i"
    | (failed) i s1 rc g err where "io = Some i" "\<not> c_dead (se_conn s)"
        "send_request e clk i path req (s\<lparr>se_conn := c1\<rparr>) = Ret (rc, s1)"
        "stream_grace e g i (se_conn s1) (se_socket s1) (se_rounds s1) = Ret (Some err, s')"
    | (opened) i s1 rc g s2 where "io = Some i" "\<not> c_dead (se_conn s)"
        "send_request e clk i path req (s\<lparr>se_conn := c1\<rparr>) = Ret (rc, s1)"
        "stream_grace e g i (se_conn s1) (se_socket s1) (se_rounds s1) = Ret (None, s2)" "open_result s2 i = (r, s')"
    using assms(1) a unfolding h2c_stream_open_def Let_def
    by (auto split: if_splits option.splits outcome.splits)
  moreover have sent: "i < H2C_MAX_STREAMS \<and> conn_ok (se_conn s1)"
    if "io = Some i" "\<not> c_dead (se_conn s)" "send_request e clk i path req (s\<lparr>se_conn := c1\<rparr>) = Ret (rc, s1)" for i s1 rc
  proof -
    note al = alloc_eq [OF a [unfolded that(1)]]
    from new_stream_ok(1) [OF assms(2) that(2) al(1) init_room] have "conn_ok c1" unfolding al(2) .
    then show ?thesis using send_request_ok [OF that(3) _ al(1)] al(1) by simp
  qed
  ultimately show ?thesis
  proof cases
    case (opened i s1 rc g s2)
    then have "i < H2C_MAX_STREAMS" "conn_ok (se_conn s2)" using sent sound.stream_grace_kept by blast+
    then show ?thesis using opened(5) destroy_ok by (auto simp: open_result_def Let_def split: if_splits)
  qed (use assms(2) destroy_ok sound.stream_grace_kept in metis)+
qed

lemma close_ok:
  assumes "conn_ok c" "i < H2C_MAX_STREAMS"
  shows "conn_ok (h2c_stream_close e c i)"
proof -
  let ?st = "\<lambda>s. s\<lparr>s_q_closed := True, s_state := SS_DONE, s_err := H2C_ERR_CLOSED, s_status := 0\<rparr>"
  have *: "conn_ok (put_strm c1 i (stream_destroy (?st (strm c1 i))))" if "conn_ok c1" for c1
  proof -
    have "stream_room 0 (?st (strm c1 i))" using conn_ok_stream [OF that assms(2)] by simp
    from destroy_room [OF this] show ?thesis using that assms(2) by (intro conn_ok_put) (auto simp: stream_destroy_def)
  qed
  show ?thesis using *[OF assms(1)] * [of "snd (frame_write_rst e c (s_id (strm c i)) H2_ERR_CANCEL)"] assms(1)
    by (simp add: h2c_stream_close_def Let_def frame_write_rst_def)
qed

lemma connect_ok:
  assumes "h2c_connect e clk path ns up preface rs = Ret (r, Some s)"
  shows "conn_ok (se_conn s)"
proof -
  let ?ns = "if ns = [] then ''default'' else ns"
  obtain dl where "await_ready e dl (snd (frame_write_settings e (fresh_conn ?ns) 0 our_settings)) [] rs = Ret (r, s)"
    using assms unfolding h2c_connect_def Let_def by (auto split: if_splits outcome.splits prod.splits)
  from sound.await_ready_kept [OF this] show ?thesis using fresh_conn_ok by (simp add: frame_write_settings_def)
qed

section \<open>Every connection a client can reach\<close>

text \<open>
  A client connects and then makes calls in any order; the environment (allocator, socket, clock,
  what the server sends) may differ in every call, and streams are closed or read by their slot.
\<close>

inductive client :: "session \<Rightarrow> bool" where
  connected: "h2c_connect e clk path ns up preface rs = Ret (r, Some s) \<Longrightarrow> client s"
| arrival: "client s \<Longrightarrow> client (s\<lparr>se_rounds := rs\<rparr>)"
| unary: "client s \<Longrightarrow> h2c_unary e clk path req resp cap timeout s = Ret (r, s') \<Longrightarrow>
    (\<And>buf. resp = Some buf \<Longrightarrow> length buf \<le> cap) \<Longrightarrow> client s'"
| opened: "client s \<Longrightarrow> h2c_stream_open e clk path req s = Ret (r, s') \<Longrightarrow> client s'"
| read: "client s \<Longrightarrow> i < H2C_MAX_STREAMS \<Longrightarrow> h2c_stream_next e clk i timeout s = Ret (r, s') \<Longrightarrow> client s'"
| shut: "client s \<Longrightarrow> i < H2C_MAX_STREAMS \<Longrightarrow> client (s\<lparr>se_conn := h2c_stream_close e (se_conn s) i\<rparr>)"

lemma client_ok: "client s \<Longrightarrow> conn_ok (se_conn s)"
proof (induction rule: client.induct)
  case (connected e clk path ns up preface rs r s)
  then show ?case by (rule connect_ok)
next
  case (unary s e clk path req resp cap timeout r s')
  then show ?case using unary_ok by blast
next
  case (opened s e clk path req r s')
  then show ?case using open_ok by blast
next
  case (read s i e clk timeout r s')
  then show ?case using sound.next_loop_kept [OF read(2)] by (auto simp: h2c_stream_next_def Let_def split: if_splits)
qed (simp_all add: close_ok)

text \<open>
  C38: In every state a client can bring a connection to, whatever the server sends and however
  the socket, the allocator and the clock behave, the connection is well-formed: both receive
  windows lie between 0 and the advertised 65535 and leave room for every byte still held, no
  response is longer than the caller's buffer, no queue exceeds its cap, the header tables
  are within their limits, and a dead connection has no waiting stream.
\<close>

theorem connections_well_formed:
  assumes "client s"
  shows "conn_ok (se_conn s) \<and> dyn_ok (c_dyn_enc (se_conn s)) \<and> dyn_ok (c_dyn_dec (se_conn s)) \<and>
    0 \<le> c_recv_window (se_conn s) \<and> c_recv_window (se_conn s) \<le> 65535 \<and>
    (\<forall>i < 8. let st = strm (se_conn s) i in
       0 \<le> s_recv_window st \<and> s_recv_window st + held st \<le> 65535 \<and>
       sum_list (map length (s_queue st)) \<le> H2C_QUEUE_MAX_BYTES \<and>
       (\<forall>buf. s_type st = ST_UNARY \<and> s_resp st = Some buf \<longrightarrow> length buf \<le> s_resp_cap st) \<and>
       (c_dead (se_conn s) \<and> s_in_use st \<longrightarrow> s_state st = SS_DONE))"
proof -
  let ?c = "se_conn s"
  have ok: "conn_ok ?c" by (rule client_ok [OF assms])
  have "stream_room 0 (strm ?c i)" "c_dead ?c \<and> s_in_use (strm ?c i) \<longrightarrow> s_state (strm ?c i) = SS_DONE" if "i < 8" for i
    using ok that by (auto simp: conn_ok_def conn_room_def H2C_MAX_STREAMS_def dead_done_def)
  then have "let st = strm ?c i in 0 \<le> s_recv_window st \<and> s_recv_window st + held st \<le> 65535 \<and>
      sum_list (map length (s_queue st)) \<le> H2C_QUEUE_MAX_BYTES \<and>
      (\<forall>buf. s_type st = ST_UNARY \<and> s_resp st = Some buf \<longrightarrow> length buf \<le> s_resp_cap st) \<and>
      (c_dead ?c \<and> s_in_use st \<longrightarrow> s_state st = SS_DONE)" if "i < 8" for i
    using that by (fastforce simp: Let_def stream_room_def resp_ok_def queue_ok_def H2_INIT_WINDOW_def)
  moreover have "tables_ok ?c" "0 \<le> c_recv_window ?c" using ok by (simp_all add: conn_ok_def conn_room_def)
  ultimately show ?thesis using ok conn_ok_recv [OF ok] by (simp add: H2_INIT_WINDOW_def tables_ok_def)
qed

text \<open>A handshake: the server's empty SETTINGS frame arrives.\<close>

definition demo_rounds :: "wait_round list" where
  "demo_rounds = [\<lparr>wr_now = 0, wr_poll = Poll_ready, wr_events = [Rd_data [0, 0, 0, 4, 0, 0, 0, 0, 0]]\<rparr>]"

lemma demo_fill:
  "frame_reader_fill ample \<lparr>rx_hdr = [], rx_payload = [], rx_cap = 0, rx_len = 0, rx_type = 0, rx_flags = 0, rx_sid = 0\<rparr>
     [Rd_data [0, 0, 0, 4, 0, 0, 0, 0, 0]] =
   (1, \<lparr>rx_hdr = [0, 0, 0, 4, 0, 0, 0, 0, 0], rx_payload = [], rx_cap = 0, rx_len = 0, rx_type = 4, rx_flags = 0, rx_sid = 0\<rparr>, [])"
  by (simp add: frame_reader_fill.simps rx_parse_def sys_read_def Let_def numeral_2_eq_2 numeral_3_eq_3)

lemma demo_idle:
  "frame_reader_fill ample \<lparr>rx_hdr = [], rx_payload = [], rx_cap = 0, rx_len = 0, rx_type = 4, rx_flags = 0, rx_sid = 0\<rparr> [] =
   (0, \<lparr>rx_hdr = [], rx_payload = [], rx_cap = 0, rx_len = 0, rx_type = 4, rx_flags = 0, rx_sid = 0\<rparr>, [])"
  by (simp add: frame_reader_fill.simps sys_read_def)

lemma demo_poll:
  assumes "c_rx c = \<lparr>rx_hdr = [], rx_payload = [], rx_cap = 0, rx_len = 0, rx_type = 0, rx_flags = 0, rx_sid = 0\<rparr>" "\<not> c_dead c"
  shows "\<exists>c'. conn_poll_once demo_h2_env c Poll_ready [Rd_data [0, 0, 0, 4, 0, 0, 0, 0, 0]] = (1, c', []) \<and> c_ready c'"
proof -
  have "\<exists>c'. poll_frames (Suc (Suc n)) demo_h2_env c [Rd_data [0, 0, 0, 4, 0, 0, 0, 0, 0]] = (1, c', []) \<and> c_ready c'" for n
    using assms
    by (simp add: process_one_frame_def demo_h2_env_def demo_fill demo_idle Let_def dispatch_frame_def rx_frame_def h2_types
        has_flag_def handle_settings_def frame_write_settings_def frame_write_def frame_reader_reset_def)
  from this [of 126] show ?thesis using assms(2) by (simp add: conn_poll_once_def H2C_FRAME_BUDGET_def)
qed

lemma demo_connects:
  "\<exists>s. h2c_connect demo_h2_env (\<lambda>_. 0) [] [] True True demo_rounds = Ret (0, Some s) \<and> c_ready (se_conn s)"
proof -
  obtain rc c where w: "frame_write_settings demo_h2_env (fresh_conn ''default'') 0 our_settings = (rc, c)" by force
  then have c: "c_rx c = \<lparr>rx_hdr = [], rx_payload = [], rx_cap = 0, rx_len = 0, rx_type = 0, rx_flags = 0, rx_sid = 0\<rparr>"
      "\<not> c_dead c" "\<not> c_ready c" "rc = 0"
    by (auto simp: frame_write_settings_def frame_write_def fresh_conn_def our_settings_def demo_h2_env_def)
  obtain c1 where p: "conn_poll_once demo_h2_env c Poll_ready [Rd_data [0, 0, 0, 4, 0, 0, 0, 0, 0]] = (1, c1, [])" "c_ready c1"
    using demo_poll [OF c(1,2)] by blast
  have "await_ready demo_h2_env dl c [] demo_rounds = Ret (0, \<lparr>se_conn = c1, se_socket = [], se_rounds = []\<rparr>)" if "0 < dl" for dl
    using c p that by (simp add: demo_rounds_def time_left_ms_def)
  then show ?thesis using c(4) p(2) w
    by (simp add: h2c_connect_def Let_def H2C_MAX_SOCK_PATH_def H2C_MAX_NAMESPACE_def H2C_HANDSHAKE_MS_def)
qed

theorem connections_well_formed_witness:
  "\<exists>s. client s \<and> c_ready (se_conn s) \<and> c_recv_window (se_conn s) \<le> 65535"
proof -
  obtain s where s: "h2c_connect demo_h2_env (\<lambda>_. 0) [] [] True True demo_rounds = Ret (0, Some s)" "c_ready (se_conn s)"
    using demo_connects by blast
  then show ?thesis using connections_well_formed [OF client.connected [OF s(1)]] client.connected [OF s(1)] by blast
qed

end
