(* ===== verification/H2c_Sending.thy ===== *)
theory H2c_Sending
  imports H2c_Session
begin

text \<open>
  Sending a request and waiting for its answer, from \<open>containerd/h2c.c\<close>: what goes on the wire,
  that no DATA frame exceeds the peer's credit, that a unary call returns by its deadline and gives its
  slot back. The stack buffer of \<open>send_request\<close> is large enough only while the peer keeps its
  default frame size.
\<close>

section \<open>What a request puts on the wire\<close>

fun data_frames :: "u32 \<Rightarrow> bytes list \<Rightarrow> h2_frame list" where
  "data_frames sid [] = []"
| "data_frames sid (ch # chs) =
     \<lparr>fr_type = H2_DATA, fr_flags = (if chs = [] then H2_FLAG_END_STREAM else 0), fr_sid = sid, fr_payload = ch\<rparr>
       # data_frames sid chs"

lemma wait_window_end:
  "wait_window e dl i n c sc rs = Ret (r, s) \<Longrightarrow>
   (case r of None \<Rightarrow> has_credit (se_conn s) i n | Some err \<Rightarrow> err < 0)"
proof (induction e dl i n c sc rs rule: wait_window.induct)
  case (2 e dl i n c sc w rs)
  obtain rc c1 sc1 where p: "conn_poll_once e c (wr_poll w) (sc @ wr_events w) = (rc, c1, sc1)" by (metis prod_cases3)
  show ?case using "2.prems" "2.IH" [OF _ _ p [symmetric]] p by (auto simp: h2c_errs split: if_splits)
qed (auto split: if_splits)

lemma credit_covers:
  assumes "has_credit c i n" "n \<le> H2C_DATA_BUF"
  shows "int n \<le> c_send_window c" "int n \<le> s_send_window (strm c i)"
proof -
  have "s32 (int n) = int n" using assms(2) by (simp add: s32_def H2C_DATA_BUF_def)
  then show "int n \<le> c_send_window c" "int n \<le> s_send_window (strm c i)" using assms(1) by (simp_all add: has_credit_def)
qed

lemma send_chunk_fits: "send_chunk e clk i ch fin s = Ret (rc, s') \<Longrightarrow> length ch \<le> H2C_DATA_BUF"
  by (simp add: send_chunk_def split: if_splits)

lemma chunk_sent:
  assumes r: "send_chunk e clk i ch fin s = Ret (rc, s')" "\<not> rc < 0" and i: "i < length (c_streams (se_conn s))"
  shows "\<exists>fs. c_out (se_conn s') = c_out (se_conn s) @ fs \<and>
      filter own_frame fs = [\<lparr>fr_type = H2_DATA, fr_flags = (if fin then H2_FLAG_END_STREAM else 0),
        fr_sid = s_id (strm (se_conn s) i), fr_payload = ch\<rparr>]"
    "length (c_streams (se_conn s')) = length (c_streams (se_conn s))"
    "s_id (strm (se_conn s') i) = s_id (strm (se_conn s) i)"
    "0 \<le> c_send_window (se_conn s')" "0 \<le> s_send_window (strm (se_conn s') i)"
proof -
  have n: "length ch \<le> H2C_DATA_BUF" by (rule send_chunk_fits [OF r(1)])
  obtain dl s1 where w: "wait_window e dl i (length ch) (se_conn s) (se_socket s) (se_rounds s) = Ret (None, s1)"
    and s': "s' = s1\<lparr>se_conn := snd (frame_write e (debited (se_conn s1) i (length ch)) H2_DATA
         (if fin then H2_FLAG_END_STREAM else 0) (s_id (strm (se_conn s1) i)) ch)\<rparr>"
    using r(1)
  proof (cases rule: send_chunk_cases)
    case (1 dl err)
    then show ?thesis using wait_window_end [OF 1(1)] r(2) by simp
  qed blast
  have sv: "served (se_conn s) (se_conn s1)" by (rule serving.wait_window_kept [OF w])
  have "has_credit (se_conn s1) i (length ch)" using wait_window_end [OF w] by simp
  note cr = credit_covers [OF this n]
  have "\<not> length ch > 0xffffff" using n by (simp add: H2C_DATA_BUF_def)
  then have c': "se_conn s' = (debited (se_conn s1) i (length ch))\<lparr>c_out := c_out (se_conn s1) @
      [\<lparr>fr_type = H2_DATA, fr_flags = (if fin then H2_FLAG_END_STREAM else 0), fr_sid = s_id (strm (se_conn s1) i), fr_payload = ch\<rparr>]\<rparr>"
    by (simp add: s' frame_write_def debited_def)
  show "\<exists>fs. c_out (se_conn s') = c_out (se_conn s) @ fs \<and>
      filter own_frame fs = [\<lparr>fr_type = H2_DATA, fr_flags = (if fin then H2_FLAG_END_STREAM else 0),
        fr_sid = s_id (strm (se_conn s) i), fr_payload = ch\<rparr>]"
    using sv i by (auto simp: served_def c' own_frame_def)
  show "length (c_streams (se_conn s')) = length (c_streams (se_conn s))" "s_id (strm (se_conn s') i) = s_id (strm (se_conn s) i)"
      "0 \<le> c_send_window (se_conn s')" "0 \<le> s_send_window (strm (se_conn s') i)"
    using sv i cr by (auto simp: served_def c' debited_def nth_list_update)
qed

lemma loop_sent:
  assumes "send_loop fuel e clk m i body s = Ret (0, s')" "i < length (c_streams (se_conn s))" "body \<noteq> []" "0 < m"
  shows "\<exists>chunks fs. c_out (se_conn s') = c_out (se_conn s) @ fs \<and>
    filter own_frame fs = data_frames (s_id (strm (se_conn s) i)) chunks \<and> concat chunks = body \<and> chunks \<noteq> [] \<and>
    (\<forall>ch \<in> set chunks. ch \<noteq> [] \<and> length ch \<le> m) \<and>
    0 \<le> c_send_window (se_conn s') \<and> 0 \<le> s_send_window (strm (se_conn s') i)"
  using assms
proof (induction fuel arbitrary: body s)
  case (Suc fuel)
  let ?n = "min (length body) m"
  obtain rc s1 where ch: "send_chunk e clk i (take ?n body) (?n \<ge> length body) s = Ret (rc, s1)" "\<not> rc < 0"
      "send_loop fuel e clk m i (drop ?n body) s1 = Ret (0, s')"
    using Suc.prems(1,3) by (auto simp: Let_def split: outcome.splits if_splits)
  note c = chunk_sent [OF ch(1,2) Suc.prems(2)]
  obtain fs where fs: "c_out (se_conn s1) = c_out (se_conn s) @ fs"
      "filter own_frame fs = [\<lparr>fr_type = H2_DATA, fr_flags = (if ?n \<ge> length body then H2_FLAG_END_STREAM else 0),
        fr_sid = s_id (strm (se_conn s) i), fr_payload = take ?n body\<rparr>]" using c(1) by blast
  have n: "take ?n body \<noteq> []" "length (take ?n body) \<le> m" using Suc.prems(3,4) by simp_all
  show ?case
  proof (cases "?n \<ge> length body")
    case True
    then have "drop ?n body = []" "take ?n body = body" by simp_all
    moreover from this ch(3) have "s1 = s'" by (cases fuel) simp_all
    ultimately show ?thesis using fs c(4,5) True n
      by (intro exI [of _ "[body]"] exI [of _ fs]) simp
  next
    case False
    then have "drop ?n body \<noteq> []" by simp
    from Suc.IH [OF ch(3) _ this Suc.prems(4)] Suc.prems(2) c(2,3)
    obtain chunks fs' where rest: "c_out (se_conn s') = c_out (se_conn s1) @ fs'"
        "filter own_frame fs' = data_frames (s_id (strm (se_conn s) i)) chunks" "concat chunks = drop ?n body" "chunks \<noteq> []"
        "\<forall>ch \<in> set chunks. ch \<noteq> [] \<and> length ch \<le> m" "0 \<le> c_send_window (se_conn s')" "0 \<le> s_send_window (strm (se_conn s') i)"
      by auto
    then show ?thesis using fs False n
      by (intro exI [of _ "take ?n body # chunks"] exI [of _ "fs @ fs'"]) simp
  qed
qed (auto split: if_splits)

lemma request_sent:
  assumes "conn_ok (se_conn s)" and "i < 8" and "send_request e clk i path req s = Ret (0, s')"
    and "he_mem e = ample" and "length path + length (c_namespace (se_conn s)) \<le> 800" and "peer_in_step (se_conn s) d"
  shows "\<exists>block chunks fs. c_out (se_conn s') = c_out (se_conn s) @ fs \<and>
    filter own_frame fs = \<lparr>fr_type = H2_HEADERS, fr_flags = H2_FLAG_END_HEADERS,
        fr_sid = s_id (strm (se_conn s) i), fr_payload = block\<rparr> # data_frames (s_id (strm (se_conn s) i)) chunks \<and>
    snd (hpack_decode_block ample d block H2C_MAX_FIELDS) = Some (all_request_fields path (c_namespace (se_conn s))) \<and>
    concat chunks = grpc_frame req \<and> (\<forall>ch \<in> set chunks. ch \<noteq> [] \<and> length ch \<le> c_srv_max_frame (se_conn s)) \<and>
    0 \<le> c_send_window (se_conn s') \<and> 0 \<le> s_send_window (strm (se_conn s') i)"
proof -
  let ?c = "se_conn s"
  have ok: "dyn_ok (c_dyn_enc ?c)" "0 < c_srv_max_frame ?c" "i < length (c_streams ?c)"
    using assms(1,2) by (auto simp: conn_ok_def conn_room_def tables_ok_def H2C_MAX_STREAMS_def)
  obtain c1 block where b: "build_request_headers e ?c path H2C_REQ_HDR_BLOCK = (c1, Some block)"
      "length block \<le> H2C_REQ_HDR_BLOCK"
      "snd (hpack_decode_block ample d block H2C_MAX_FIELDS) = Some (all_request_fields path (c_namespace ?c))"
    using request_headers_decoded [OF ok(1) assms(4,5,6)] by auto
  have c1: "c_streams c1 = c_streams ?c" "c_out c1 = c_out ?c"
    using build_headers_same(1,2) [of e ?c path H2C_REQ_HDR_BLOCK] b(1) by auto
  let ?h = "\<lparr>fr_type = H2_HEADERS, fr_flags = H2_FLAG_END_HEADERS, fr_sid = s_id (strm ?c i), fr_payload = block\<rparr>"
  have "\<not> length block > 0xffffff" using b(2) by (simp add: H2C_REQ_HDR_BLOCK_def)
  then obtain r where "frame_write e c1 H2_HEADERS H2_FLAG_END_HEADERS (s_id (strm c1 i)) block = (r, c1\<lparr>c_out := c_out ?c @ [?h]\<rparr>)"
    by (simp add: frame_write_def c1)
  then have l: "send_loop (length (grpc_frame req)) e clk (c_srv_max_frame ?c) i (grpc_frame req)
      (s\<lparr>se_conn := c1\<lparr>c_out := c_out ?c @ [?h]\<rparr>\<rparr>) = Ret (0, s')"
    using assms(3) b(1) by (auto simp: send_request_def Let_def h2c_errs split: if_splits)
  have "grpc_frame req \<noteq> []" by (simp add: grpc_frame_def)
  from loop_sent [OF l _ this ok(2)] ok(3) c1(1)
  obtain chunks fs where fs: "c_out (se_conn s') = (c_out ?c @ [?h]) @ fs"
      "filter own_frame fs = data_frames (s_id (strm ?c i)) chunks" "concat chunks = grpc_frame req"
      "\<forall>ch \<in> set chunks. ch \<noteq> [] \<and> length ch \<le> c_srv_max_frame ?c"
      "0 \<le> c_send_window (se_conn s')" "0 \<le> s_send_window (strm (se_conn s') i)" by auto
  then show ?thesis using b(3)
    by (intro exI [of _ block] exI [of _ chunks] exI [of _ "?h # fs"]) (simp add: own_frame_def)
qed

text \<open>
  The socket may fail at any frame: \<open>he_send\<close> says at which. When it fails at a DATA frame the call
  ends there, so the state it leaves shows the windows right after that frame was charged.
\<close>

definition data_write_failed :: "h2_env \<Rightarrow> nat \<Rightarrow> strim_h2c \<Rightarrow> bool" where
  "data_write_failed e n c \<longleftrightarrow> n < length (c_out c) \<and> fr_type (last (c_out c)) = H2_DATA \<and>
     \<not> he_send e (length (c_out c) - 1)"

lemma served_write_failed: "served c c' \<Longrightarrow> \<not> data_write_failed e n c \<Longrightarrow> \<not> data_write_failed e n c'"
proof -
  assume sv: "served c c'" and nf: "\<not> data_write_failed e n c"
  obtain fs where fs: "c_out c' = c_out c @ fs" "filter own_frame fs = []" using sv by (auto simp: served_def)
  show ?thesis
  proof (cases "fs = []")
    case False
    then have "\<not> own_frame (last fs)" using fs(2) by (simp add: filter_empty_conv)
    then show ?thesis using False fs(1) by (simp add: data_write_failed_def own_frame_def)
  qed (use nf fs(1) in \<open>simp add: data_write_failed_def\<close>)
qed

lemma chunk_credit:
  assumes r: "send_chunk e clk i ch fin s = Ret (rc, s')" and i: "i < length (c_streams (se_conn s))"
    and nf: "\<not> data_write_failed e n (se_conn s)" and wf: "data_write_failed e n (se_conn s')"
  shows "rc = H2C_ERR_IO \<and> 0 \<le> c_send_window (se_conn s') \<and> 0 \<le> s_send_window (strm (se_conn s') i)"
  using r
proof (cases rule: send_chunk_cases)
  case (1 dl err)
  then show ?thesis using served_write_failed [OF serving.wait_window_kept [OF 1(1)] nf] wf by simp
next
  case (2 dl s1)
  let ?c = "debited (se_conn s1) i (length ch)" and ?fl = "if fin then H2_FLAG_END_STREAM else 0"
  have n: "length ch \<le> H2C_DATA_BUF" by (rule send_chunk_fits [OF r])
  then have small: "\<not> length ch > 0xffffff" by (simp add: H2C_DATA_BUF_def)
  have sv: "served (se_conn s) (se_conn s1)" by (rule serving.wait_window_kept [OF 2(1)])
  have "has_credit (se_conn s1) i (length ch)" using wait_window_end [OF 2(1)] by simp
  note cr = credit_covers [OF this n]
  have w: "c_send_window (se_conn s') = c_send_window (se_conn s1) - int (length ch)"
      "s_send_window (strm (se_conn s') i) = s_send_window (strm (se_conn s1) i) - int (length ch)"
      "length (c_out (se_conn s')) - 1 = length (c_out (se_conn s1))"
    using small sv i by (simp_all add: 2(2) frame_write_def debited_def served_def)
  have "\<not> he_send e (length (c_out (se_conn s1)))" using wf w(3) by (simp add: data_write_failed_def)
  then have "fst (frame_write e ?c H2_DATA ?fl (s_id (strm (se_conn s1) i)) ch) < 0"
    using small by (simp add: frame_write_def debited_def)
  then show ?thesis using w(1,2) cr 2(3) by simp
qed

lemma chunk_not_failed:
  assumes "send_chunk e clk i ch fin s = Ret (rc, s')" "\<not> rc < 0" "i < length (c_streams (se_conn s))"
    and "\<not> data_write_failed e n (se_conn s)"
  shows "\<not> data_write_failed e n (se_conn s')"
  using chunk_credit [OF assms(1,3,4)] assms(2) by (auto simp: h2c_errs)

lemma loop_credit:
  assumes "send_loop fuel e clk m i body s = Ret (rc, s')" "i < length (c_streams (se_conn s))"
    and "\<not> data_write_failed e n (se_conn s)" "data_write_failed e n (se_conn s')"
  shows "rc = H2C_ERR_IO \<and> 0 \<le> c_send_window (se_conn s') \<and> 0 \<le> s_send_window (strm (se_conn s') i)"
  using assms
proof (induction fuel arbitrary: body s)
  case (Suc fuel)
  let ?n = "min (length body) m"
  have "body \<noteq> []" using Suc.prems by auto
  then obtain rc1 s1 where ch: "send_chunk e clk i (take ?n body) (?n \<ge> length body) s = Ret (rc1, s1)"
      "(if rc1 < 0 then Ret (rc1, s1) else send_loop fuel e clk m i (drop ?n body) s1) = Ret (rc, s')"
    using Suc.prems(1) by (auto simp: Let_def split: outcome.splits)
  show ?case
  proof (cases "rc1 < 0")
    case True
    then show ?thesis using chunk_credit [OF ch(1) Suc.prems(2,3)] ch(2) Suc.prems(4) by simp
  next
    case False
    have "i < length (c_streams (se_conn s1))" using chunk_sent(2) [OF ch(1) False Suc.prems(2)] Suc.prems(2) by simp
    from Suc.IH [OF _ this chunk_not_failed [OF ch(1) False Suc.prems(2,3)] Suc.prems(4)] show ?thesis
      using ch(2) False by simp
  qed
qed (auto split: if_splits)

lemma request_credit:
  assumes "send_request e clk i path req s = Ret (rc, s')" "i < length (c_streams (se_conn s))"
    and "data_write_failed e (length (c_out (se_conn s))) (se_conn s')"
  shows "rc = H2C_ERR_IO \<and> 0 \<le> c_send_window (se_conn s') \<and> 0 \<le> s_send_window (strm (se_conn s') i)"
proof -
  let ?c = "se_conn s" and ?n = "length (c_out (se_conn s))"
  obtain c1 blk where b: "build_request_headers e ?c path H2C_REQ_HDR_BLOCK = (c1, blk)" by force
  have c1: "c_streams c1 = c_streams ?c" "c_out c1 = c_out ?c"
    using build_headers_same(1,2) [of e ?c path H2C_REQ_HDR_BLOCK] b by auto
  then have nf1: "\<not> data_write_failed e ?n c1" by (simp add: data_write_failed_def)
  show ?thesis
  proof (cases blk)
    case (Some w)
    obtain r c2 where f: "frame_write e c1 H2_HEADERS H2_FLAG_END_HEADERS (s_id (strm c1 i)) w = (r, c2)" by force
    have "c_out c2 = c_out ?c \<or> c_out c2 \<noteq> [] \<and> fr_type (last (c_out c2)) = H2_HEADERS" "c_streams c2 = c_streams ?c"
      using f c1 by (auto simp: frame_write_def split: if_splits)
    then have "\<not> data_write_failed e ?n c2" "i < length (c_streams c2)"
      using assms(2) by (auto simp: data_write_failed_def h2_types)
    then show ?thesis
      using assms(1,3) b Some f loop_credit [of "length (grpc_frame req)" e clk "c_srv_max_frame ?c" i "grpc_frame req" "s\<lparr>se_conn := c2\<rparr>"]
      by (auto simp: send_request_def Let_def split: if_splits)
  qed (use assms(1,3) b nf1 in \<open>auto simp: send_request_def Let_def\<close>)
qed


section \<open>Calls return\<close>

text \<open>
  A wait ends with the first round whose clock reading has reached the deadline, if not
  earlier. The round \<open>z\<close> below is one that comes after every deadline of the call.
\<close>

definition past :: "wait_round \<Rightarrow> base_clock \<Rightarrow> int \<Rightarrow> bool" where
  "past z clk t \<longleftrightarrow> (\<forall>n. clk n + t \<le> wr_now z)"

lemma time_left_past: "dl \<le> now \<Longrightarrow> time_left_ms dl now \<le> 0"
  by (simp add: time_left_ms_def)

lemma wait_window_returns:
  "rs = rs0 @ [z] \<Longrightarrow> dl \<le> wr_now z \<Longrightarrow>
   \<exists>r s rs1. wait_window e dl i n c sc rs = Ret (r, s) \<and> (r = None \<longrightarrow> se_rounds s = rs1 @ [z])"
proof (induction e dl i n c sc rs arbitrary: rs0 rule: wait_window.induct)
  case (2 e dl i n c sc w rs)
  obtain rc c1 sc1 where p: "conn_poll_once e c (wr_poll w) (sc @ wr_events w) = (rc, c1, sc1)" by (metis prod_cases3)
  show ?case
  proof (cases rs0)
    case Nil
    then show ?thesis using "2.prems" time_left_past by auto
  next
    case (Cons w' rs1)
    then have "rs = rs1 @ [z]" using "2.prems"(1) by simp
    then have "\<exists>r s rs1. wait_window e dl i n c1 sc1 rs = Ret (r, s) \<and> (r = None \<longrightarrow> se_rounds s = rs1 @ [z])"
      if "\<not> has_credit c i n" "\<not> time_left_ms dl (wr_now w) \<le> 0" "\<not> rc < 0" "s_state (strm c1 i) \<noteq> SS_DONE"
      using "2.IH" [OF that(1,2) p [symmetric] refl that(3,4) _ "2.prems"(2)] by blast
    then show ?thesis using p "2.prems"(1) by (auto simp: Cons)
  qed
qed simp

lemma await_done_returns:
  "rs = rs0 @ [z] \<Longrightarrow> dl \<le> wr_now z \<Longrightarrow> \<exists>r s. await_done e dl i c sc rs = Ret (r, s)"
proof (induction e dl i c sc rs arbitrary: rs0 rule: await_done.induct)
  case (2 e dl i c sc w rs)
  obtain rc c1 sc1 where p: "conn_poll_once e c (wr_poll w) (sc @ wr_events w) = (rc, c1, sc1)" by (metis prod_cases3)
  have "\<exists>r s. unary_result s0 i = (r, s)" for s0 by (metis surj_pair)
  then show ?case
  proof (cases rs0)
    case Nil
    then show ?thesis using "2.prems" time_left_past [of dl "wr_now w"] by (auto simp: Let_def) (metis surj_pair)
  next
    case (Cons w' rs1)
    then have "rs = rs1 @ [z]" using "2.prems"(1) by simp
    then have "\<exists>r s. await_done e dl i c1 sc1 rs = Ret (r, s)"
      if "s_state (strm c i) \<noteq> SS_DONE" "\<not> time_left_ms dl (wr_now w) \<le> 0" "\<not> rc < 0"
      using "2.IH" [OF that(1,2) p [symmetric] refl refl that(3), of rs1] "2.prems"(2) by blast
    then show ?thesis using p by (auto simp: Let_def) (metis surj_pair)+
  qed
qed simp

lemma send_chunk_returns:
  assumes "length ch \<le> H2C_DATA_BUF" "se_rounds s = rs0 @ [z]" "past z clk H2C_DEFAULT_UNARY_TIMEOUT_MS"
  shows "\<exists>rc s' rs1. send_chunk e clk i ch fin s = Ret (rc, s') \<and> (\<not> rc < 0 \<longrightarrow> se_rounds s' = rs1 @ [z])"
proof -
  let ?dl = "clk (length (c_out (se_conn s))) + H2C_DEFAULT_UNARY_TIMEOUT_MS"
  obtain r s1 rs1 where w: "wait_window e ?dl i (length ch) (se_conn s) (se_socket s) (se_rounds s) = Ret (r, s1)"
      "r = None \<longrightarrow> se_rounds s1 = rs1 @ [z]"
    using wait_window_returns [OF assms(2)] assms(3) unfolding past_def by blast
  show ?thesis using assms(1) w wait_window_end [OF w(1)]
    by (cases r) (auto simp: send_chunk_def Let_def split: prod.splits)
qed

lemma send_loop_returns:
  "length body \<le> fuel \<Longrightarrow> 0 < m \<Longrightarrow> m \<le> H2C_DATA_BUF \<Longrightarrow> se_rounds s = rs0 @ [z] \<Longrightarrow>
   past z clk H2C_DEFAULT_UNARY_TIMEOUT_MS \<Longrightarrow>
   \<exists>rc s' rs1. send_loop fuel e clk m i body s = Ret (rc, s') \<and> (\<not> rc < 0 \<longrightarrow> se_rounds s' = rs1 @ [z])"
proof (induction fuel arbitrary: body s rs0)
  case (Suc fuel)
  show ?case
  proof (cases "body = []")
    case False
    let ?n = "min (length body) m"
    have "length (take ?n body) \<le> H2C_DATA_BUF" using Suc.prems(3) by simp
    then obtain rc s1 rs1 where ch: "send_chunk e clk i (take ?n body) (?n \<ge> length body) s = Ret (rc, s1)"
        "\<not> rc < 0 \<longrightarrow> se_rounds s1 = rs1 @ [z]"
      using send_chunk_returns [OF _ Suc.prems(4,5)] by blast
    have "length (drop ?n body) \<le> fuel" using Suc.prems(1,2) False by (cases body) auto
    from Suc.IH [OF this Suc.prems(2,3) _ Suc.prems(5)] ch show ?thesis using False by (auto simp: Let_def)
  qed (use Suc.prems(4) in simp)
qed simp

lemma send_request_returns:
  assumes "0 < c_srv_max_frame (se_conn s)" "c_srv_max_frame (se_conn s) \<le> H2C_DATA_BUF" "se_rounds s = rs0 @ [z]"
    "past z clk H2C_DEFAULT_UNARY_TIMEOUT_MS"
  shows "\<exists>rc s' rs1. send_request e clk i path req s = Ret (rc, s') \<and> (\<not> rc < 0 \<longrightarrow> se_rounds s' = rs1 @ [z])"
proof -
  let ?c = "se_conn s"
  obtain c1 blk where b: "build_request_headers e ?c path H2C_REQ_HDR_BLOCK = (c1, blk)" by force
  show ?thesis
  proof (cases blk)
    case (Some w)
    obtain r c2 where f: "frame_write e c1 H2_HEADERS H2_FLAG_END_HEADERS (s_id (strm c1 i)) w = (r, c2)" by force
    have "\<exists>rc s' rs1. send_loop (length (grpc_frame req)) e clk (c_srv_max_frame ?c) i (grpc_frame req) (s\<lparr>se_conn := c2\<rparr>) =
        Ret (rc, s') \<and> (\<not> rc < 0 \<longrightarrow> se_rounds s' = rs1 @ [z])"
      using assms by (intro send_loop_returns) simp_all
    then show ?thesis using b Some f by (auto simp: send_request_def Let_def h2c_errs)
  qed (use b in \<open>simp add: send_request_def Let_def h2c_errs\<close>)
qed

section \<open>Slots are given back\<close>

definition slots_kept :: "strim_h2c \<Rightarrow> strim_h2c \<Rightarrow> bool" where
  "slots_kept c c' \<longleftrightarrow> length (c_streams c') = length (c_streams c) \<and>
     (\<forall>j < length (c_streams c). s_in_use (strm c' j) \<longrightarrow> s_in_use (strm c j))"

lemma slots_kept_refl: "slots_kept c c"
  by (simp add: slots_kept_def)

lemma slots_kept_trans: "slots_kept c c1 \<Longrightarrow> slots_kept c1 c2 \<Longrightarrow> slots_kept c c2"
  by (simp add: slots_kept_def)

lemma served_slots: "served c c' \<Longrightarrow> slots_kept c c'"
  by (simp add: served_def slots_kept_def)

lemma send_chunk_slots:
  assumes "send_chunk e clk i ch fin s = Ret (rc, s')"
  shows "slots_kept (se_conn s) (se_conn s')"
  using assms
proof (cases rule: send_chunk_cases)
  case (1 dl err)
  then show ?thesis using serving.wait_window_kept served_slots by blast
next
  case (2 dl s1)
  have "slots_kept (se_conn s) (se_conn s1)" using served_slots [OF serving.wait_window_kept [OF 2(1)]] .
  moreover have "slots_kept (se_conn s1) (se_conn s')"
    by (cases "i < length (c_streams (se_conn s1))") (auto simp: 2(2) slots_kept_def debited_def nth_list_update list_update_beyond)
  ultimately show ?thesis by (rule slots_kept_trans)
qed

lemma send_loop_slots: "send_loop fuel e clk m i body s = Ret (rc, s') \<Longrightarrow> slots_kept (se_conn s) (se_conn s')"
proof (induction fuel arbitrary: body s)
  case (Suc fuel)
  then show ?case
    by (auto simp: Let_def slots_kept_refl dest: send_chunk_slots intro: slots_kept_trans split: if_splits outcome.splits)
qed (auto simp: slots_kept_refl split: if_splits)

lemma send_request_slots:
  assumes "send_request e clk i path req s = Ret (rc, s')"
  shows "slots_kept (se_conn s) (se_conn s')"
proof -
  obtain c1 blk where b: "build_request_headers e (se_conn s) path H2C_REQ_HDR_BLOCK = (c1, blk)" by force
  have c1: "slots_kept (se_conn s) c1"
    using build_headers_same(1) [of e "se_conn s" path H2C_REQ_HDR_BLOCK] b by (simp add: slots_kept_def)
  show ?thesis
  proof (cases blk)
    case (Some w)
    obtain r c2 where f: "frame_write e c1 H2_HEADERS H2_FLAG_END_HEADERS (s_id (strm c1 i)) w = (r, c2)" by force
    have "c_streams c2 = c_streams c1" by (metis f frame_write_streams snd_conv)
    then have "slots_kept (se_conn s) c2" using c1 by (simp add: slots_kept_def)
    then show ?thesis using assms b Some f send_loop_slots [of _ e clk _ i _ "s\<lparr>se_conn := c2\<rparr>" rc s']
      by (auto simp: send_request_def Let_def split: if_splits intro: slots_kept_trans)
  qed (use assms b c1 in \<open>auto simp: send_request_def Let_def\<close>)
qed

lemma destroy_frees: "i < length (c_streams c) \<Longrightarrow> \<not> s_in_use (strm (destroy_strm c i) i)"
  by (simp add: destroy_strm_def stream_destroy_def)

lemma unary_result_frees:
  "unary_result s i = (r, s') \<Longrightarrow> i < length (c_streams (se_conn s)) \<Longrightarrow> \<not> s_in_use (strm (se_conn s') i)"
  using destroy_frees by (auto simp: unary_result_def Let_def split: if_splits)

lemma await_done_frees:
  "await_done e dl i c sc rs = Ret (r, s) \<Longrightarrow> i < length (c_streams c) \<Longrightarrow> \<not> s_in_use (strm (se_conn s) i)"
proof (induction e dl i c sc rs rule: await_done.induct)
  case (1 e dl i c sc)
  then show ?case using unary_result_frees by (fastforce split: if_splits)
next
  case (2 e dl i c sc w rs)
  obtain rc c1 sc1 where p: "conn_poll_once e c (wr_poll w) (sc @ wr_events w) = (rc, c1, sc1)" by (metis prod_cases3)
  have i: "i < length (c_streams c1)" using served_poll [OF p] "2.prems"(2) by (simp add: served_def)
  from "2.prems"(1) p show ?case
  proof (cases rule: await_done_cases)
    case (1 s0)
    then show ?thesis using unary_result_frees "2.prems"(2) by blast
  next
    case (2 s0)
    then show ?thesis using unary_result_frees i by blast
  next
    case 3
    then show ?thesis using destroy_frees "2.prems"(2) by simp
  next
    case 4
    then show ?thesis using destroy_frees i by simp
  next
    case 5
    then show ?thesis using "2.IH" [OF 5(1,2) p [symmetric] refl refl 5(3)] i by blast
  qed
qed

text \<open>A call on a stream it has allocated: send, then wait; nothing but the new slot is added.\<close>

lemma unary_sends:
  assumes "\<not> c_dead (se_conn s)" "\<not> (resp = None \<and> cap \<noteq> 0)" "\<not> length req > H2C_MAX_MSG"
    and "stream_alloc (se_conn s) ST_UNARY = (c1, Some i)"
    and "c2 = put_strm c1 i ((strm c1 i)\<lparr>s_resp := resp, s_resp_cap := cap, s_resp_len := 0\<rparr>)"
  shows "h2c_unary e clk path req resp cap timeout s =
    (case send_request e clk i path req (s\<lparr>se_conn := c2\<rparr>) of
       Blocked \<Rightarrow> Blocked | Overrun \<Rightarrow> Overrun
     | Ret (rc, s1) \<Rightarrow>
         if rc < 0 then Ret ((rc, None), s1\<lparr>se_conn := destroy_strm (se_conn s1) i\<rparr>)
         else await_done e (clk (length (c_out (se_conn s1))) + (if timeout > 0 then timeout mod 2 ^ 32 else H2C_DEFAULT_UNARY_TIMEOUT_MS))
                i (se_conn s1) (se_socket s1) (se_rounds s1))"
  using assms(1-3) by (simp only: h2c_unary_def Let_def assms(4,5) if_False prod.case option.case)

lemma slots_but_new:
  assumes "c_streams c2 = (c_streams c)[i := x]" "slots_kept c2 c'" "\<not> s_in_use (strm c' i)"
  shows "slots_kept c c'"
  unfolding slots_kept_def
proof (intro conjI allI impI)
  show "s_in_use (strm c j)" if "j < length (c_streams c)" "s_in_use (strm c' j)" for j
    using that assms by (cases "j = i") (auto simp: slots_kept_def)
qed (use assms in \<open>simp add: slots_kept_def\<close>)

text \<open>
  C40: A unary call returns. While the peer's frame limit is at most the size of the send buffer
  and time passes (some round of the waiting comes after every deadline the call sets), the call
  ends with a result, whatever the server does or leaves undone, and it never writes behind its
  buffer. It leaves no stream slot taken that was free before.
\<close>

theorem unary_call_returns:
  assumes "conn_ok (se_conn s)" and "c_srv_max_frame (se_conn s) \<le> H2C_DATA_BUF" and "se_rounds s = rs @ [z]"
    and "past z clk H2C_DEFAULT_UNARY_TIMEOUT_MS"
    and "past z clk (if timeout > 0 then timeout mod 2 ^ 32 else H2C_DEFAULT_UNARY_TIMEOUT_MS)"
  shows "\<exists>res s'. h2c_unary e clk path req resp cap timeout s = Ret (res, s') \<and> slots_kept (se_conn s) (se_conn s')"
proof -
  let ?c = "se_conn s" and ?t = "if timeout > 0 then timeout mod 2 ^ 32 else H2C_DEFAULT_UNARY_TIMEOUT_MS"
  obtain c1 io where a: "stream_alloc ?c ST_UNARY = (c1, io)" by force
  show ?thesis
  proof (cases "c_dead ?c \<or> (resp = None \<and> cap \<noteq> 0) \<or> length req > H2C_MAX_MSG \<or> io = None")
    case True
    then show ?thesis using a slots_kept_refl [of ?c] unfolding h2c_unary_def Let_def by (cases io) auto
  next
    case False
    then obtain i where io: "io = Some i" by auto
    note al = alloc_eq [OF a [unfolded io]]
    define c2 where "c2 = put_strm c1 i ((strm c1 i)\<lparr>s_resp := resp, s_resp_cap := cap, s_resp_len := 0\<rparr>)"
    have c2: "c_streams c2 = (c_streams ?c)[i := strm c2 i]" "c_srv_max_frame c2 = c_srv_max_frame ?c"
        "i < length (c_streams c2)" "0 < c_srv_max_frame ?c"
      using al(1) assms(1) by (auto simp: c2_def al(2) conn_ok_def conn_room_def tables_ok_def)
    note eq = unary_sends [OF _ _ _ a [unfolded io] c2_def, of req e clk path timeout]
    obtain rc s1 rs1 where s1: "send_request e clk i path req (s\<lparr>se_conn := c2\<rparr>) = Ret (rc, s1)"
        "\<not> rc < 0 \<longrightarrow> se_rounds s1 = rs1 @ [z]"
      using send_request_returns [OF _ _ _ assms(4), of "s\<lparr>se_conn := c2\<rparr>" rs e i path req] assms(2,3) c2(2,4) by auto
    have k: "slots_kept c2 (se_conn s1)" using send_request_slots [OF s1(1)] by simp
    have i1: "i < length (c_streams (se_conn s1))" using k c2(3) by (simp add: slots_kept_def)
    show ?thesis
    proof (cases "rc < 0")
      case True
      have "slots_kept c2 (destroy_strm (se_conn s1) i)" using slots_kept_trans [OF k served_slots [OF served_destroy]] .
      from slots_but_new [OF c2(1) this destroy_frees [OF i1]] show ?thesis using True False eq s1 by simp
    next
      case ok: False
      let ?dl = "clk (length (c_out (se_conn s1))) + ?t"
      have "?dl \<le> wr_now z" using assms(5) by (simp add: past_def)
      then obtain r s' where d: "await_done e ?dl i (se_conn s1) (se_socket s1) (se_rounds s1) = Ret (r, s')"
        using await_done_returns ok s1(2) by blast
      have "slots_kept c2 (se_conn s')"
        using slots_kept_trans [OF k served_slots [OF serving.await_done_kept [OF al(1) d]]] .
      from slots_but_new [OF c2(1) this await_done_frees [OF d i1]] show ?thesis using ok False eq s1 d by auto
    qed
  qed
qed

section \<open>Witnesses\<close>

text \<open>With credit for all of it, a small request goes out at once.\<close>

lemma one_chunk:
  assumes "has_credit (se_conn s) i (length body)" "body \<noteq> []" "length body \<le> m" "length body \<le> H2C_DATA_BUF"
  shows "\<exists>s' f. send_loop (length body) e clk m i body s =
      Ret (if he_send e (length (c_out (se_conn s))) then 0 else H2C_ERR_IO, s') \<and>
    c_out (se_conn s') = c_out (se_conn s) @ [f] \<and> fr_type f = H2_DATA"
proof -
  obtain k where k: "length body = Suc k" using assms(2) by (cases body) auto
  have w: "wait_window e dl i (length body) (se_conn s) (se_socket s) (se_rounds s) = Ret (None, s)" for dl
    using assms(1) by (cases "se_rounds s") auto
  have "\<exists>s' f. send_chunk e clk i body True s = Ret (if he_send e (length (c_out (se_conn s))) then 0 else H2C_ERR_IO, s') \<and>
      c_out (se_conn s') = c_out (se_conn s) @ [f] \<and> fr_type f = H2_DATA"
    using assms w by (auto simp: send_chunk_def Let_def frame_write_def H2C_DATA_BUF_def)
  then have "\<exists>s' f. send_loop (Suc k) e clk m i body s = Ret (if he_send e (length (c_out (se_conn s))) then 0 else H2C_ERR_IO, s') \<and>
      c_out (se_conn s') = c_out (se_conn s) @ [f] \<and> fr_type f = H2_DATA"
    using assms(2,3) by (cases k) (auto simp: Let_def min_def h2c_errs)
  then show ?thesis by (simp only: k)
qed

definition demo_session :: session where
  "demo_session = \<lparr>se_conn = demo_stream, se_socket = [],
     se_rounds = [\<lparr>wr_now = 30000, wr_poll = Poll_timeout, wr_events = []\<rparr>]\<rparr>"

lemma demo_session_ok:
  "conn_ok (se_conn demo_session)" "peer_in_step (se_conn demo_session) dyn_reset"
  "c_namespace (se_conn demo_session) = ''default''" "c_srv_max_frame (se_conn demo_session) = 16384"
  "c_send_window (se_conn demo_session) = 65535" "s_send_window (strm (se_conn demo_session) 0) = 65535"
  "s_id (strm (se_conn demo_session) 0) = 1" "c_out (se_conn demo_session) = []"
proof -
  let ?c = "fresh_conn ''default''"
  have "conn_ok ((put_strm ?c 0 (stream_init ?c ST_SUBSCRIBE))\<lparr>c_next_sid := 1\<rparr>)"
    by (rule new_stream_ok(1) [OF fresh_conn_ok _ _ init_room]) (simp_all add: fresh_conn_def H2C_MAX_STREAMS_def)
  then show "conn_ok (se_conn demo_session)" by (simp add: demo_session_def demo_stream_def fresh_conn_def)
  show "peer_in_step (se_conn demo_session) dyn_reset" "c_namespace (se_conn demo_session) = ''default''"
      "c_srv_max_frame (se_conn demo_session) = 16384" "c_send_window (se_conn demo_session) = 65535"
      "s_send_window (strm (se_conn demo_session) 0) = 65535" "s_id (strm (se_conn demo_session) 0) = 1"
      "c_out (se_conn demo_session) = []"
    by (simp_all add: demo_session_def demo_stream_def fresh_conn_def peer_in_step_def H2_INIT_WINDOW_def
        stream_init_def H2C_MAX_STREAMS_def)
qed

text \<open>A request that goes out, and the same one when the socket fails at its DATA frame.\<close>

definition demo_send :: "(nat \<Rightarrow> bool) \<Rightarrow> (int \<times> session) outcome" where
  "demo_send sends = send_request (demo_h2_env\<lparr>he_send := sends\<rparr>) (\<lambda>_. 0) 0 ''/a.B/C'' [7] demo_session"

lemma demo_request:
  assumes "sends 0"
  shows "\<exists>s' h f. demo_send sends = Ret (if sends 1 then 0 else H2C_ERR_IO, s') \<and> c_out (se_conn s') = [h, f] \<and> fr_type f = H2_DATA"
proof -
  let ?c = "se_conn demo_session" and ?e = "demo_h2_env\<lparr>he_send := sends\<rparr>"
  have e: "he_mem ?e = ample" by (simp add: demo_h2_env_def)
  have "dyn_ok (c_dyn_enc ?c)" using demo_session_ok(1) by (simp add: conn_ok_def conn_room_def tables_ok_def)
  then obtain c1 block where b: "build_request_headers ?e ?c ''/a.B/C'' H2C_REQ_HDR_BLOCK = (c1, Some block)"
      "length block \<le> H2C_REQ_HDR_BLOCK"
    using request_headers_decoded [OF _ e _ demo_session_ok(2), of "''/a.B/C''"] demo_session_ok(3) by auto
  let ?h = "\<lparr>fr_type = H2_HEADERS, fr_flags = H2_FLAG_END_HEADERS, fr_sid = s_id (strm c1 0), fr_payload = block\<rparr>"
  let ?c2 = "c1\<lparr>c_out := [?h]\<rparr>"
  have c1: "c_send_window c1 = 65535" "s_send_window (strm c1 0) = 65535" "c_out c1 = []"
    using build_headers_same(1,2,5) [of ?e ?c "''/a.B/C''" H2C_REQ_HDR_BLOCK] b(1) demo_session_ok(5,6,8) by auto
  have g: "length (grpc_frame [7]) = 6" "grpc_frame [7] \<noteq> []" by (simp_all add: grpc_frame_def length_be_bytes)
  have "has_credit ?c2 0 (length (grpc_frame [7]))" unfolding g(1) by (simp add: has_credit_def c1 s32_def)
  then have l: "\<exists>s' f. send_loop (length (grpc_frame [7])) ?e (\<lambda>_. 0) 16384 0 (grpc_frame [7]) (demo_session\<lparr>se_conn := ?c2\<rparr>) =
      Ret (if sends 1 then 0 else H2C_ERR_IO, s') \<and> c_out (se_conn s') = [?h, f] \<and> fr_type f = H2_DATA"
    using one_chunk [of "demo_session\<lparr>se_conn := ?c2\<rparr>" 0 "grpc_frame [7]" 16384 ?e] g by (simp add: H2C_DATA_BUF_def)
  have "frame_write ?e c1 H2_HEADERS H2_FLAG_END_HEADERS (s_id (strm c1 0)) block = (0, ?c2)"
    using b(2) assms by (simp add: frame_write_def c1 H2C_REQ_HDR_BLOCK_def)
  then show ?thesis using l b(1) unfolding demo_send_def by (auto simp: send_request_def Let_def demo_session_ok(4))
qed


theorem unary_call_returns_witness:
  "\<exists>res s'. h2c_unary demo_h2_env (\<lambda>_. 0) ''/a.B/C'' [7] (Some []) 100 5000 demo_session = Ret (res, s')"
proof -
  let ?z = "\<lparr>wr_now = 30000, wr_poll = Poll_timeout, wr_events = []\<rparr>"
  have "se_rounds demo_session = [] @ [?z]" by (simp add: demo_session_def)
  moreover have "past ?z (\<lambda>_. 0) H2C_DEFAULT_UNARY_TIMEOUT_MS"
      "past ?z (\<lambda>_. 0) (if (5000 :: int) > 0 then 5000 mod 2 ^ 32 else H2C_DEFAULT_UNARY_TIMEOUT_MS)"
    by (simp_all add: past_def H2C_DEFAULT_UNARY_TIMEOUT_MS_def)
  moreover have "c_srv_max_frame (se_conn demo_session) \<le> H2C_DATA_BUF" by (simp add: demo_session_ok(4) H2C_DATA_BUF_def)
  ultimately show ?thesis using unary_call_returns [OF demo_session_ok(1)] by blast
qed

section \<open>Where the client goes wrong\<close>

text \<open>
  The frame limit a server may announce goes up to 16777215, the buffer a chunk is copied into
  has 16389 bytes: with a larger limit and a larger message the copy runs over the end.
\<close>

lemma large_frame_overrun:
  assumes "he_send e = (\<lambda>_. True)" "build_request_headers e (se_conn s) path H2C_REQ_HDR_BLOCK = (c1, Some block)"
    and "length block \<le> H2C_REQ_HDR_BLOCK" "H2C_DATA_BUF < c_srv_max_frame (se_conn s)" "H2C_DATA_BUF \<le> length req"
  shows "send_request e clk i path req s = Overrun"
proof -
  obtain f where f: "length (grpc_frame req) = Suc f" by (simp add: grpc_frame_def)
  have "length (take (min (length (grpc_frame req)) (c_srv_max_frame (se_conn s))) (grpc_frame req)) > H2C_DATA_BUF"
    using assms(4,5) by (simp add: grpc_frame_def length_be_bytes)
  then have "send_loop (Suc f) e clk (c_srv_max_frame (se_conn s)) i (grpc_frame req) s1 = Overrun" for s1
    by (simp add: Let_def send_chunk_def grpc_frame_def del: length_take)
  then show ?thesis using assms(1-3)
    by (simp add: send_request_def Let_def frame_write_def H2C_REQ_HDR_BLOCK_def f [symmetric])
qed

lemma frame_limit_accepted: "16384 \<le> v \<Longrightarrow> v \<le> 16777215 \<Longrightarrow> apply_setting c 5 v = (True, c\<lparr>c_srv_max_frame := v\<rparr>)"
  by (simp add: apply_setting_def)

text \<open>
  The deadline of a unary call is set only once the request is out. Before that every DATA frame may
  wait for credit for 30 seconds of its own, whatever timeout the caller gave: with a poll that
  brings nothing, a chunk without credit is still waiting at any time before that.
\<close>

lemma send_wait_ignores_timeout:
  assumes "\<not> has_credit (se_conn s) i (length ch)" "length ch \<le> H2C_DATA_BUF"
    and "se_rounds s = [\<lparr>wr_now = now, wr_poll = Poll_timeout, wr_events = []\<rparr>]"
    and "now < clk (length (c_out (se_conn s))) + 30000"
    and "s_state (strm (se_conn s) i) \<noteq> SS_DONE" "\<not> c_dead (se_conn s)"
  shows "send_chunk e clk i ch fin s = Blocked"
  using assms
  by (simp add: send_chunk_def H2C_DEFAULT_UNARY_TIMEOUT_MS_def time_left_ms_def Let_def conn_poll_once_def)

text \<open>
  A reply that arrives after its call has timed out finds no stream, and that is treated as a
  protocol error of the whole connection, not as a frame to ignore.
\<close>

lemma late_reply_fatal:
  assumes "stream_find c sid = None" "\<not> c_dead c"
    and "dispatch_frame e c \<lparr>fr_type = H2_DATA, fr_flags = flags, fr_sid = sid, fr_payload = p\<rparr> = (rc, c')"
  shows "rc < 0 \<and> c_dead (conn_fail c' H2C_ERR_PROTO)"
  using assms conn_fail_dead by (auto simp: dispatch_frame_def Let_def h2_types handle_data_frame_def)

text \<open>
  Padding of a HEADERS frame stands behind the header block, but the offset skips it in front:
  of the payload with pad length 1, block \<open>0x88\<close> and one byte of padding, the padding is decoded.
\<close>

lemma padded_headers_misread:
  "headers_block_offset [1, 0x88, 0] H2_FLAG_PADDED = Some 2"
  by (simp add: headers_block_offset_def has_flag_def h2_flags Let_def)

end
