(* ===== verification/Spec2Isabelle.thy ===== *)
theory Spec2Isabelle
  imports Linked_Queue System_Props Stage_Ops Http_Server H2c_Sending
begin

text \<open>
  Verification of the strimserver controller, the C program under \<open>src/core/controller/c\<close> that
  keeps the containers of a streaming pipeline in the state its operator and the media server
  ask for.

  \<^bold>\<open>The program.\<close> One thread, the action queue, owns the controller state
  (\<open>core/controller.c\<close>): path events, control commands and stage events set what is desired and
  record what is observed; a reconcile pass compares the two and launches start and stop operations
  on a pool of four workers (\<open>main.c\<close>), which talk to containerd over gRPC on a small HTTP/2 client
  (\<open>containerd/h2c.c\<close>). The configuration comes from environment variables (\<open>main.c\<close>), mounts and
  arguments from \<open>core/spec.c\<close>. Events and commands are posted to an HTTP server
  (\<open>http/http_server.c\<close>), from which browsers also follow the status over a WebSocket whose
  handshake uses \<open>http/ws_crypto.c\<close>.

  \<^bold>\<open>The theories\<close>, in the order they build on each other:
  \<^item> \<open>Prelude\<close>: C types, casts and error codes, generic lemmas.
  \<^item> \<open>Wire\<close>: the six enumerations of \<open>controller.h\<close> and their string tables; the locale
    \<open>enum_table\<close> is interpreted on each table.
  \<^item> \<open>Linked_Queue\<close>: the intrusive pointer queue, a refinement of a list queue (locale \<open>fifo\<close>).
  \<^item> \<open>Controller\<close>: the records, handlers, dispatch and submit functions of \<open>core/controller.c\<close>, one
    definition per function, a loop body or a locked region where the code has one.
    \<open>Controller_Inv\<close> is its invariant, \<open>Reconcile\<close> the declarative account of a reconcile pass.
  \<^item> \<open>Duration\<close>, \<open>App_Config\<close>, \<open>Boot\<close>: Go durations, the environment and the configuration, and
    the controller that \<open>run\<close> builds, from \<open>main.c\<close>.
  \<^item> \<open>Controller_Props\<close>, \<open>Reconcile_Props\<close>, \<open>Lifecycle_Props\<close>: what the handlers, the reconcile
    loop, teardown and the listeners guarantee.
  \<^item> \<open>Controller_System\<close>: the threads (queue thread, submitters, workers, the shutdown sequence of
    \<open>run\<close>) as an inductive step relation; \<open>System_Frames\<close>, \<open>System_Inv\<close>, \<open>System_Gen\<close> are its
    invariants and \<open>System_Props\<close> what holds in every reachable state.
  \<^item> \<open>Oci_Spec\<close>: layout, mounts and arguments of \<open>core/spec.c\<close>; \<open>Stage_Ops\<close>: the start and stop
    operations of \<open>main.c\<close> as traces of calls, in which the wait of the stop op's waiter thread may
    come at any point up to the join.
  \<^item> \<open>Ws_Crypto\<close>: SHA-1 and base64. \<open>Http_Server\<close>: start-up, requests, routing, responses and the
    WebSocket handshake of \<open>http/http_server.c\<close>, over a record of callbacks.
  \<^item> \<open>Huffman\<close>, \<open>Hpack\<close>: header compression of \<open>h2c.c\<close>; the array trie represents a tree, encoder
    and decoder stay in step (locale \<open>codec_in_step\<close>).
  \<^item> \<open>H2c_Frames\<close>: frame writing and the incremental frame reader. \<open>H2c_Conn\<close>: the connection,
    its streams, every frame handler and polling. \<open>H2c_Inv\<close>: its invariant. \<open>H2c_Calls\<close>: requests,
    handshake, unary calls and server streams. \<open>H2c_Props\<close>: message reassembly and request headers.
    \<open>H2c_Served\<close>, \<open>H2c_Session\<close>: what polling leaves alone, the waiting loops (locale \<open>waiting\<close>,
    interpreted for both contracts of polling) and the connections a client can reach.
    \<open>H2c_Sending\<close>: what goes on the wire, that no DATA frame exceeds the credit, and that calls
    return.

  \<^bold>\<open>How code is rendered.\<close> A struct is a record, an enum of the wire an \<open>int\<close> as in the source, other
  enums datatypes. A handler takes the state and returns its code and the new state, and what it
  does to the outside as a list of effects. Allocation, clocks, sockets, file contents and the
  containerd calls are arguments, so every failure is a branch; a write behind the end of a buffer
  is a value of its own where the code can do it, and so is a read behind it in the HTTP responses.
  Machine integers wrap where the source relies on it or where the range matters; elsewhere they are
  unbounded. C strings are lists without a terminator and buffers carry their capacity. An allocator
  is a predicate on sizes, fixed for one run. A step of a thread is what it does under a lock or
  between two: the fire of a stage and the teardown of a stage are one step each, so the transient
  generation of a fire that is undone is not a state of its own.

  \<^bold>\<open>Bounds and fuel.\<close> Loops over data are structural recursion or have a termination proof. The
  reassembly loop of \<open>stream_feed_data\<close> has twice the input length as fuel, which suffices since an
  iteration without input can only follow one that took some; the sending loop has the length of
  the message, since every frame carries a byte; polling handles at most 128 frames as in the source.
  Loops that wait for the server consume a list of rounds, one clock reading and poll result each:
  a list that runs out is the outcome \<open>Blocked\<close>, and the properties that a call returns exclude it.

  \<^bold>\<open>Not modelled.\<close> Of the HTTP server the event loop around libmicrohttpd and the WebSocket clients,
  which are calls into wslay; the callbacks behind it read and write JSON through yyjson. The containerd client
  (\<open>containerd_client.c\<close>, \<open>content.c\<close>, \<open>snapshots.c\<close>) assembles generated protobuf messages; its calls
  are a parameter of the stage operations. \<open>cdi.c\<close> and \<open>oci_spec.c\<close> rewrite JSON documents and
  read host devices. Logging, signal handlers, process start-up, the alternate and the Go
  controllers, and the deployment tooling are left out.
\<close>

end
